(* ===== verification/Bscope_Prelude.thy ===== *)
theory Bscope_Prelude
  imports Main "HOL-Library.Word"
begin

unbundle bit_operations_syntax

text \<open>
  Shared ground of the development: the machine integer types of the C code, bytes, and
  the functions of the C standard library the program calls on strings.

  A C \<open>char\<close> is an Isabelle \<open>char\<close> (one byte). The code runs where \<open>char\<close> is signed, so an
  order comparison of two \<open>char\<close> values goes through \<open>schar\<close>; a cast to \<open>unsigned char\<close>
  goes through \<open>uchar\<close>. A C string is the list of its bytes without the final NUL.
\<close>

type_synonym u8 = "8 word"
type_synonym u16 = "16 word"
type_synonym u32 = "32 word"
type_synonym u64 = "64 word"

named_theorems byte_simps "evaluation of character classes"

section \<open>Bytes\<close>

definition uchar :: "char \<Rightarrow> nat" where
  "uchar c = of_char c"

definition schar :: "char \<Rightarrow> int" where
  "schar c = (if uchar c < 128 then int (uchar c) else int (uchar c) - 256)"

abbreviation NUL :: char where "NUL \<equiv> CHR 0x00"
abbreviation HT :: char where "HT \<equiv> CHR 0x09"
abbreviation LF :: char where "LF \<equiv> CHR 0x0A"
abbreviation FF :: char where "FF \<equiv> CHR 0x0C"
abbreviation CR :: char where "CR \<equiv> CHR 0x0D"
abbreviation SP :: char where "SP \<equiv> CHR 0x20"

lemma uchar_less_256 [simp]: "uchar c < 256"
  by (simp add: uchar_def)

lemma uchar_inject [simp]: "uchar c = uchar d \<longleftrightarrow> c = d"
  by (simp add: uchar_def)

text \<open>The C locale's \<open>tolower\<close>: only the letters A to Z change.\<close>

definition c_tolower :: "char \<Rightarrow> char" where
  "c_tolower c = (if 65 \<le> uchar c \<and> uchar c \<le> 90 then char_of (uchar c + 32) else c)"

text \<open>The C locale's \<open>isspace\<close>: space and the control characters 9 to 13.\<close>

definition c_isspace :: "char \<Rightarrow> bool" where
  "c_isspace c \<longleftrightarrow> uchar c = 32 \<or> (9 \<le> uchar c \<and> uchar c \<le> 13)"

end
