(* ===== verification/HttpTypes.thy ===== *)
theory HttpTypes
  imports Bscope_Prelude
begin

text \<open>
  The data of the HTTP parser (src/src/http-parser/http_parser.h and the head of
  http_parser.c): its enumerations, the \<open>struct http_parser\<close>, the byte tables
  \<open>tokens\<close>, \<open>unhex\<close> and \<open>normal_url_char\<close>, and the character classes of the strict mode
  (\<open>HTTP_PARSER_STRICT\<close> is 1 by default and the build does not change it).
  Bit fields keep their width; \<open>method\<close> and \<open>http_errno\<close> hold enumeration values.
\<close>

section \<open>Enumerations\<close>

datatype http_method =
    HTTP_DELETE | HTTP_GET | HTTP_HEAD | HTTP_POST | HTTP_PUT
  | HTTP_CONNECT | HTTP_OPTIONS | HTTP_TRACE | HTTP_COPY | HTTP_LOCK
  | HTTP_MKCOL | HTTP_MOVE | HTTP_PROPFIND | HTTP_PROPPATCH | HTTP_SEARCH
  | HTTP_UNLOCK | HTTP_REPORT | HTTP_MKACTIVITY | HTTP_CHECKOUT | HTTP_MERGE
  | HTTP_MSEARCH | HTTP_NOTIFY | HTTP_SUBSCRIBE | HTTP_UNSUBSCRIBE | HTTP_PATCH
  | HTTP_PURGE

datatype http_parser_type = HTTP_REQUEST | HTTP_RESPONSE | HTTP_BOTH

text \<open>The values \<open>HPE_*\<close> of \<open>HTTP_ERRNO_MAP\<close>.\<close>

datatype http_errno =
    HPE_OK | HPE_CB_message_begin | HPE_CB_url | HPE_CB_header_field
  | HPE_CB_header_value | HPE_CB_headers_complete | HPE_CB_body | HPE_CB_message_complete
  | HPE_INVALID_EOF_STATE | HPE_HEADER_OVERFLOW | HPE_CLOSED_CONNECTION | HPE_INVALID_VERSION
  | HPE_INVALID_STATUS | HPE_INVALID_METHOD | HPE_INVALID_URL | HPE_INVALID_HOST
  | HPE_INVALID_PORT | HPE_INVALID_PATH | HPE_INVALID_QUERY_STRING | HPE_INVALID_FRAGMENT
  | HPE_LF_EXPECTED | HPE_INVALID_HEADER_TOKEN | HPE_INVALID_CONTENT_LENGTH | HPE_INVALID_CHUNK_SIZE
  | HPE_INVALID_CONSTANT | HPE_INVALID_INTERNAL_STATE | HPE_STRICT | HPE_PAUSED
  | HPE_UNKNOWN

text \<open>\<open>enum state\<close>, \<open>enum header_states\<close> and \<open>enum http_host_state\<close> of http_parser.c.\<close>

datatype pstate =
    s_dead | s_start_req_or_res | s_res_or_resp_H | s_start_res
  | s_res_H | s_res_HT | s_res_HTT | s_res_HTTP
  | s_res_first_http_major | s_res_http_major | s_res_first_http_minor | s_res_http_minor
  | s_res_first_status_code | s_res_status_code | s_res_status | s_res_line_almost_done
  | s_start_req | s_req_method | s_req_spaces_before_url | s_req_schema
  | s_req_schema_slash | s_req_schema_slash_slash | s_req_server_start | s_req_server
  | s_req_server_with_at | s_req_path | s_req_query_string_start | s_req_query_string
  | s_req_fragment_start | s_req_fragment | s_req_http_start | s_req_http_H
  | s_req_http_HT | s_req_http_HTT | s_req_http_HTTP | s_req_first_http_major
  | s_req_http_major | s_req_first_http_minor | s_req_http_minor | s_req_line_almost_done
  | s_header_field_start | s_header_field | s_header_value_start | s_header_value
  | s_header_value_lws | s_header_almost_done | s_chunk_size_start | s_chunk_size
  | s_chunk_parameters | s_chunk_size_almost_done | s_headers_almost_done | s_headers_done
  | s_chunk_data | s_chunk_data_almost_done | s_chunk_data_done | s_body_identity
  | s_body_identity_eof | s_message_done

datatype header_states =
    h_general | h_C | h_CO | h_CON
  | h_matching_connection | h_matching_proxy_connection | h_matching_content_length | h_matching_transfer_encoding
  | h_matching_upgrade | h_connection | h_content_length | h_transfer_encoding
  | h_upgrade | h_matching_transfer_encoding_chunked | h_matching_connection_keep_alive | h_matching_connection_close
  | h_transfer_encoding_chunked | h_connection_keep_alive | h_connection_close

datatype http_host_state =
    s_http_host_dead | s_http_userinfo_start | s_http_userinfo | s_http_host_start
  | s_http_host_v6_start | s_http_host | s_http_host_v6 | s_http_host_v6_end
  | s_http_host_port_start | s_http_host_port

section \<open>The order of the states\<close>

text \<open>
  The code compares states (\<open>PARSING_HEADER(state)\<close> is \<open>state <= s_headers_done\<close>), so the
  order of the enumeration matters: \<open>s_dead\<close> is 1 and the others follow.
\<close>

primrec state_code :: "pstate \<Rightarrow> nat" where
  "state_code s_dead = 1"
| "state_code s_start_req_or_res = 2"
| "state_code s_res_or_resp_H = 3"
| "state_code s_start_res = 4"
| "state_code s_res_H = 5"
| "state_code s_res_HT = 6"
| "state_code s_res_HTT = 7"
| "state_code s_res_HTTP = 8"
| "state_code s_res_first_http_major = 9"
| "state_code s_res_http_major = 10"
| "state_code s_res_first_http_minor = 11"
| "state_code s_res_http_minor = 12"
| "state_code s_res_first_status_code = 13"
| "state_code s_res_status_code = 14"
| "state_code s_res_status = 15"
| "state_code s_res_line_almost_done = 16"
| "state_code s_start_req = 17"
| "state_code s_req_method = 18"
| "state_code s_req_spaces_before_url = 19"
| "state_code s_req_schema = 20"
| "state_code s_req_schema_slash = 21"
| "state_code s_req_schema_slash_slash = 22"
| "state_code s_req_server_start = 23"
| "state_code s_req_server = 24"
| "state_code s_req_server_with_at = 25"
| "state_code s_req_path = 26"
| "state_code s_req_query_string_start = 27"
| "state_code s_req_query_string = 28"
| "state_code s_req_fragment_start = 29"
| "state_code s_req_fragment = 30"
| "state_code s_req_http_start = 31"
| "state_code s_req_http_H = 32"
| "state_code s_req_http_HT = 33"
| "state_code s_req_http_HTT = 34"
| "state_code s_req_http_HTTP = 35"
| "state_code s_req_first_http_major = 36"
| "state_code s_req_http_major = 37"
| "state_code s_req_first_http_minor = 38"
| "state_code s_req_http_minor = 39"
| "state_code s_req_line_almost_done = 40"
| "state_code s_header_field_start = 41"
| "state_code s_header_field = 42"
| "state_code s_header_value_start = 43"
| "state_code s_header_value = 44"
| "state_code s_header_value_lws = 45"
| "state_code s_header_almost_done = 46"
| "state_code s_chunk_size_start = 47"
| "state_code s_chunk_size = 48"
| "state_code s_chunk_parameters = 49"
| "state_code s_chunk_size_almost_done = 50"
| "state_code s_headers_almost_done = 51"
| "state_code s_headers_done = 52"
| "state_code s_chunk_data = 53"
| "state_code s_chunk_data_almost_done = 54"
| "state_code s_chunk_data_done = 55"
| "state_code s_body_identity = 56"
| "state_code s_body_identity_eof = 57"
| "state_code s_message_done = 58"

definition state_of_code :: "nat \<Rightarrow> pstate" where
  "state_of_code n = [
    s_dead, s_start_req_or_res, s_res_or_resp_H, s_start_res,
    s_res_H, s_res_HT, s_res_HTT, s_res_HTTP,
    s_res_first_http_major, s_res_http_major, s_res_first_http_minor, s_res_http_minor,
    s_res_first_status_code, s_res_status_code, s_res_status, s_res_line_almost_done,
    s_start_req, s_req_method, s_req_spaces_before_url, s_req_schema,
    s_req_schema_slash, s_req_schema_slash_slash, s_req_server_start, s_req_server,
    s_req_server_with_at, s_req_path, s_req_query_string_start, s_req_query_string,
    s_req_fragment_start, s_req_fragment, s_req_http_start, s_req_http_H,
    s_req_http_HT, s_req_http_HTT, s_req_http_HTTP, s_req_first_http_major,
    s_req_http_major, s_req_first_http_minor, s_req_http_minor, s_req_line_almost_done,
    s_header_field_start, s_header_field, s_header_value_start, s_header_value,
    s_header_value_lws, s_header_almost_done, s_chunk_size_start, s_chunk_size,
    s_chunk_parameters, s_chunk_size_almost_done, s_headers_almost_done, s_headers_done,
    s_chunk_data, s_chunk_data_almost_done, s_chunk_data_done, s_body_identity,
    s_body_identity_eof, s_message_done] ! (n - 1)"

lemma state_of_state_code: "state_of_code (state_code s) = s"
  by (cases s) (simp_all add: state_of_code_def)

lemma state_code_inject: "state_code s = state_code t \<longleftrightarrow> s = t"
  by (metis state_of_state_code)

instantiation pstate :: linorder
begin

definition less_eq_pstate :: "pstate \<Rightarrow> pstate \<Rightarrow> bool" where
  "s \<le> t \<longleftrightarrow> state_code s \<le> state_code t"

definition less_pstate :: "pstate \<Rightarrow> pstate \<Rightarrow> bool" where
  "s < t \<longleftrightarrow> state_code s < state_code t"

instance
  by standard (auto simp: less_eq_pstate_def less_pstate_def state_code_inject)

end

definition PARSING_HEADER :: "pstate \<Rightarrow> bool" where
  "PARSING_HEADER s \<longleftrightarrow> s \<le> s_headers_done"

section \<open>Method and error names\<close>

primrec method_strings :: "http_method \<Rightarrow> string" where
  "method_strings HTTP_DELETE = ''DELETE''"
| "method_strings HTTP_GET = ''GET''"
| "method_strings HTTP_HEAD = ''HEAD''"
| "method_strings HTTP_POST = ''POST''"
| "method_strings HTTP_PUT = ''PUT''"
| "method_strings HTTP_CONNECT = ''CONNECT''"
| "method_strings HTTP_OPTIONS = ''OPTIONS''"
| "method_strings HTTP_TRACE = ''TRACE''"
| "method_strings HTTP_COPY = ''COPY''"
| "method_strings HTTP_LOCK = ''LOCK''"
| "method_strings HTTP_MKCOL = ''MKCOL''"
| "method_strings HTTP_MOVE = ''MOVE''"
| "method_strings HTTP_PROPFIND = ''PROPFIND''"
| "method_strings HTTP_PROPPATCH = ''PROPPATCH''"
| "method_strings HTTP_SEARCH = ''SEARCH''"
| "method_strings HTTP_UNLOCK = ''UNLOCK''"
| "method_strings HTTP_REPORT = ''REPORT''"
| "method_strings HTTP_MKACTIVITY = ''MKACTIVITY''"
| "method_strings HTTP_CHECKOUT = ''CHECKOUT''"
| "method_strings HTTP_MERGE = ''MERGE''"
| "method_strings HTTP_MSEARCH = ''M-SEARCH''"
| "method_strings HTTP_NOTIFY = ''NOTIFY''"
| "method_strings HTTP_SUBSCRIBE = ''SUBSCRIBE''"
| "method_strings HTTP_UNSUBSCRIBE = ''UNSUBSCRIBE''"
| "method_strings HTTP_PATCH = ''PATCH''"
| "method_strings HTTP_PURGE = ''PURGE''"

definition http_method_str :: "http_method \<Rightarrow> string" where
  "http_method_str m = method_strings m"

primrec http_errno_name :: "http_errno \<Rightarrow> string" where
  "http_errno_name HPE_OK = ''HPE_OK''"
| "http_errno_name HPE_CB_message_begin = ''HPE_CB_message_begin''"
| "http_errno_name HPE_CB_url = ''HPE_CB_url''"
| "http_errno_name HPE_CB_header_field = ''HPE_CB_header_field''"
| "http_errno_name HPE_CB_header_value = ''HPE_CB_header_value''"
| "http_errno_name HPE_CB_headers_complete = ''HPE_CB_headers_complete''"
| "http_errno_name HPE_CB_body = ''HPE_CB_body''"
| "http_errno_name HPE_CB_message_complete = ''HPE_CB_message_complete''"
| "http_errno_name HPE_INVALID_EOF_STATE = ''HPE_INVALID_EOF_STATE''"
| "http_errno_name HPE_HEADER_OVERFLOW = ''HPE_HEADER_OVERFLOW''"
| "http_errno_name HPE_CLOSED_CONNECTION = ''HPE_CLOSED_CONNECTION''"
| "http_errno_name HPE_INVALID_VERSION = ''HPE_INVALID_VERSION''"
| "http_errno_name HPE_INVALID_STATUS = ''HPE_INVALID_STATUS''"
| "http_errno_name HPE_INVALID_METHOD = ''HPE_INVALID_METHOD''"
| "http_errno_name HPE_INVALID_URL = ''HPE_INVALID_URL''"
| "http_errno_name HPE_INVALID_HOST = ''HPE_INVALID_HOST''"
| "http_errno_name HPE_INVALID_PORT = ''HPE_INVALID_PORT''"
| "http_errno_name HPE_INVALID_PATH = ''HPE_INVALID_PATH''"
| "http_errno_name HPE_INVALID_QUERY_STRING = ''HPE_INVALID_QUERY_STRING''"
| "http_errno_name HPE_INVALID_FRAGMENT = ''HPE_INVALID_FRAGMENT''"
| "http_errno_name HPE_LF_EXPECTED = ''HPE_LF_EXPECTED''"
| "http_errno_name HPE_INVALID_HEADER_TOKEN = ''HPE_INVALID_HEADER_TOKEN''"
| "http_errno_name HPE_INVALID_CONTENT_LENGTH = ''HPE_INVALID_CONTENT_LENGTH''"
| "http_errno_name HPE_INVALID_CHUNK_SIZE = ''HPE_INVALID_CHUNK_SIZE''"
| "http_errno_name HPE_INVALID_CONSTANT = ''HPE_INVALID_CONSTANT''"
| "http_errno_name HPE_INVALID_INTERNAL_STATE = ''HPE_INVALID_INTERNAL_STATE''"
| "http_errno_name HPE_STRICT = ''HPE_STRICT''"
| "http_errno_name HPE_PAUSED = ''HPE_PAUSED''"
| "http_errno_name HPE_UNKNOWN = ''HPE_UNKNOWN''"

primrec http_errno_description :: "http_errno \<Rightarrow> string" where
  "http_errno_description HPE_OK =
     ''success''"
| "http_errno_description HPE_CB_message_begin =
     ''the on_message_begin callback failed''"
| "http_errno_description HPE_CB_url =
     ''the on_url callback failed''"
| "http_errno_description HPE_CB_header_field =
     ''the on_header_field callback failed''"
| "http_errno_description HPE_CB_header_value =
     ''the on_header_value callback failed''"
| "http_errno_description HPE_CB_headers_complete =
     ''the on_headers_complete callback failed''"
| "http_errno_description HPE_CB_body =
     ''the on_body callback failed''"
| "http_errno_description HPE_CB_message_complete =
     ''the on_message_complete callback failed''"
| "http_errno_description HPE_INVALID_EOF_STATE =
     ''stream ended at an unexpected time''"
| "http_errno_description HPE_HEADER_OVERFLOW =
     ''too many header bytes seen; overflow detected''"
| "http_errno_description HPE_CLOSED_CONNECTION =
     ''data received after completed connection: close message''"
| "http_errno_description HPE_INVALID_VERSION =
     ''invalid HTTP version''"
| "http_errno_description HPE_INVALID_STATUS =
     ''invalid HTTP status code''"
| "http_errno_description HPE_INVALID_METHOD =
     ''invalid HTTP method''"
| "http_errno_description HPE_INVALID_URL =
     ''invalid URL''"
| "http_errno_description HPE_INVALID_HOST =
     ''invalid host''"
| "http_errno_description HPE_INVALID_PORT =
     ''invalid port''"
| "http_errno_description HPE_INVALID_PATH =
     ''invalid path''"
| "http_errno_description HPE_INVALID_QUERY_STRING =
     ''invalid query string''"
| "http_errno_description HPE_INVALID_FRAGMENT =
     ''invalid fragment''"
| "http_errno_description HPE_LF_EXPECTED =
     ''LF character expected''"
| "http_errno_description HPE_INVALID_HEADER_TOKEN =
     ''invalid character in header''"
| "http_errno_description HPE_INVALID_CONTENT_LENGTH =
     ''invalid character in content-length header''"
| "http_errno_description HPE_INVALID_CHUNK_SIZE =
     ''invalid character in chunk size header''"
| "http_errno_description HPE_INVALID_CONSTANT =
     ''invalid constant string''"
| "http_errno_description HPE_INVALID_INTERNAL_STATE =
     ''encountered unexpected internal state''"
| "http_errno_description HPE_STRICT =
     ''strict mode assertion failed''"
| "http_errno_description HPE_PAUSED =
     ''parser is paused''"
| "http_errno_description HPE_UNKNOWN =
     ''an unknown error occurred''"

section \<open>Flags\<close>

type_synonym flag_bits = "6 word"

definition F_CHUNKED :: flag_bits where "F_CHUNKED = push_bit 0 1"
definition F_CONNECTION_KEEP_ALIVE :: flag_bits where "F_CONNECTION_KEEP_ALIVE = push_bit 1 1"
definition F_CONNECTION_CLOSE :: flag_bits where "F_CONNECTION_CLOSE = push_bit 2 1"
definition F_TRAILING :: flag_bits where "F_TRAILING = push_bit 3 1"
definition F_UPGRADE :: flag_bits where "F_UPGRADE = push_bit 4 1"
definition F_SKIPBODY :: flag_bits where "F_SKIPBODY = push_bit 5 1"

lemmas flag_defs = F_CHUNKED_def F_CONNECTION_KEEP_ALIVE_def F_CONNECTION_CLOSE_def
  F_TRAILING_def F_UPGRADE_def F_SKIPBODY_def

definition has_flag :: "flag_bits \<Rightarrow> flag_bits \<Rightarrow> bool" where
  "has_flag w f \<longleftrightarrow> w AND f \<noteq> 0"

lemma has_flag_0 [simp]: "\<not> has_flag 0 f"
  by (simp add: has_flag_def)

lemma has_flag_or [simp]: "has_flag (v OR w) f \<longleftrightarrow> has_flag v f \<or> has_flag w f"
  by (auto simp: has_flag_def bit.conj_disj_distrib2 or_eq_0_iff)

lemma has_flag_consts [simp]:
  "has_flag F_CHUNKED F_CHUNKED" "\<not> has_flag F_CONNECTION_KEEP_ALIVE F_CHUNKED"
  "\<not> has_flag F_CONNECTION_CLOSE F_CHUNKED" "\<not> has_flag F_TRAILING F_CHUNKED"
  "\<not> has_flag F_UPGRADE F_CHUNKED" "\<not> has_flag F_SKIPBODY F_CHUNKED"
  "has_flag F_TRAILING F_TRAILING" "\<not> has_flag F_CONNECTION_KEEP_ALIVE F_TRAILING"
  "\<not> has_flag F_CONNECTION_CLOSE F_TRAILING" "\<not> has_flag F_CHUNKED F_TRAILING"
  "\<not> has_flag F_UPGRADE F_TRAILING" "\<not> has_flag F_SKIPBODY F_TRAILING"
  by (simp_all add: has_flag_def flag_defs)

section \<open>The parser\<close>

record hparser =
  hp_type :: http_parser_type
  hp_flags :: flag_bits
  hp_state :: pstate
  hp_header_state :: header_states
  hp_index :: u8
  hp_nread :: u32
  hp_content_length :: u64
  hp_http_major :: u16
  hp_http_minor :: u16
  hp_status_code :: u16
  hp_method :: http_method
  hp_errno :: http_errno
  hp_upgrade :: bool

definition HTTP_MAX_HEADER_SIZE :: u32 where
  "HTTP_MAX_HEADER_SIZE = 80 * 1024"

definition ULLONG_MAX :: u64 where
  "ULLONG_MAX = - 1"

section \<open>Byte tables\<close>

text \<open>
  Each table has 256 entries in the code, of which the initialiser writes the first 128;
  C fills the rest with zeros. (In \<open>tokens\<close> the digits are written by their codes.)
\<close>

definition tokens_tab :: string where
  "tokens_tab = [
    NUL, NUL, NUL, NUL, NUL, NUL, NUL, NUL,
    NUL, NUL, NUL, NUL, NUL, NUL, NUL, NUL,
    NUL, NUL, NUL, NUL, NUL, NUL, NUL, NUL,
    NUL, NUL, NUL, NUL, NUL, NUL, NUL, NUL,
    NUL, CHR ''!'', NUL, CHR ''#'', CHR ''$'', CHR ''%'', CHR ''&'', CHR 0x27,
    NUL, NUL, CHR ''*'', CHR ''+'', NUL, CHR ''-'', CHR ''.'', NUL,
    CHR 0x30, CHR 0x31, CHR 0x32, CHR 0x33, CHR 0x34, CHR 0x35, CHR 0x36, CHR 0x37,
    CHR 0x38, CHR 0x39, NUL, NUL, NUL, NUL, NUL, NUL,
    NUL, CHR ''a'', CHR ''b'', CHR ''c'', CHR ''d'', CHR ''e'', CHR ''f'', CHR ''g'',
    CHR ''h'', CHR ''i'', CHR ''j'', CHR ''k'', CHR ''l'', CHR ''m'', CHR ''n'', CHR ''o'',
    CHR ''p'', CHR ''q'', CHR ''r'', CHR ''s'', CHR ''t'', CHR ''u'', CHR ''v'', CHR ''w'',
    CHR ''x'', CHR ''y'', CHR ''z'', NUL, NUL, NUL, CHR 0x5E, CHR 0x5F,
    CHR 0x60, CHR ''a'', CHR ''b'', CHR ''c'', CHR ''d'', CHR ''e'', CHR ''f'', CHR ''g'',
    CHR ''h'', CHR ''i'', CHR ''j'', CHR ''k'', CHR ''l'', CHR ''m'', CHR ''n'', CHR ''o'',
    CHR ''p'', CHR ''q'', CHR ''r'', CHR ''s'', CHR ''t'', CHR ''u'', CHR ''v'', CHR ''w'',
    CHR ''x'', CHR ''y'', CHR ''z'', NUL, CHR ''|'', NUL, CHR ''~'', NUL]"

definition tokens :: "char \<Rightarrow> char" where
  "tokens c = (if uchar c < 128 then tokens_tab ! uchar c else NUL)"

definition unhex_tab :: "int list" where
  "unhex_tab = [
    -1, -1, -1, -1, -1, -1, -1, -1, -1, -1, -1, -1, -1, -1, -1, -1,
    -1, -1, -1, -1, -1, -1, -1, -1, -1, -1, -1, -1, -1, -1, -1, -1,
    -1, -1, -1, -1, -1, -1, -1, -1, -1, -1, -1, -1, -1, -1, -1, -1,
    0, 1, 2, 3, 4, 5, 6, 7, 8, 9, -1, -1, -1, -1, -1, -1,
    -1, 10, 11, 12, 13, 14, 15, -1, -1, -1, -1, -1, -1, -1, -1, -1,
    -1, -1, -1, -1, -1, -1, -1, -1, -1, -1, -1, -1, -1, -1, -1, -1,
    -1, 10, 11, 12, 13, 14, 15, -1, -1, -1, -1, -1, -1, -1, -1, -1,
    -1, -1, -1, -1, -1, -1, -1, -1, -1, -1, -1, -1, -1, -1, -1, -1]"

definition unhex :: "char \<Rightarrow> int" where
  "unhex c = (if uchar c < 128 then unhex_tab ! uchar c else 0)"

definition normal_url_tab :: "nat list" where
  "normal_url_tab = [
    0, 0, 0, 0, 0, 0, 0, 0,
    0, 0, 0, 0, 0, 0, 0, 0,
    0, 0, 0, 0, 0, 0, 0, 0,
    0, 0, 0, 0, 0, 0, 0, 0,
    0, 1, 1, 0, 1, 1, 1, 1,
    1, 1, 1, 1, 1, 1, 1, 1,
    1, 1, 1, 1, 1, 1, 1, 1,
    1, 1, 1, 1, 1, 1, 1, 0,
    1, 1, 1, 1, 1, 1, 1, 1,
    1, 1, 1, 1, 1, 1, 1, 1,
    1, 1, 1, 1, 1, 1, 1, 1,
    1, 1, 1, 1, 1, 1, 1, 1,
    1, 1, 1, 1, 1, 1, 1, 1,
    1, 1, 1, 1, 1, 1, 1, 1,
    1, 1, 1, 1, 1, 1, 1, 1,
    1, 1, 1, 1, 1, 1, 1, 0]"

definition normal_url_char :: "char \<Rightarrow> bool" where
  "normal_url_char c \<longleftrightarrow> uchar c < 128 \<and> normal_url_tab ! uchar c \<noteq> 0"

section \<open>Character classes\<close>

text \<open>\<open>LOWER(c)\<close> sets bit 5 (\<open>c | 0x20\<close>).\<close>

fun LOWER :: "char \<Rightarrow> char" where
  "LOWER (Char b0 b1 b2 b3 b4 b5 b6 b7) = Char b0 b1 b2 b3 b4 True b6 b7"

definition IS_ALPHA :: "char \<Rightarrow> bool" where
  "IS_ALPHA c \<longleftrightarrow> uchar (LOWER c) \<ge> uchar (CHR ''a'') \<and> uchar (LOWER c) \<le> uchar (CHR ''z'')"

definition IS_NUM :: "char \<Rightarrow> bool" where
  "IS_NUM c \<longleftrightarrow> schar c \<ge> schar (CHR ''0'') \<and> schar c \<le> schar (CHR ''9'')"

definition IS_ALPHANUM :: "char \<Rightarrow> bool" where
  "IS_ALPHANUM c \<longleftrightarrow> IS_ALPHA c \<or> IS_NUM c"

definition IS_HEX :: "char \<Rightarrow> bool" where
  "IS_HEX c \<longleftrightarrow> IS_NUM c \<or>
     (uchar (LOWER c) \<ge> uchar (CHR ''a'') \<and> uchar (LOWER c) \<le> uchar (CHR ''f''))"

definition IS_MARK :: "char \<Rightarrow> bool" where
  "IS_MARK c \<longleftrightarrow> c \<in> {CHR ''-'', CHR ''_'', CHR ''.'', CHR ''!'', CHR ''~'', CHR ''*'',
     CHR 0x27, CHR ''('', CHR '')''}"

definition IS_USERINFO_CHAR :: "char \<Rightarrow> bool" where
  "IS_USERINFO_CHAR c \<longleftrightarrow> IS_ALPHANUM c \<or> IS_MARK c \<or>
     c \<in> {CHR ''%'', CHR '';'', CHR '':'', CHR ''&'', CHR ''='', CHR ''+'', CHR ''$'', CHR '',''}"

definition IS_URL_CHAR :: "char \<Rightarrow> bool" where
  "IS_URL_CHAR c \<longleftrightarrow> normal_url_char c"

definition IS_HOST_CHAR :: "char \<Rightarrow> bool" where
  "IS_HOST_CHAR c \<longleftrightarrow> IS_ALPHANUM c \<or> c = CHR ''.'' \<or> c = CHR ''-''"

text \<open>The value \<open>ch - '0'\<close> of a decimal digit, as the 16 and 64 bit code adds it.\<close>

definition digit_val :: "char \<Rightarrow> int" where
  "digit_val c = schar c - schar (CHR ''0'')"

lemmas [byte_simps] = uchar_def schar_def IS_ALPHA_def IS_NUM_def IS_ALPHANUM_def IS_HEX_def
  IS_MARK_def IS_USERINFO_CHAR_def IS_URL_CHAR_def IS_HOST_CHAR_def digit_val_def

end
