(* ===== verification/HttpUrl.thy ===== *)
theory HttpUrl
  imports HttpTypes
begin

text \<open>
  The URL automaton \<open>parse_url_char\<close> of http_parser.c, shared by the request line of the
  parser and by \<open>http_parser_parse_url\<close>.
\<close>

definition parse_url_server :: "char \<Rightarrow> pstate" where
  "parse_url_server ch =
     (if ch = CHR ''/'' then s_req_path
      else if ch = CHR ''?'' then s_req_query_string_start
      else if ch = CHR ''@'' then s_req_server_with_at
      else if IS_USERINFO_CHAR ch \<or> ch = CHR ''['' \<or> ch = CHR '']'' then s_req_server
      else s_dead)"

definition parse_url_query :: "char \<Rightarrow> pstate" where
  "parse_url_query ch =
     (if IS_URL_CHAR ch then s_req_query_string
      else if ch = CHR ''?'' then s_req_query_string
      else if ch = CHR ''#'' then s_req_fragment_start
      else s_dead)"

definition parse_url_char :: "pstate \<Rightarrow> char \<Rightarrow> pstate" where
  "parse_url_char s ch =
     (if ch = SP \<or> ch = CR \<or> ch = LF then s_dead
      else if ch = HT \<or> ch = FF then s_dead
      else case s of
        s_req_spaces_before_url \<Rightarrow>
          (if ch = CHR ''/'' \<or> ch = CHR ''*'' then s_req_path
           else if IS_ALPHA ch then s_req_schema else s_dead)
      | s_req_schema \<Rightarrow>
          (if IS_ALPHA ch then s
           else if ch = CHR '':'' then s_req_schema_slash else s_dead)
      | s_req_schema_slash \<Rightarrow>
          (if ch = CHR ''/'' then s_req_schema_slash_slash else s_dead)
      | s_req_schema_slash_slash \<Rightarrow>
          (if ch = CHR ''/'' then s_req_server_start else s_dead)
      | s_req_server_with_at \<Rightarrow>
          (if ch = CHR ''@'' then s_dead else parse_url_server ch)
      | s_req_server_start \<Rightarrow> parse_url_server ch
      | s_req_server \<Rightarrow> parse_url_server ch
      | s_req_path \<Rightarrow>
          (if IS_URL_CHAR ch then s
           else if ch = CHR ''?'' then s_req_query_string_start
           else if ch = CHR ''#'' then s_req_fragment_start else s_dead)
      | s_req_query_string_start \<Rightarrow> parse_url_query ch
      | s_req_query_string \<Rightarrow> parse_url_query ch
      | s_req_fragment_start \<Rightarrow>
          (if IS_URL_CHAR ch then s_req_fragment
           else if ch = CHR ''?'' then s_req_fragment
           else if ch = CHR ''#'' then s else s_dead)
      | s_req_fragment \<Rightarrow>
          (if IS_URL_CHAR ch then s
           else if ch = CHR ''?'' \<or> ch = CHR ''#'' then s else s_dead)
      | _ \<Rightarrow> s_dead)"

text \<open>The states in which a URL is being read; \<open>url_mark\<close> is set exactly there.\<close>

definition url_states :: "pstate set" where
  "url_states = {s_req_schema, s_req_schema_slash, s_req_schema_slash_slash,
     s_req_server_start, s_req_server, s_req_server_with_at, s_req_path,
     s_req_query_string_start, s_req_query_string, s_req_fragment_start, s_req_fragment}"

lemma parse_url_char_states: "parse_url_char s ch \<in> insert s_dead url_states"
  by (cases s)
    (simp_all add: parse_url_char_def parse_url_server_def parse_url_query_def url_states_def)

end
