(* ===== verification/HttpParser.thy ===== *)
theory HttpParser
  imports HttpUrl
begin

text \<open>
  \<open>http_parser_execute\<close> and the small functions around it (src/src/http-parser/http_parser.c).

  The body of the big \<open>switch\<close> becomes one definition per \<open>case\<close>, over the local variables
  of the function collected in a record. What a case does to the control flow is a value of
  \<open>outcome\<close>: \<open>break\<close>, \<open>goto reexecute_byte\<close>, \<open>return\<close>, \<open>goto error\<close>, and a failed \<open>assert\<close>.
  The callbacks of the client are parameters: functions on the parser and the client's own
  state (what \<open>parser->data\<close> points to), that return the C result and both new states.
\<close>

section \<open>Callbacks and local variables\<close>

type_synonym 's http_cb = "hparser \<Rightarrow> 's \<Rightarrow> int \<times> hparser \<times> 's"
type_synonym 's http_data_cb = "string \<Rightarrow> 's http_cb"

text \<open>\<open>struct http_parser_settings\<close>: a NULL callback is \<open>None\<close>.\<close>

record 's http_parser_settings =
  on_message_begin :: "'s http_cb option"
  on_url :: "'s http_data_cb option"
  on_header_field :: "'s http_data_cb option"
  on_header_value :: "'s http_data_cb option"
  on_headers_complete :: "'s http_cb option"
  on_body :: "'s http_data_cb option"
  on_message_complete :: "'s http_cb option"

text \<open>
  The local variables: \<open>pos\<close> is \<open>p - data\<close>, a mark is the offset of the byte it points to,
  \<open>None\<close> for a null pointer.
\<close>

record 's locals =
  psr :: hparser
  user :: 's
  pos :: nat
  header_field_mark :: "nat option"
  header_value_mark :: "nat option"
  url_mark :: "nat option"
  body_mark :: "nat option"

datatype 's outcome =
    Break "'s locals"
  | Reexecute "'s locals"
  | Return nat "'s locals"
  | GotoError "'s locals"
  | AssertFail "'s locals"

definition upd :: "(hparser \<Rightarrow> hparser) \<Rightarrow> 's locals \<Rightarrow> 's locals" where
  "upd f l = l\<lparr>psr := f (psr l)\<rparr>"

definition set_state :: "pstate \<Rightarrow> 's locals \<Rightarrow> 's locals" where
  "set_state s = upd (hp_state_update (\<lambda>_. s))"

definition SET_ERRNO :: "http_errno \<Rightarrow> 's locals \<Rightarrow> 's locals" where
  "SET_ERRNO e = upd (hp_errno_update (\<lambda>_. e))"

definition fail :: "http_errno \<Rightarrow> 's locals \<Rightarrow> 's outcome" where
  "fail e l = GotoError (SET_ERRNO e l)"

definition goto_state :: "pstate \<Rightarrow> 's locals \<Rightarrow> 's outcome" where
  "goto_state s l = Break (set_state s l)"

definition assert_then :: "bool \<Rightarrow> 's locals \<Rightarrow> 's outcome \<Rightarrow> 's outcome" where
  "assert_then b l k = (if b then k else AssertFail l)"

definition STRICT_CHECK :: "bool \<Rightarrow> 's locals \<Rightarrow> 's outcome \<Rightarrow> 's outcome" where
  "STRICT_CHECK b l k = (if b then fail HPE_STRICT l else k)"

text \<open>The macros \<open>CALLBACK_NOTIFY_\<close> and \<open>CALLBACK_DATA_\<close>; \<open>k\<close> is the code that follows.\<close>

definition callback_notify ::
  "'s http_cb option \<Rightarrow> http_errno \<Rightarrow> nat \<Rightarrow> 's locals \<Rightarrow> ('s locals \<Rightarrow> 's outcome) \<Rightarrow> 's outcome" where
  "callback_notify cb e er l k =
     (if hp_errno (psr l) \<noteq> HPE_OK then AssertFail l
      else case cb of
        None \<Rightarrow> k l
      | Some f \<Rightarrow>
          (case f (psr l) (user l) of (r, p', u') \<Rightarrow>
            let p'' = (if r \<noteq> 0 then p'\<lparr>hp_errno := e\<rparr> else p');
                l' = l\<lparr>psr := p'', user := u'\<rparr>
            in if hp_errno p'' \<noteq> HPE_OK then Return er l' else k l'))"

definition slice :: "string \<Rightarrow> nat \<Rightarrow> nat \<Rightarrow> string" where
  "slice data i n = take n (drop i data)"

definition callback_data ::
  "'s http_data_cb option \<Rightarrow> http_errno \<Rightarrow> string \<Rightarrow> nat option \<Rightarrow> ('s locals \<Rightarrow> 's locals) \<Rightarrow>
   nat \<Rightarrow> nat \<Rightarrow> 's locals \<Rightarrow> ('s locals \<Rightarrow> 's outcome) \<Rightarrow> 's outcome" where
  "callback_data cb e data mark clear stop er l k =
     (if hp_errno (psr l) \<noteq> HPE_OK then AssertFail l
      else case mark of
        None \<Rightarrow> k l
      | Some m \<Rightarrow>
          (case cb of
            None \<Rightarrow> k (clear l)
          | Some f \<Rightarrow>
              (case f (slice data m (stop - m)) (psr l) (user l) of (r, p', u') \<Rightarrow>
                let p'' = (if r \<noteq> 0 then p'\<lparr>hp_errno := e\<rparr> else p');
                    l' = l\<lparr>psr := p'', user := u'\<rparr>
                in if hp_errno p'' \<noteq> HPE_OK then Return er l' else k (clear l'))))"

definition cb_message_begin where
  "cb_message_begin st l k =
     callback_notify (on_message_begin st) HPE_CB_message_begin (pos l + 1) l k"

definition cb_message_complete where
  "cb_message_complete st l k =
     callback_notify (on_message_complete st) HPE_CB_message_complete (pos l + 1) l k"

definition cb_url where
  "cb_url st data er l k = callback_data (on_url st) HPE_CB_url data (url_mark l)
     (url_mark_update (\<lambda>_. None)) (pos l) er l k"

definition cb_header_field where
  "cb_header_field st data er l k = callback_data (on_header_field st) HPE_CB_header_field data
     (header_field_mark l) (header_field_mark_update (\<lambda>_. None)) (pos l) er l k"

definition cb_header_value where
  "cb_header_value st data er l k = callback_data (on_header_value st) HPE_CB_header_value data
     (header_value_mark l) (header_value_mark_update (\<lambda>_. None)) (pos l) er l k"

definition cb_body where
  "cb_body st data stop er l k = callback_data (on_body st) HPE_CB_body data
     (body_mark l) (body_mark_update (\<lambda>_. None)) stop er l k"

text \<open>\<open>MARK(FOR)\<close> does not move a mark that is set.\<close>

definition mark_at :: "nat \<Rightarrow> nat option \<Rightarrow> nat option" where
  "mark_at i m = (case m of None \<Rightarrow> Some i | Some j \<Rightarrow> Some j)"

section \<open>Functions on the parser\<close>

definition http_message_needs_eof :: "hparser \<Rightarrow> bool" where
  "http_message_needs_eof p =
     (if hp_type p = HTTP_REQUEST then False
      else if hp_status_code p div 100 = 1 \<or> hp_status_code p = 204 \<or> hp_status_code p = 304 \<or>
        has_flag (hp_flags p) F_SKIPBODY then False
      else if has_flag (hp_flags p) F_CHUNKED \<or> hp_content_length p \<noteq> ULLONG_MAX then False
      else True)"

definition http_should_keep_alive :: "hparser \<Rightarrow> bool" where
  "http_should_keep_alive p =
     (if hp_http_major p > 0 \<and> hp_http_minor p > 0 then
        (if has_flag (hp_flags p) F_CONNECTION_CLOSE then False
         else \<not> http_message_needs_eof p)
      else
        (if \<not> has_flag (hp_flags p) F_CONNECTION_KEEP_ALIVE then False
         else \<not> http_message_needs_eof p))"

definition start_state :: "hparser \<Rightarrow> pstate" where
  "start_state p = (if hp_type p = HTTP_REQUEST then s_start_req else s_start_res)"

definition NEW_MESSAGE :: "hparser \<Rightarrow> pstate" where
  "NEW_MESSAGE p = (if http_should_keep_alive p then start_state p else s_dead)"

text \<open>\<open>memset\<close> to zero: the method becomes number 0, \<open>HTTP_DELETE\<close>, the header state \<open>h_general\<close>.\<close>

definition http_parser_init :: "http_parser_type \<Rightarrow> hparser" where
  "http_parser_init t =
     \<lparr>hp_type = t, hp_flags = 0,
      hp_state = (if t = HTTP_REQUEST then s_start_req
                  else if t = HTTP_RESPONSE then s_start_res else s_start_req_or_res),
      hp_header_state = h_general, hp_index = 0, hp_nread = 0, hp_content_length = 0,
      hp_http_major = 0, hp_http_minor = 0, hp_status_code = 0, hp_method = HTTP_DELETE,
      hp_errno = HPE_OK, hp_upgrade = False\<rparr>"

text \<open>\<open>None\<close> is the failed assertion of a call in an error state.\<close>

definition http_parser_pause :: "hparser \<Rightarrow> bool \<Rightarrow> hparser option" where
  "http_parser_pause p paused =
     (if hp_errno p = HPE_OK \<or> hp_errno p = HPE_PAUSED
      then Some (p\<lparr>hp_errno := if paused then HPE_PAUSED else HPE_OK\<rparr>)
      else None)"

text \<open>\<open>message_done\<close>: the two lines that end a message in five places of the switch.\<close>

definition end_message where
  "end_message st l k =
     (let l1 = set_state (NEW_MESSAGE (psr l)) l in cb_message_complete st l1 k)"

section \<open>The cases of the switch: status line\<close>

definition ex_dead :: "char \<Rightarrow> 's locals \<Rightarrow> 's outcome" where
  "ex_dead ch l = (if ch = CR \<or> ch = LF then Break l else fail HPE_CLOSED_CONNECTION l)"

definition begin_message :: "hparser \<Rightarrow> hparser" where
  "begin_message p = p\<lparr>hp_flags := 0, hp_content_length := ULLONG_MAX\<rparr>"

definition ex_start_req_or_res :: "'s http_parser_settings \<Rightarrow> char \<Rightarrow> 's locals \<Rightarrow> 's outcome" where
  "ex_start_req_or_res st ch l =
     (if ch = CR \<or> ch = LF then Break l
      else let l1 = upd begin_message l in
        if ch = CHR ''H'' then cb_message_begin st (set_state s_res_or_resp_H l1) Break
        else Reexecute (upd (\<lambda>p. p\<lparr>hp_type := HTTP_REQUEST, hp_state := s_start_req\<rparr>) l1))"

definition ex_res_or_resp_H :: "char \<Rightarrow> 's locals \<Rightarrow> 's outcome" where
  "ex_res_or_resp_H ch l =
     (if ch = CHR ''T'' then
        Break (upd (\<lambda>p. p\<lparr>hp_type := HTTP_RESPONSE, hp_state := s_res_HT\<rparr>) l)
      else if ch \<noteq> CHR ''E'' then fail HPE_INVALID_CONSTANT l
      else Break (upd (\<lambda>p. p\<lparr>hp_type := HTTP_REQUEST, hp_method := HTTP_HEAD, hp_index := 2,
                             hp_state := s_req_method\<rparr>) l))"

definition ex_start_res :: "'s http_parser_settings \<Rightarrow> char \<Rightarrow> 's locals \<Rightarrow> 's outcome" where
  "ex_start_res st ch l =
     (let l1 = upd begin_message l in
      if ch = CHR ''H'' then cb_message_begin st (set_state s_res_H l1) Break
      else if ch = CR \<or> ch = LF then cb_message_begin st l1 Break
      else fail HPE_INVALID_CONSTANT l1)"

text \<open>A state that accepts one given character, under \<open>STRICT_CHECK\<close>.\<close>

definition ex_expect :: "char \<Rightarrow> pstate \<Rightarrow> char \<Rightarrow> 's locals \<Rightarrow> 's outcome" where
  "ex_expect want s ch l = STRICT_CHECK (ch \<noteq> want) l (goto_state s l)"

text \<open>The digits of a version or status number: \<open>x = x * 10 + (ch - '0')\<close> in an \<open>unsigned short\<close>.\<close>

definition push_digit :: "u16 \<Rightarrow> char \<Rightarrow> u16" where
  "push_digit x ch = x * 10 + of_int (digit_val ch)"

definition ex_res_first_http_major :: "char \<Rightarrow> 's locals \<Rightarrow> 's outcome" where
  "ex_res_first_http_major ch l =
     (if \<not> IS_NUM ch then fail HPE_INVALID_VERSION l
      else Break (upd (\<lambda>p. p\<lparr>hp_http_major := of_int (digit_val ch),
                             hp_state := s_res_http_major\<rparr>) l))"

definition ex_http_major :: "pstate \<Rightarrow> char \<Rightarrow> 's locals \<Rightarrow> 's outcome" where
  "ex_http_major dot ch l =
     (if ch = CHR ''.'' then goto_state dot l
      else if \<not> IS_NUM ch then fail HPE_INVALID_VERSION l
      else let l1 = upd (\<lambda>p. p\<lparr>hp_http_major := push_digit (hp_http_major p) ch\<rparr>) l in
        if hp_http_major (psr l1) > 999 then fail HPE_INVALID_VERSION l1 else Break l1)"

definition ex_first_http_minor :: "pstate \<Rightarrow> char \<Rightarrow> 's locals \<Rightarrow> 's outcome" where
  "ex_first_http_minor nxt ch l =
     (if \<not> IS_NUM ch then fail HPE_INVALID_VERSION l
      else Break (upd (\<lambda>p. p\<lparr>hp_http_minor := of_int (digit_val ch), hp_state := nxt\<rparr>) l))"

definition http_minor_digit :: "char \<Rightarrow> 's locals \<Rightarrow> 's outcome" where
  "http_minor_digit ch l =
     (if \<not> IS_NUM ch then fail HPE_INVALID_VERSION l
      else let l1 = upd (\<lambda>p. p\<lparr>hp_http_minor := push_digit (hp_http_minor p) ch\<rparr>) l in
        if hp_http_minor (psr l1) > 999 then fail HPE_INVALID_VERSION l1 else Break l1)"

definition ex_res_http_minor :: "char \<Rightarrow> 's locals \<Rightarrow> 's outcome" where
  "ex_res_http_minor ch l =
     (if ch = SP then goto_state s_res_first_status_code l else http_minor_digit ch l)"

definition ex_res_first_status_code :: "char \<Rightarrow> 's locals \<Rightarrow> 's outcome" where
  "ex_res_first_status_code ch l =
     (if \<not> IS_NUM ch then (if ch = SP then Break l else fail HPE_INVALID_STATUS l)
      else Break (upd (\<lambda>p. p\<lparr>hp_status_code := of_int (digit_val ch),
                             hp_state := s_res_status_code\<rparr>) l))"

definition ex_res_status_code :: "char \<Rightarrow> 's locals \<Rightarrow> 's outcome" where
  "ex_res_status_code ch l =
     (if \<not> IS_NUM ch then
        (if ch = SP then goto_state s_res_status l
         else if ch = CR then goto_state s_res_line_almost_done l
         else if ch = LF then goto_state s_header_field_start l
         else fail HPE_INVALID_STATUS l)
      else let l1 = upd (\<lambda>p. p\<lparr>hp_status_code := push_digit (hp_status_code p) ch\<rparr>) l in
        if hp_status_code (psr l1) > 999 then fail HPE_INVALID_STATUS l1 else Break l1)"

definition ex_res_status :: "char \<Rightarrow> 's locals \<Rightarrow> 's outcome" where
  "ex_res_status ch l =
     (if ch = CR then goto_state s_res_line_almost_done l
      else if ch = LF then goto_state s_header_field_start l
      else Break l)"

section \<open>The cases of the switch: request line\<close>

definition start_method :: "char \<Rightarrow> http_method option" where
  "start_method ch =
     (if ch = CHR ''C'' then Some HTTP_CONNECT
      else if ch = CHR ''D'' then Some HTTP_DELETE
      else if ch = CHR ''G'' then Some HTTP_GET
      else if ch = CHR ''H'' then Some HTTP_HEAD
      else if ch = CHR ''L'' then Some HTTP_LOCK
      else if ch = CHR ''M'' then Some HTTP_MKCOL
      else if ch = CHR ''N'' then Some HTTP_NOTIFY
      else if ch = CHR ''O'' then Some HTTP_OPTIONS
      else if ch = CHR ''P'' then Some HTTP_POST
      else if ch = CHR ''R'' then Some HTTP_REPORT
      else if ch = CHR ''S'' then Some HTTP_SUBSCRIBE
      else if ch = CHR ''T'' then Some HTTP_TRACE
      else if ch = CHR ''U'' then Some HTTP_UNLOCK
      else None)"

text \<open>The method is reset to number 0 before the switch on the first character.\<close>

definition ex_start_req :: "'s http_parser_settings \<Rightarrow> char \<Rightarrow> 's locals \<Rightarrow> 's outcome" where
  "ex_start_req st ch l =
     (if ch = CR \<or> ch = LF then Break l
      else let l1 = upd begin_message l in
        if \<not> IS_ALPHA ch then fail HPE_INVALID_METHOD l1
        else let l2 = upd (\<lambda>p. p\<lparr>hp_method := HTTP_DELETE, hp_index := 1\<rparr>) l1 in
          case start_method ch of
            None \<Rightarrow> fail HPE_INVALID_METHOD l2
          | Some m \<Rightarrow>
              cb_message_begin st
                (upd (\<lambda>p. p\<lparr>hp_method := m, hp_state := s_req_method\<rparr>) l2) Break)"

text \<open>
  Reading \<open>s[i]\<close> of a C string: the NUL at its end is readable. Offsets beyond it are
  never read by the parser (\<open>method_index_ok\<close> and the length tests of the header matchers).
\<close>

definition cstr_at :: "string \<Rightarrow> nat \<Rightarrow> char" where
  "cstr_at s i = (if i < length s then s ! i else NUL)"

text \<open>
  The chain of \<open>else if\<close> for a byte that does not continue the current method name.
  \<open>Inl None\<close> is \<open>goto error\<close> with no error number set.
\<close>

definition method_other :: "http_method \<Rightarrow> nat \<Rightarrow> char \<Rightarrow> http_errno option + http_method" where
  "method_other m i ch =
     (if m = HTTP_CONNECT then
        (if i = 1 \<and> ch = CHR ''H'' then Inr HTTP_CHECKOUT
         else if i = 2 \<and> ch = CHR ''P'' then Inr HTTP_COPY
         else Inl None)
      else if m = HTTP_MKCOL then
        (if i = 1 \<and> ch = CHR ''O'' then Inr HTTP_MOVE
         else if i = 1 \<and> ch = CHR ''E'' then Inr HTTP_MERGE
         else if i = 1 \<and> ch = CHR ''-'' then Inr HTTP_MSEARCH
         else if i = 2 \<and> ch = CHR ''A'' then Inr HTTP_MKACTIVITY
         else Inl None)
      else if m = HTTP_SUBSCRIBE then
        (if i = 1 \<and> ch = CHR ''E'' then Inr HTTP_SEARCH else Inl None)
      else if i = 1 \<and> m = HTTP_POST then
        (if ch = CHR ''R'' then Inr HTTP_PROPFIND
         else if ch = CHR ''U'' then Inr HTTP_PUT
         else if ch = CHR ''A'' then Inr HTTP_PATCH
         else Inl None)
      else if i = 2 then
        (if m = HTTP_PUT then (if ch = CHR ''R'' then Inr HTTP_PURGE else Inr m)
         else if m = HTTP_UNLOCK then (if ch = CHR ''S'' then Inr HTTP_UNSUBSCRIBE else Inr m)
         else Inr m)
      else if i = 4 \<and> m = HTTP_PROPFIND \<and> ch = CHR ''P'' then Inr HTTP_PROPPATCH
      else Inl (Some HPE_INVALID_METHOD))"

definition ex_req_method :: "char \<Rightarrow> 's locals \<Rightarrow> 's outcome" where
  "ex_req_method ch l =
     (if ch = NUL then fail HPE_INVALID_METHOD l
      else let m = hp_method (psr l); i = unat (hp_index (psr l));
               matcher = method_strings m;
               next = (\<lambda>l. Break (upd (\<lambda>p. p\<lparr>hp_index := hp_index p + 1\<rparr>) l)) in
        if ch = SP \<and> cstr_at matcher i = NUL then next (set_state s_req_spaces_before_url l)
        else if ch = cstr_at matcher i then next l
        else case method_other m i ch of
          Inl None \<Rightarrow> GotoError l
        | Inl (Some e) \<Rightarrow> fail e l
        | Inr m' \<Rightarrow> next (upd (\<lambda>p. p\<lparr>hp_method := m'\<rparr>) l))"

definition ex_url_step :: "char \<Rightarrow> 's locals \<Rightarrow> 's outcome" where
  "ex_url_step ch l =
     (let l1 = upd (\<lambda>p. p\<lparr>hp_state := parse_url_char (hp_state p) ch\<rparr>) l in
      if hp_state (psr l1) = s_dead then fail HPE_INVALID_URL l1 else Break l1)"

definition ex_req_spaces_before_url :: "char \<Rightarrow> 's locals \<Rightarrow> 's outcome" where
  "ex_req_spaces_before_url ch l =
     (if ch = SP then Break l
      else let l1 = l\<lparr>url_mark := mark_at (pos l) (url_mark l)\<rparr>;
               l2 = (if hp_method (psr l1) = HTTP_CONNECT
                     then set_state s_req_server_start l1 else l1) in
        ex_url_step ch l2)"

definition ex_req_schema :: "char \<Rightarrow> 's locals \<Rightarrow> 's outcome" where
  "ex_req_schema ch l =
     (if ch = SP \<or> ch = CR \<or> ch = LF then fail HPE_INVALID_URL l else ex_url_step ch l)"

definition ex_req_url :: "'s http_parser_settings \<Rightarrow> string \<Rightarrow> char \<Rightarrow> 's locals \<Rightarrow> 's outcome" where
  "ex_req_url st data ch l =
     (if ch = SP then
        (let l1 = set_state s_req_http_start l in cb_url st data (pos l1 + 1) l1 Break)
      else if ch = CR \<or> ch = LF then
        (let l1 = upd (\<lambda>p. p\<lparr>hp_http_major := 0, hp_http_minor := 9,
               hp_state := (if ch = CR then s_req_line_almost_done
                            else s_header_field_start)\<rparr>) l
         in cb_url st data (pos l1 + 1) l1 Break)
      else ex_url_step ch l)"

definition ex_req_http_start :: "char \<Rightarrow> 's locals \<Rightarrow> 's outcome" where
  "ex_req_http_start ch l =
     (if ch = CHR ''H'' then goto_state s_req_http_H l
      else if ch = SP then Break l
      else fail HPE_INVALID_CONSTANT l)"

definition ex_req_first_http_major :: "char \<Rightarrow> 's locals \<Rightarrow> 's outcome" where
  "ex_req_first_http_major ch l =
     (if schar ch < schar (CHR ''1'') \<or> schar ch > schar (CHR ''9'')
      then fail HPE_INVALID_VERSION l
      else Break (upd (\<lambda>p. p\<lparr>hp_http_major := of_int (digit_val ch),
                             hp_state := s_req_http_major\<rparr>) l))"

definition ex_req_http_minor :: "char \<Rightarrow> 's locals \<Rightarrow> 's outcome" where
  "ex_req_http_minor ch l =
     (if ch = CR then goto_state s_req_line_almost_done l
      else if ch = LF then goto_state s_header_field_start l
      else http_minor_digit ch l)"

definition ex_req_line_almost_done :: "char \<Rightarrow> 's locals \<Rightarrow> 's outcome" where
  "ex_req_line_almost_done ch l =
     (if ch \<noteq> LF then fail HPE_LF_EXPECTED l else goto_state s_header_field_start l)"

section \<open>The cases of the switch: headers\<close>

definition header_start_state :: "char \<Rightarrow> header_states" where
  "header_start_state c =
     (if c = CHR ''c'' then h_C
      else if c = CHR ''p'' then h_matching_proxy_connection
      else if c = CHR ''t'' then h_matching_transfer_encoding
      else if c = CHR ''u'' then h_matching_upgrade
      else h_general)"

definition ex_header_field_start :: "char \<Rightarrow> 's locals \<Rightarrow> 's outcome" where
  "ex_header_field_start ch l =
     (if ch = CR then goto_state s_headers_almost_done l
      else if ch = LF then Reexecute (set_state s_headers_almost_done l)
      else let c = tokens ch in
        if c = NUL then fail HPE_INVALID_HEADER_TOKEN l
        else Break (upd (\<lambda>p. p\<lparr>hp_index := 0, hp_state := s_header_field,
                               hp_header_state := header_start_state c\<rparr>)
               (l\<lparr>header_field_mark := mark_at (pos l) (header_field_mark l)\<rparr>)))"

text \<open>
  The five header names and three header values are matched by the same five lines:
  \<open>sizeof(LIT)-1\<close> is the length of the literal, the character at that offset is its NUL.
\<close>

definition match_literal :: "string \<Rightarrow> header_states \<Rightarrow> char \<Rightarrow> hparser \<Rightarrow> hparser" where
  "match_literal lit found c p =
     (let p1 = p\<lparr>hp_index := hp_index p + 1\<rparr>; i = unat (hp_index p1) in
      if i > length lit \<or> c \<noteq> cstr_at lit i then p1\<lparr>hp_header_state := h_general\<rparr>
      else if i = length lit - 1 then p1\<lparr>hp_header_state := found\<rparr>
      else p1)"

definition match_prefix :: "char \<Rightarrow> header_states \<Rightarrow> char \<Rightarrow> hparser \<Rightarrow> hparser" where
  "match_prefix want nxt c p =
     p\<lparr>hp_index := hp_index p + 1, hp_header_state := (if c = want then nxt else h_general)\<rparr>"

text \<open>The inner switch of \<open>s_header_field\<close>; \<open>None\<close> is the failed assertion of its default.\<close>

definition header_field_char :: "char \<Rightarrow> char \<Rightarrow> hparser \<Rightarrow> hparser option" where
  "header_field_char ch c p =
     (case hp_header_state p of
        h_general \<Rightarrow> Some p
      | h_C \<Rightarrow> Some (match_prefix (CHR ''o'') h_CO c p)
      | h_CO \<Rightarrow> Some (match_prefix (CHR ''n'') h_CON c p)
      | h_CON \<Rightarrow> Some (p\<lparr>hp_index := hp_index p + 1,
          hp_header_state := (if c = CHR ''n'' then h_matching_connection
                              else if c = CHR ''t'' then h_matching_content_length
                              else h_general)\<rparr>)
      | h_matching_connection \<Rightarrow> Some (match_literal ''connection'' h_connection c p)
      | h_matching_proxy_connection \<Rightarrow>
          Some (match_literal ''proxy-connection'' h_connection c p)
      | h_matching_content_length \<Rightarrow>
          Some (match_literal ''content-length'' h_content_length c p)
      | h_matching_transfer_encoding \<Rightarrow>
          Some (match_literal ''transfer-encoding'' h_transfer_encoding c p)
      | h_matching_upgrade \<Rightarrow> Some (match_literal ''upgrade'' h_upgrade c p)
      | h_connection \<Rightarrow> Some (if ch \<noteq> SP then p\<lparr>hp_header_state := h_general\<rparr> else p)
      | h_content_length \<Rightarrow> Some (if ch \<noteq> SP then p\<lparr>hp_header_state := h_general\<rparr> else p)
      | h_transfer_encoding \<Rightarrow> Some (if ch \<noteq> SP then p\<lparr>hp_header_state := h_general\<rparr> else p)
      | h_upgrade \<Rightarrow> Some (if ch \<noteq> SP then p\<lparr>hp_header_state := h_general\<rparr> else p)
      | _ \<Rightarrow> None)"

definition ex_header_field :: "'s http_parser_settings \<Rightarrow> string \<Rightarrow> char \<Rightarrow> 's locals \<Rightarrow> 's outcome" where
  "ex_header_field st data ch l =
     (let c = tokens ch in
      if c \<noteq> NUL then
        (case header_field_char ch c (psr l) of
           None \<Rightarrow> AssertFail l
         | Some p' \<Rightarrow> Break (l\<lparr>psr := p'\<rparr>))
      else if ch = CHR '':'' then
        (let l1 = set_state s_header_value_start l
         in cb_header_field st data (pos l1 + 1) l1 Break)
      else if ch = CR then
        (let l1 = set_state s_header_almost_done l
         in cb_header_field st data (pos l1 + 1) l1 Break)
      else if ch = LF then
        (let l1 = set_state s_header_field_start l
         in cb_header_field st data (pos l1 + 1) l1 Break)
      else fail HPE_INVALID_HEADER_TOKEN l)"

text \<open>
  The first byte of a header value. \<open>Inl\<close> is the error of a content length that does not
  start with a digit.
\<close>

definition header_value_first :: "char \<Rightarrow> hparser \<Rightarrow> http_errno + hparser" where
  "header_value_first ch p =
     (let c = LOWER ch in case hp_header_state p of
        h_upgrade \<Rightarrow> Inr (p\<lparr>hp_flags := hp_flags p OR F_UPGRADE, hp_header_state := h_general\<rparr>)
      | h_transfer_encoding \<Rightarrow>
          Inr (p\<lparr>hp_header_state := (if c = CHR ''c'' then h_matching_transfer_encoding_chunked
                                     else h_general)\<rparr>)
      | h_content_length \<Rightarrow>
          (if \<not> IS_NUM ch then Inl HPE_INVALID_CONTENT_LENGTH
           else Inr (p\<lparr>hp_content_length := of_int (digit_val ch)\<rparr>))
      | h_connection \<Rightarrow>
          Inr (p\<lparr>hp_header_state := (if c = CHR ''k'' then h_matching_connection_keep_alive
                                     else if c = CHR ''c'' then h_matching_connection_close
                                     else h_general)\<rparr>)
      | _ \<Rightarrow> Inr (p\<lparr>hp_header_state := h_general\<rparr>))"

definition ex_header_value_start ::
  "'s http_parser_settings \<Rightarrow> string \<Rightarrow> char \<Rightarrow> 's locals \<Rightarrow> 's outcome" where
  "ex_header_value_start st data ch l =
     (if ch = SP \<or> ch = HT then Break l
      else let l1 = upd (\<lambda>p. p\<lparr>hp_state := s_header_value, hp_index := 0\<rparr>)
                  (l\<lparr>header_value_mark := mark_at (pos l) (header_value_mark l)\<rparr>) in
        if ch = CR then
          (let l2 = upd (\<lambda>p. p\<lparr>hp_header_state := h_general, hp_state := s_header_almost_done\<rparr>) l1
           in cb_header_value st data (pos l2 + 1) l2 Break)
        else if ch = LF then
          (let l2 = set_state s_header_field_start l1
           in cb_header_value st data (pos l2 + 1) l2 Break)
        else case header_value_first ch (psr l1) of
          Inl e \<Rightarrow> fail e l1
        | Inr p' \<Rightarrow> Break (l1\<lparr>psr := p'\<rparr>))"

text \<open>
  A further digit of a length: \<open>t = t * base + d\<close> in 64 bits with the test for overflow the
  code makes.
\<close>

definition length_digit :: "u64 \<Rightarrow> int \<Rightarrow> u64 \<Rightarrow> u64 option" where
  "length_digit base d old =
     (let t = old * base + of_int d
      in if t < old \<or> t = ULLONG_MAX then None else Some t)"

text \<open>
  The inner switch of \<open>s_header_value\<close>: \<open>Inl None\<close> is the failed assertion,
  \<open>Inl (Some e)\<close> an error.
\<close>

definition header_value_char :: "char \<Rightarrow> hparser \<Rightarrow> http_errno option + hparser" where
  "header_value_char ch p =
     (let c = LOWER ch in case hp_header_state p of
        h_general \<Rightarrow> Inr p
      | h_connection \<Rightarrow> Inl None
      | h_transfer_encoding \<Rightarrow> Inl None
      | h_content_length \<Rightarrow>
          (if ch = SP then Inr p
           else if \<not> IS_NUM ch then Inl (Some HPE_INVALID_CONTENT_LENGTH)
           else case length_digit 10 (digit_val ch) (hp_content_length p) of
             None \<Rightarrow> Inl (Some HPE_INVALID_CONTENT_LENGTH)
           | Some t \<Rightarrow> Inr (p\<lparr>hp_content_length := t\<rparr>))
      | h_matching_transfer_encoding_chunked \<Rightarrow>
          Inr (match_literal ''chunked'' h_transfer_encoding_chunked c p)
      | h_matching_connection_keep_alive \<Rightarrow>
          Inr (match_literal ''keep-alive'' h_connection_keep_alive c p)
      | h_matching_connection_close \<Rightarrow>
          Inr (match_literal ''close'' h_connection_close c p)
      | h_transfer_encoding_chunked \<Rightarrow>
          Inr (if ch \<noteq> SP then p\<lparr>hp_header_state := h_general\<rparr> else p)
      | h_connection_keep_alive \<Rightarrow>
          Inr (if ch \<noteq> SP then p\<lparr>hp_header_state := h_general\<rparr> else p)
      | h_connection_close \<Rightarrow>
          Inr (if ch \<noteq> SP then p\<lparr>hp_header_state := h_general\<rparr> else p)
      | _ \<Rightarrow> Inr (p\<lparr>hp_state := s_header_value, hp_header_state := h_general\<rparr>))"

definition ex_header_value :: "'s http_parser_settings \<Rightarrow> string \<Rightarrow> char \<Rightarrow> 's locals \<Rightarrow> 's outcome" where
  "ex_header_value st data ch l =
     (if ch = CR then
        (let l1 = set_state s_header_almost_done l
         in cb_header_value st data (pos l1 + 1) l1 Break)
      else if ch = LF then
        (let l1 = set_state s_header_almost_done l
         in cb_header_value st data (pos l1) l1 Reexecute)
      else case header_value_char ch (psr l) of
        Inl None \<Rightarrow> AssertFail l
      | Inl (Some e) \<Rightarrow> fail e l
      | Inr p' \<Rightarrow> Break (l\<lparr>psr := p'\<rparr>))"

definition header_flag :: "hparser \<Rightarrow> hparser" where
  "header_flag p =
     (case hp_header_state p of
        h_connection_keep_alive \<Rightarrow> p\<lparr>hp_flags := hp_flags p OR F_CONNECTION_KEEP_ALIVE\<rparr>
      | h_connection_close \<Rightarrow> p\<lparr>hp_flags := hp_flags p OR F_CONNECTION_CLOSE\<rparr>
      | h_transfer_encoding_chunked \<Rightarrow> p\<lparr>hp_flags := hp_flags p OR F_CHUNKED\<rparr>
      | _ \<Rightarrow> p)"

definition ex_header_almost_done :: "char \<Rightarrow> 's locals \<Rightarrow> 's outcome" where
  "ex_header_almost_done ch l =
     STRICT_CHECK (ch \<noteq> LF) l (Break (upd header_flag (set_state s_header_value_lws l)))"

definition ex_header_value_lws :: "char \<Rightarrow> 's locals \<Rightarrow> 's outcome" where
  "ex_header_value_lws ch l =
     (if ch = SP \<or> ch = HT then goto_state s_header_value_start l
      else Reexecute (set_state s_header_field_start l))"

text \<open>
  The end of the headers. The return value of \<open>on_headers_complete\<close> is not a plain error
  flag: 1 says that no body follows.
\<close>

definition headers_complete ::
  "'s http_parser_settings \<Rightarrow> 's locals \<Rightarrow> 's outcome" where
  "headers_complete st l =
     (case on_headers_complete st of
        None \<Rightarrow> if hp_errno (psr l) \<noteq> HPE_OK then Return (pos l) l else Reexecute l
      | Some f \<Rightarrow>
          (case f (psr l) (user l) of (r, p', u') \<Rightarrow>
            if r \<noteq> 0 \<and> r \<noteq> 1
            then Return (pos l) (l\<lparr>psr := p'\<lparr>hp_errno := HPE_CB_headers_complete\<rparr>, user := u'\<rparr>)
            else let p'' = (if r = 1 then p'\<lparr>hp_flags := hp_flags p' OR F_SKIPBODY\<rparr> else p');
                     l' = l\<lparr>psr := p'', user := u'\<rparr>
              in if hp_errno p'' \<noteq> HPE_OK then Return (pos l) l' else Reexecute l'))"

definition ex_headers_almost_done :: "'s http_parser_settings \<Rightarrow> char \<Rightarrow> 's locals \<Rightarrow> 's outcome" where
  "ex_headers_almost_done st ch l =
     STRICT_CHECK (ch \<noteq> LF) l
       (if has_flag (hp_flags (psr l)) F_TRAILING then end_message st l Break
        else headers_complete st (upd (\<lambda>p. p\<lparr>hp_state := s_headers_done,
               hp_upgrade := has_flag (hp_flags p) F_UPGRADE \<or> hp_method p = HTTP_CONNECT\<rparr>) l))"

definition ex_headers_done :: "'s http_parser_settings \<Rightarrow> char \<Rightarrow> 's locals \<Rightarrow> 's outcome" where
  "ex_headers_done st ch l =
     STRICT_CHECK (ch \<noteq> LF) l
       (let l1 = upd (\<lambda>p. p\<lparr>hp_nread := 0\<rparr>) l; p = psr l1 in
        if hp_upgrade p then end_message st l1 (\<lambda>l. Return (pos l + 1) l)
        else if has_flag (hp_flags p) F_SKIPBODY then end_message st l1 Break
        else if has_flag (hp_flags p) F_CHUNKED then goto_state s_chunk_size_start l1
        else if hp_content_length p = 0 then end_message st l1 Break
        else if hp_content_length p \<noteq> ULLONG_MAX then goto_state s_body_identity l1
        else if hp_type p = HTTP_REQUEST \<or> \<not> http_message_needs_eof p
          then end_message st l1 Break
        else goto_state s_body_identity_eof l1)"

section \<open>The cases of the switch: body\<close>

text \<open>
  \<open>to_read = MIN(content_length, (data + len) - p)\<close>. Both are at most \<open>2 ^ 64 - 1\<close>, so the
  minimum is taken on natural numbers.
\<close>

definition to_read :: "string \<Rightarrow> 's locals \<Rightarrow> nat" where
  "to_read data l = min (unat (hp_content_length (psr l))) (length data - pos l)"

text \<open>\<open>MARK(body); content_length -= to_read; p += to_read - 1\<close>.\<close>

definition read_body :: "string \<Rightarrow> 's locals \<Rightarrow> 's locals" where
  "read_body data l =
     (let n = to_read data l;
          l1 = l\<lparr>body_mark := mark_at (pos l) (body_mark l)\<rparr>;
          l2 = upd (\<lambda>p. p\<lparr>hp_content_length := hp_content_length p - of_nat n\<rparr>) l1
      in l2\<lparr>pos := pos l2 + n - 1\<rparr>)"

definition length_known :: "hparser \<Rightarrow> bool" where
  "length_known p \<longleftrightarrow> hp_content_length p \<noteq> 0 \<and> hp_content_length p \<noteq> ULLONG_MAX"

definition ex_body_identity :: "'s http_parser_settings \<Rightarrow> string \<Rightarrow> 's locals \<Rightarrow> 's outcome" where
  "ex_body_identity st data l =
     assert_then (length_known (psr l)) l
       (let l1 = read_body data l in
        if hp_content_length (psr l1) = 0 then
          (let l2 = set_state s_message_done l1
           in cb_body st data (pos l2 + 1) (pos l2) l2 Reexecute)
        else Break l1)"

definition ex_body_identity_eof :: "string \<Rightarrow> 's locals \<Rightarrow> 's outcome" where
  "ex_body_identity_eof data l =
     Break (l\<lparr>body_mark := mark_at (pos l) (body_mark l), pos := length data - 1\<rparr>)"

definition ex_message_done :: "'s http_parser_settings \<Rightarrow> 's locals \<Rightarrow> 's outcome" where
  "ex_message_done st l = end_message st l Break"

definition assert_chunked :: "'s locals \<Rightarrow> 's outcome \<Rightarrow> 's outcome" where
  "assert_chunked l k = assert_then (has_flag (hp_flags (psr l)) F_CHUNKED) l k"

definition ex_chunk_size_start :: "char \<Rightarrow> 's locals \<Rightarrow> 's outcome" where
  "ex_chunk_size_start ch l =
     assert_then (hp_nread (psr l) = 1) l (assert_chunked l
       (if unhex ch = - 1 then fail HPE_INVALID_CHUNK_SIZE l
        else Break (upd (\<lambda>p. p\<lparr>hp_content_length := of_int (unhex ch),
                               hp_state := s_chunk_size\<rparr>) l)))"

definition ex_chunk_size :: "char \<Rightarrow> 's locals \<Rightarrow> 's outcome" where
  "ex_chunk_size ch l =
     assert_chunked l
       (if ch = CR then goto_state s_chunk_size_almost_done l
        else if unhex ch = - 1 then
          (if ch = CHR '';'' \<or> ch = SP then goto_state s_chunk_parameters l
           else fail HPE_INVALID_CHUNK_SIZE l)
        else case length_digit 16 (unhex ch) (hp_content_length (psr l)) of
          None \<Rightarrow> fail HPE_INVALID_CONTENT_LENGTH l
        | Some t \<Rightarrow> Break (upd (\<lambda>p. p\<lparr>hp_content_length := t\<rparr>) l))"

definition ex_chunk_parameters :: "char \<Rightarrow> 's locals \<Rightarrow> 's outcome" where
  "ex_chunk_parameters ch l =
     assert_chunked l (if ch = CR then goto_state s_chunk_size_almost_done l else Break l)"

definition ex_chunk_size_almost_done :: "char \<Rightarrow> 's locals \<Rightarrow> 's outcome" where
  "ex_chunk_size_almost_done ch l =
     assert_chunked l (STRICT_CHECK (ch \<noteq> LF) l
       (let l1 = upd (\<lambda>p. p\<lparr>hp_nread := 0\<rparr>) l in
        if hp_content_length (psr l1) = 0 then
          Break (upd (\<lambda>p. p\<lparr>hp_flags := hp_flags p OR F_TRAILING,
                            hp_state := s_header_field_start\<rparr>) l1)
        else goto_state s_chunk_data l1))"

definition ex_chunk_data :: "string \<Rightarrow> 's locals \<Rightarrow> 's outcome" where
  "ex_chunk_data data l =
     assert_chunked l (assert_then (length_known (psr l)) l
       (let l1 = read_body data l in
        if hp_content_length (psr l1) = 0 then goto_state s_chunk_data_almost_done l1
        else Break l1))"

definition ex_chunk_data_almost_done ::
  "'s http_parser_settings \<Rightarrow> string \<Rightarrow> char \<Rightarrow> 's locals \<Rightarrow> 's outcome" where
  "ex_chunk_data_almost_done st data ch l =
     assert_chunked l (assert_then (hp_content_length (psr l) = 0) l
       (STRICT_CHECK (ch \<noteq> CR) l
         (let l1 = set_state s_chunk_data_done l
          in cb_body st data (pos l1) (pos l1 + 1) l1 Break)))"

definition ex_chunk_data_done :: "char \<Rightarrow> 's locals \<Rightarrow> 's outcome" where
  "ex_chunk_data_done ch l =
     assert_chunked l (STRICT_CHECK (ch \<noteq> LF) l
       (Break (upd (\<lambda>p. p\<lparr>hp_nread := 0, hp_state := s_chunk_size_start\<rparr>) l)))"

section \<open>The switch, the loop over the bytes, and \<open>http_parser_execute\<close>\<close>

definition exec_switch :: "'s http_parser_settings \<Rightarrow> string \<Rightarrow> char \<Rightarrow> 's locals \<Rightarrow> 's outcome" where
  "exec_switch st data ch l =
     (case hp_state (psr l) of
        s_dead \<Rightarrow> ex_dead ch l
      | s_start_req_or_res \<Rightarrow> ex_start_req_or_res st ch l
      | s_res_or_resp_H \<Rightarrow> ex_res_or_resp_H ch l
      | s_start_res \<Rightarrow> ex_start_res st ch l
      | s_res_H \<Rightarrow> ex_expect (CHR ''T'') s_res_HT ch l
      | s_res_HT \<Rightarrow> ex_expect (CHR ''T'') s_res_HTT ch l
      | s_res_HTT \<Rightarrow> ex_expect (CHR ''P'') s_res_HTTP ch l
      | s_res_HTTP \<Rightarrow> ex_expect (CHR ''/'') s_res_first_http_major ch l
      | s_res_first_http_major \<Rightarrow> ex_res_first_http_major ch l
      | s_res_http_major \<Rightarrow> ex_http_major s_res_first_http_minor ch l
      | s_res_first_http_minor \<Rightarrow> ex_first_http_minor s_res_http_minor ch l
      | s_res_http_minor \<Rightarrow> ex_res_http_minor ch l
      | s_res_first_status_code \<Rightarrow> ex_res_first_status_code ch l
      | s_res_status_code \<Rightarrow> ex_res_status_code ch l
      | s_res_status \<Rightarrow> ex_res_status ch l
      | s_res_line_almost_done \<Rightarrow> ex_expect LF s_header_field_start ch l
      | s_start_req \<Rightarrow> ex_start_req st ch l
      | s_req_method \<Rightarrow> ex_req_method ch l
      | s_req_spaces_before_url \<Rightarrow> ex_req_spaces_before_url ch l
      | s_req_schema \<Rightarrow> ex_req_schema ch l
      | s_req_schema_slash \<Rightarrow> ex_req_schema ch l
      | s_req_schema_slash_slash \<Rightarrow> ex_req_schema ch l
      | s_req_server_start \<Rightarrow> ex_req_schema ch l
      | s_req_server \<Rightarrow> ex_req_url st data ch l
      | s_req_server_with_at \<Rightarrow> ex_req_url st data ch l
      | s_req_path \<Rightarrow> ex_req_url st data ch l
      | s_req_query_string_start \<Rightarrow> ex_req_url st data ch l
      | s_req_query_string \<Rightarrow> ex_req_url st data ch l
      | s_req_fragment_start \<Rightarrow> ex_req_url st data ch l
      | s_req_fragment \<Rightarrow> ex_req_url st data ch l
      | s_req_http_start \<Rightarrow> ex_req_http_start ch l
      | s_req_http_H \<Rightarrow> ex_expect (CHR ''T'') s_req_http_HT ch l
      | s_req_http_HT \<Rightarrow> ex_expect (CHR ''T'') s_req_http_HTT ch l
      | s_req_http_HTT \<Rightarrow> ex_expect (CHR ''P'') s_req_http_HTTP ch l
      | s_req_http_HTTP \<Rightarrow> ex_expect (CHR ''/'') s_req_first_http_major ch l
      | s_req_first_http_major \<Rightarrow> ex_req_first_http_major ch l
      | s_req_http_major \<Rightarrow> ex_http_major s_req_first_http_minor ch l
      | s_req_first_http_minor \<Rightarrow> ex_first_http_minor s_req_http_minor ch l
      | s_req_http_minor \<Rightarrow> ex_req_http_minor ch l
      | s_req_line_almost_done \<Rightarrow> ex_req_line_almost_done ch l
      | s_header_field_start \<Rightarrow> ex_header_field_start ch l
      | s_header_field \<Rightarrow> ex_header_field st data ch l
      | s_header_value_start \<Rightarrow> ex_header_value_start st data ch l
      | s_header_value \<Rightarrow> ex_header_value st data ch l
      | s_header_almost_done \<Rightarrow> ex_header_almost_done ch l
      | s_header_value_lws \<Rightarrow> ex_header_value_lws ch l
      | s_headers_almost_done \<Rightarrow> ex_headers_almost_done st ch l
      | s_headers_done \<Rightarrow> ex_headers_done st ch l
      | s_body_identity \<Rightarrow> ex_body_identity st data l
      | s_body_identity_eof \<Rightarrow> ex_body_identity_eof data l
      | s_message_done \<Rightarrow> ex_message_done st l
      | s_chunk_size_start \<Rightarrow> ex_chunk_size_start ch l
      | s_chunk_size \<Rightarrow> ex_chunk_size ch l
      | s_chunk_parameters \<Rightarrow> ex_chunk_parameters ch l
      | s_chunk_size_almost_done \<Rightarrow> ex_chunk_size_almost_done ch l
      | s_chunk_data \<Rightarrow> ex_chunk_data data l
      | s_chunk_data_almost_done \<Rightarrow> ex_chunk_data_almost_done st data ch l
      | s_chunk_data_done \<Rightarrow> ex_chunk_data_done ch l)"

text \<open>
  \<open>goto reexecute_byte\<close> runs the switch again on the same byte. The number of rounds is
  bounded by fuel; running out is \<open>None\<close>. Nothing a callback may do is excluded here, so a
  client that keeps moving the state back can loop for ever; \<open>reexec_fuel\<close> rounds are
  enough for every client that respects the parser's state (\<open>exec_byte_fuel\<close> in
  \<open>HttpParserInv\<close>).
\<close>

fun reexecute_byte ::
  "nat \<Rightarrow> 's http_parser_settings \<Rightarrow> string \<Rightarrow> char \<Rightarrow> 's locals \<Rightarrow> 's outcome option" where
  "reexecute_byte 0 st data ch l = None"
| "reexecute_byte (Suc n) st data ch l =
     (case exec_switch st data ch l of
        Reexecute l' \<Rightarrow> reexecute_byte n st data ch l'
      | oc \<Rightarrow> Some oc)"

definition reexec_fuel :: nat where "reexec_fuel = 5"

text \<open>The head of the loop body counts the byte while a header is parsed.\<close>

definition count_byte :: "'s locals \<Rightarrow> 's locals" where
  "count_byte l =
     (if PARSING_HEADER (hp_state (psr l)) then upd (\<lambda>p. p\<lparr>hp_nread := hp_nread p + 1\<rparr>) l else l)"

definition exec_byte :: "'s http_parser_settings \<Rightarrow> string \<Rightarrow> 's locals \<Rightarrow> 's outcome option" where
  "exec_byte st data l =
     (let ch = data ! pos l; l1 = count_byte l in
      if PARSING_HEADER (hp_state (psr l)) \<and> hp_nread (psr l1) > HTTP_MAX_HEADER_SIZE
      then Some (fail HPE_HEADER_OVERFLOW l1)
      else reexecute_byte reexec_fuel st data ch l1)"

section \<open>The position never moves back\<close>

text \<open>
  No case moves \<open>p\<close> back or past the last byte, whatever the callbacks do: the loop over the
  bytes terminates.
\<close>

fun oc_locals :: "'s outcome \<Rightarrow> 's locals" where
  "oc_locals (Break l) = l"
| "oc_locals (Reexecute l) = l"
| "oc_locals (Return n l) = l"
| "oc_locals (GotoError l) = l"
| "oc_locals (AssertFail l) = l"

lemma pos_upd [simp]: "pos (upd f l) = pos l" "pos (set_state s l) = pos l" "pos (SET_ERRNO e l) = pos l"
  by (simp_all add: upd_def set_state_def SET_ERRNO_def)

lemma oc_pos_basic [simp]:
  "pos (oc_locals (fail e l)) = pos l" "pos (oc_locals (goto_state s l)) = pos l"
  by (simp_all add: fail_def goto_state_def)

lemma oc_pos_callback_notify:
  "(\<And>l'. pos l' = pos l \<Longrightarrow> pos (oc_locals (k l')) = pos l) \<Longrightarrow>
   pos (oc_locals (callback_notify cb e er l k)) = pos l"
  by (simp add: callback_notify_def Let_def split: option.splits prod.splits)

lemma oc_pos_callback_data:
  "(\<And>l'. pos l' = pos l \<Longrightarrow> pos (oc_locals (k l')) = pos l) \<Longrightarrow>
   (\<And>l'. pos (clear l') = pos l') \<Longrightarrow>
   pos (oc_locals (callback_data cb e data m clear stop er l k)) = pos l"
  by (simp add: callback_data_def Let_def split: option.splits prod.splits)

lemmas cb_defs = cb_message_begin_def cb_message_complete_def cb_url_def cb_header_field_def
  cb_header_value_def cb_body_def end_message_def

lemma oc_pos_callbacks:
  assumes "\<And>l'. pos l' = pos l \<Longrightarrow> pos (oc_locals (k l')) = pos l"
  shows "pos (oc_locals (cb_message_begin st l k)) = pos l"
    "pos (oc_locals (cb_message_complete st l k)) = pos l"
    "pos (oc_locals (cb_url st data er l k)) = pos l"
    "pos (oc_locals (cb_header_field st data er l k)) = pos l"
    "pos (oc_locals (cb_header_value st data er l k)) = pos l"
    "pos (oc_locals (cb_body st data stop er l k)) = pos l"
    "pos (oc_locals (end_message st l k)) = pos l"
  using assms by (simp_all add: cb_defs oc_pos_callback_notify oc_pos_callback_data Let_def)

lemmas ex_status_defs = ex_dead_def ex_start_req_or_res_def ex_res_or_resp_H_def ex_start_res_def
  ex_expect_def STRICT_CHECK_def ex_res_first_http_major_def ex_http_major_def
  ex_first_http_minor_def http_minor_digit_def ex_res_http_minor_def
  ex_res_first_status_code_def ex_res_status_code_def ex_res_status_def

lemmas ex_request_defs = ex_start_req_def ex_req_method_def ex_url_step_def
  ex_req_spaces_before_url_def ex_req_schema_def ex_req_url_def ex_req_http_start_def
  ex_req_first_http_major_def ex_req_http_minor_def ex_req_line_almost_done_def

lemmas ex_header_defs = ex_header_field_start_def ex_header_field_def ex_header_value_start_def
  ex_header_value_def ex_header_almost_done_def ex_header_value_lws_def headers_complete_def
  ex_headers_almost_done_def ex_headers_done_def

lemmas ex_body_defs = ex_body_identity_def ex_body_identity_eof_def ex_message_done_def
  assert_then_def assert_chunked_def ex_chunk_size_start_def ex_chunk_size_def
  ex_chunk_parameters_def ex_chunk_size_almost_done_def ex_chunk_data_def
  ex_chunk_data_almost_done_def ex_chunk_data_done_def

lemma pos_read_body:
  assumes "length_known (psr l)" and "pos l < length data"
  shows "pos l \<le> pos (read_body data l)" and "pos (read_body data l) < length data"
proof -
  from assms(1) have "unat (hp_content_length (psr l)) \<noteq> 0"
    by (simp add: length_known_def unat_eq_zero)
  with assms(2) have "0 < to_read data l" by (simp add: to_read_def)
  moreover have "to_read data l \<le> length data - pos l" by (simp add: to_read_def)
  ultimately show "pos l \<le> pos (read_body data l)" and "pos (read_body data l) < length data"
    using assms(2) by (auto simp: read_body_def Let_def)
qed

text \<open>The states in which a case takes more than one byte at once.\<close>

definition body_states :: "pstate set" where
  "body_states = {s_body_identity, s_body_identity_eof, s_chunk_data}"

lemma exec_switch_pos_same:
  assumes "hp_state (psr l) \<notin> body_states"
  shows "pos (oc_locals (exec_switch st data ch l)) = pos l"
  using assms
  by (cases "hp_state (psr l)")
     (simp_all add: exec_switch_def ex_status_defs ex_request_defs ex_header_defs ex_body_defs
       Let_def oc_pos_callbacks body_states_def split: option.splits sum.splits prod.splits)

lemma exec_switch_pos:
  assumes "pos l < length data"
  shows "pos l \<le> pos (oc_locals (exec_switch st data ch l)) \<and>
         pos (oc_locals (exec_switch st data ch l)) < length data"
proof (cases "hp_state (psr l) \<in> body_states")
  case True
  then show ?thesis using assms
    by (auto simp: exec_switch_def ex_body_defs pos_read_body Let_def oc_pos_callbacks
        body_states_def)
next
  case False
  with assms show ?thesis by (simp add: exec_switch_pos_same)
qed

lemma reexecute_byte_pos:
  "reexecute_byte n st data ch l = Some oc \<Longrightarrow> pos l < length data \<Longrightarrow>
   pos l \<le> pos (oc_locals oc) \<and> pos (oc_locals oc) < length data"
proof (induction n st data ch l rule: reexecute_byte.induct)
  case (2 n st data ch l)
  note step = exec_switch_pos [OF "2.prems"(2), of st ch]
  show ?case
  proof (cases "exec_switch st data ch l")
    case (Reexecute l')
    with "2.prems" step have "pos l' \<le> pos (oc_locals oc) \<and> pos (oc_locals oc) < length data"
      by (intro "2.IH") simp_all
    with step Reexecute show ?thesis by simp
  qed (use "2.prems" step in auto)
qed simp

lemma exec_byte_pos:
  assumes "exec_byte st data l = Some oc" and "pos l < length data"
  shows "pos l \<le> pos (oc_locals oc) \<and> pos (oc_locals oc) < length data"
proof -
  have "pos (count_byte l) = pos l" by (simp add: count_byte_def)
  with assms show ?thesis
    using reexecute_byte_pos [of _ st data "data ! pos l" "count_byte l" oc]
    by (auto simp: exec_byte_def Let_def split: if_splits)
qed

section \<open>The loop and the function\<close>

text \<open>
  \<open>Some (Break l)\<close> is the end of the loop with all bytes consumed; any other outcome left it
  early; \<open>None\<close> is a re-execution that ran out of fuel.
\<close>

function exec_loop :: "'s http_parser_settings \<Rightarrow> string \<Rightarrow> 's locals \<Rightarrow> 's outcome option" where
  "exec_loop st data l =
     (if pos l < length data then
        (case exec_byte st data l of
           None \<Rightarrow> None
         | Some (Break l') \<Rightarrow> exec_loop st data (l'\<lparr>pos := pos l' + 1\<rparr>)
         | Some oc \<Rightarrow> Some oc)
      else Some (Break l))"
  by pat_completeness auto
termination
proof (relation "measure (\<lambda>(st, data, l). length data - pos l)")
  fix st :: "'s http_parser_settings" and data and l l' :: "'s locals" and oc
  assume "pos l < length data" "exec_byte st data l = Some oc" "oc = Break l'"
  then show "((st, data, l'\<lparr>pos := pos l' + 1\<rparr>), st, data, l)
      \<in> measure (\<lambda>(st, data, l). length data - pos l)"
    using exec_byte_pos [of st data l oc] by auto
qed simp

declare exec_loop.simps [simp del]

datatype 's exec_result =
    Executed (nparsed: nat) (parser_after: hparser) (user_after: 's)
  | AssertionFailed hparser 's
  | OutOfFuel

text \<open>The initial marks: a field that was being read goes on at the first byte.\<close>

definition initial_locals :: "hparser \<Rightarrow> 's \<Rightarrow> 's locals" where
  "initial_locals p u =
     \<lparr>psr = p, user = u, pos = 0,
      header_field_mark = (if hp_state p = s_header_field then Some 0 else None),
      header_value_mark = (if hp_state p = s_header_value then Some 0 else None),
      url_mark = (if hp_state p \<in> url_states then Some 0 else None),
      body_mark = None\<rparr>"

definition mark_count :: "'s locals \<Rightarrow> nat" where
  "mark_count l =
     (if header_field_mark l \<noteq> None then 1 else 0) + (if header_value_mark l \<noteq> None then 1 else 0) +
     (if url_mark l \<noteq> None then 1 else 0) + (if body_mark l \<noteq> None then 1 else 0)"

text \<open>After the loop: the callbacks of the marks that are left over.\<close>

definition exec_finish :: "'s http_parser_settings \<Rightarrow> string \<Rightarrow> 's locals \<Rightarrow> 's outcome" where
  "exec_finish st data l =
     assert_then (mark_count l \<le> 1) l
       (cb_header_field st data (pos l) l (\<lambda>l.
        cb_header_value st data (pos l) l (\<lambda>l.
        cb_url st data (pos l) l (\<lambda>l.
        cb_body st data (pos l) (pos l) l (\<lambda>l. Return (length data) l)))))"

text \<open>The label \<open>error\<close>: an error without a number becomes \<open>HPE_UNKNOWN\<close>.\<close>

definition exec_error :: "'s locals \<Rightarrow> 's exec_result" where
  "exec_error l =
     (let l' = (if hp_errno (psr l) = HPE_OK then SET_ERRNO HPE_UNKNOWN l else l)
      in Executed (pos l') (psr l') (user l'))"

fun exec_result_of :: "'s outcome \<Rightarrow> 's exec_result" where
  "exec_result_of (Return n l) = Executed n (psr l) (user l)"
| "exec_result_of (GotoError l) = exec_error l"
| "exec_result_of (AssertFail l) = AssertionFailed (psr l) (user l)"
| "exec_result_of (Break l) = Executed (pos l) (psr l) (user l)"
| "exec_result_of (Reexecute l) = OutOfFuel"

text \<open>A call with no bytes tells the parser that the stream has ended.\<close>

definition exec_eof :: "'s http_parser_settings \<Rightarrow> hparser \<Rightarrow> 's \<Rightarrow> 's exec_result" where
  "exec_eof st p u =
     (if hp_state p = s_body_identity_eof then
        exec_result_of (callback_notify (on_message_complete st) HPE_CB_message_complete 0
          (initial_locals p u) (Return 0))
      else if hp_state p \<in> {s_dead, s_start_req_or_res, s_start_res, s_start_req}
        then Executed 0 p u
      else Executed 1 (p\<lparr>hp_errno := HPE_INVALID_EOF_STATE\<rparr>) u)"

definition http_parser_execute ::
  "'s http_parser_settings \<Rightarrow> hparser \<Rightarrow> 's \<Rightarrow> string \<Rightarrow> 's exec_result" where
  "http_parser_execute st p u data =
     (if hp_errno p \<noteq> HPE_OK then Executed 0 p u
      else if data = [] then exec_eof st p u
      else case exec_loop st data (initial_locals p u) of
        None \<Rightarrow> OutOfFuel
      | Some (Break l) \<Rightarrow> exec_result_of (exec_finish st data l)
      | Some oc \<Rightarrow> exec_result_of oc)"

end
