(* ===== verification/HttpParserInv.thy ===== *)
theory HttpParserInv
  imports HttpParser
begin

text \<open>
  What \<open>http_parser_execute\<close> promises whoever drives it: it returns, no assertion fails,
  every number it keeps stays in range and the state it leaves is one it can go on from.
  The client is an interface: the locale \<open>http_client\<close> says what the callbacks may do to
  the parser.
\<close>

section \<open>The invariant of the parser\<close>

definition field_states :: "header_states set" where
  "field_states = {h_general, h_C, h_CO, h_CON, h_matching_connection,
     h_matching_proxy_connection, h_matching_content_length, h_matching_transfer_encoding,
     h_matching_upgrade, h_connection, h_content_length, h_transfer_encoding, h_upgrade}"

text \<open>What each state relies on; \<open>k\<close> is the value of \<open>nread\<close> where a chunk size starts.\<close>

definition state_inv :: "u32 \<Rightarrow> hparser \<Rightarrow> bool" where
  "state_inv k p =
     (case hp_state p of
        s_req_method \<Rightarrow> unat (hp_index p) \<le> length (method_strings (hp_method p))
      | s_header_field \<Rightarrow> hp_header_state p \<in> field_states
      | s_header_value \<Rightarrow> hp_header_state p \<notin> {h_connection, h_transfer_encoding}
      | s_chunk_size_start \<Rightarrow> hp_nread p = k \<and> has_flag (hp_flags p) F_CHUNKED
      | s_chunk_size \<Rightarrow> has_flag (hp_flags p) F_CHUNKED \<and> hp_content_length p \<noteq> ULLONG_MAX
      | s_chunk_parameters \<Rightarrow> has_flag (hp_flags p) F_CHUNKED \<and> hp_content_length p \<noteq> ULLONG_MAX
      | s_chunk_size_almost_done \<Rightarrow>
          has_flag (hp_flags p) F_CHUNKED \<and> hp_content_length p \<noteq> ULLONG_MAX
      | s_chunk_data \<Rightarrow> has_flag (hp_flags p) F_CHUNKED \<and> length_known p
      | s_chunk_data_almost_done \<Rightarrow> has_flag (hp_flags p) F_CHUNKED \<and> hp_content_length p = 0
      | s_chunk_data_done \<Rightarrow> has_flag (hp_flags p) F_CHUNKED
      | s_body_identity \<Rightarrow> length_known p
      | _ \<Rightarrow> True)"

definition num_inv :: "hparser \<Rightarrow> bool" where
  "num_inv p \<longleftrightarrow> hp_http_major p \<le> 999 \<and> hp_http_minor p \<le> 999 \<and> hp_status_code p \<le> 999 \<and>
     hp_nread p \<le> HTTP_MAX_HEADER_SIZE"

text \<open>After an error nothing is promised: \<open>http_parser_execute\<close> does not go on from there.\<close>

definition parser_inv :: "hparser \<Rightarrow> bool" where
  "parser_inv p \<longleftrightarrow> (hp_errno p \<in> {HPE_OK, HPE_PAUSED} \<longrightarrow> state_inv 0 p \<and> num_inv p)"

definition marks_ok :: "'s locals \<Rightarrow> bool" where
  "marks_ok l \<longleftrightarrow>
     (header_field_mark l \<noteq> None \<longrightarrow> hp_state (psr l) = s_header_field) \<and>
     (header_value_mark l \<noteq> None \<longrightarrow> hp_state (psr l) = s_header_value) \<and>
     (url_mark l \<noteq> None \<longrightarrow> hp_state (psr l) \<in> url_states) \<and>
     (body_mark l \<noteq> None \<longrightarrow> hp_state (psr l) \<in>
        {s_body_identity, s_body_identity_eof, s_chunk_data, s_chunk_data_almost_done})"

text \<open>How often the switch can be run again on one byte from a state.\<close>

definition reexec_rank :: "pstate \<Rightarrow> nat" where
  "reexec_rank s =
     (if s = s_header_value_lws then 3
      else if s = s_header_field_start then 2
      else if s \<in> {s_headers_almost_done, s_header_value, s_body_identity, s_start_req_or_res}
        then 1
      else 0)"

lemma init_inv [simp]:
  "state_inv k (http_parser_init t)" "num_inv (http_parser_init t)"
  "hp_errno (http_parser_init t) = HPE_OK" "hp_type (http_parser_init t) = t"
  by (simp_all add: state_inv_def num_inv_def http_parser_init_def)

lemma parser_inv_init: "parser_inv (http_parser_init t)"
  by (simp add: parser_inv_def)

lemma marks_ok_initial: "marks_ok (initial_locals p u)"
  by (simp add: marks_ok_def initial_locals_def)

lemma mark_count_le: "marks_ok l \<Longrightarrow> mark_count l \<le> 1"
  by (cases "hp_state (psr l)") (simp_all add: marks_ok_def mark_count_def url_states_def)

section \<open>Outcomes and what is promised of them\<close>

fun oc_post ::
  "('s locals \<Rightarrow> bool) \<Rightarrow> ('s locals \<Rightarrow> bool) \<Rightarrow> (nat \<Rightarrow> 's locals \<Rightarrow> bool) \<Rightarrow> ('s locals \<Rightarrow> bool) \<Rightarrow>
   's outcome \<Rightarrow> bool" where
  "oc_post B R T E (Break l) = B l"
| "oc_post B R T E (Reexecute l) = R l"
| "oc_post B R T E (Return n l) = T n l"
| "oc_post B R T E (GotoError l) = E l"
| "oc_post B R T E (AssertFail l) = False"

text \<open>
  What a callback may do to the parser: leave it alone or pause it. At the end of a message
  it may also start the parser afresh.
\<close>

fun cb_ok :: "('s \<Rightarrow> bool) \<Rightarrow> hparser \<Rightarrow> int \<times> hparser \<times> 's \<Rightarrow> bool" where
  "cb_ok I p (r, p', u') \<longleftrightarrow> I u' \<and> (p' = p \<or> p' = p\<lparr>hp_errno := HPE_PAUSED\<rparr>)"

fun cb_end_ok :: "('s \<Rightarrow> bool) \<Rightarrow> hparser \<Rightarrow> int \<times> hparser \<times> 's \<Rightarrow> bool" where
  "cb_end_ok I p (r, p', u') \<longleftrightarrow>
     I u' \<and> (p' = p \<or> p' = p\<lparr>hp_errno := HPE_PAUSED\<rparr> \<or> p' \<in> range http_parser_init)"

text \<open>
  The interface between the parser and its client. The client may rely on the parser being
  in no error state and on its numbers being in range.
\<close>

locale http_client =
  fixes st :: "'s http_parser_settings"
    and I :: "'s \<Rightarrow> bool"
  assumes client_message_begin: "on_message_begin st = Some f \<Longrightarrow> I u \<Longrightarrow> hp_errno p = HPE_OK \<Longrightarrow>
      num_inv p \<Longrightarrow> cb_ok I p (f p u)"
    and client_url: "on_url st = Some g \<Longrightarrow> I u \<Longrightarrow> hp_errno p = HPE_OK \<Longrightarrow>
      num_inv p \<Longrightarrow> cb_ok I p (g s p u)"
    and client_header_field: "on_header_field st = Some g \<Longrightarrow> I u \<Longrightarrow> hp_errno p = HPE_OK \<Longrightarrow>
      num_inv p \<Longrightarrow> cb_ok I p (g s p u)"
    and client_header_value: "on_header_value st = Some g \<Longrightarrow> I u \<Longrightarrow> hp_errno p = HPE_OK \<Longrightarrow>
      num_inv p \<Longrightarrow> cb_ok I p (g s p u)"
    and client_headers_complete: "on_headers_complete st = Some f \<Longrightarrow> I u \<Longrightarrow>
      hp_errno p = HPE_OK \<Longrightarrow> num_inv p \<Longrightarrow> cb_ok I p (f p u)"
    and client_body: "on_body st = Some g \<Longrightarrow> I u \<Longrightarrow> hp_errno p = HPE_OK \<Longrightarrow>
      num_inv p \<Longrightarrow> cb_ok I p (g s p u)"
    and client_message_complete: "on_message_complete st = Some f \<Longrightarrow> I u \<Longrightarrow>
      hp_errno p = HPE_OK \<Longrightarrow> num_inv p \<Longrightarrow> cb_end_ok I p (f p u)"
begin

definition linv :: "u32 \<Rightarrow> 's locals \<Rightarrow> bool" where
  "linv k l \<longleftrightarrow> hp_errno (psr l) = HPE_OK \<and> state_inv k (psr l) \<and> num_inv (psr l) \<and> I (user l)"

definition post :: "nat \<Rightarrow> string \<Rightarrow> 's outcome \<Rightarrow> bool" where
  "post r data = oc_post
     (\<lambda>l. linv 0 l \<and> marks_ok l)
     (\<lambda>l. linv 1 l \<and> marks_ok l \<and> reexec_rank (hp_state (psr l)) < r)
     (\<lambda>n l. n \<le> length data \<and> parser_inv (psr l) \<and> I (user l))
     (\<lambda>l. I (user l) \<and> hp_errno (psr l) \<noteq> HPE_PAUSED)"

lemma post_simps [simp]:
  "post r data (Break l) \<longleftrightarrow> linv 0 l \<and> marks_ok l"
  "post r data (Reexecute l) \<longleftrightarrow> linv 1 l \<and> marks_ok l \<and> reexec_rank (hp_state (psr l)) < r"
  "post r data (Return n l) \<longleftrightarrow> n \<le> length data \<and> parser_inv (psr l) \<and> I (user l)"
  "post r data (GotoError l) \<longleftrightarrow> I (user l) \<and> hp_errno (psr l) \<noteq> HPE_PAUSED"
  "post r data (AssertFail l) \<longleftrightarrow> False"
  by (simp_all add: post_def)

lemma linv_parser_inv: "linv 0 l \<Longrightarrow> parser_inv (psr l)"
  by (simp add: linv_def parser_inv_def)

lemma parser_inv_error: "e \<notin> {HPE_OK, HPE_PAUSED} \<Longrightarrow> parser_inv (p\<lparr>hp_errno := e\<rparr>)"
  by (simp add: parser_inv_def)

lemma inv_pause [simp]:
  "state_inv k (p\<lparr>hp_errno := e\<rparr>) = state_inv k p" "num_inv (p\<lparr>hp_errno := e\<rparr>) = num_inv p"
  by (simp_all add: state_inv_def num_inv_def length_known_def cong: pstate.case_cong)

lemma post_notify:
  assumes cb: "\<And>f u p. cb = Some f \<Longrightarrow> I u \<Longrightarrow> hp_errno p = HPE_OK \<Longrightarrow> num_inv p \<Longrightarrow> cb_ok I p (f p u)"
    and e: "e \<notin> {HPE_OK, HPE_PAUSED}" and l: "linv 0 l" and er: "er \<le> length data"
    and k: "\<And>u. I u \<Longrightarrow> post r data (k (l\<lparr>user := u\<rparr>))"
  shows "post r data (callback_notify cb e er l k)"
proof (cases cb)
  case None
  with l k [of "user l"] show ?thesis by (simp add: callback_notify_def linv_def)
next
  case (Some f)
  obtain q p' u' where f: "f (psr l) (user l) = (q, p', u')" by (metis prod_cases3)
  with cb [OF Some, of "user l" "psr l"] l
  have ok: "I u'" "p' = psr l \<or> p' = (psr l)\<lparr>hp_errno := HPE_PAUSED\<rparr>"
    by (auto simp: linv_def)
  then show ?thesis using Some f l er e k [OF ok(1)]
    by (auto simp: callback_notify_def linv_def Let_def parser_inv_def)
qed

lemma post_data:
  assumes cb: "\<And>g u p s. cb = Some g \<Longrightarrow> I u \<Longrightarrow> hp_errno p = HPE_OK \<Longrightarrow> num_inv p \<Longrightarrow> cb_ok I p (g s p u)"
    and e: "e \<notin> {HPE_OK, HPE_PAUSED}" and l: "linv 0 l" and er: "er \<le> length data"
    and clear: "mark = None \<Longrightarrow> clear l = l"
    and frame: "\<And>u. clear (l\<lparr>user := u\<rparr>) = (clear l)\<lparr>user := u\<rparr>"
    and k: "\<And>u. I u \<Longrightarrow> post r data (k ((clear l)\<lparr>user := u\<rparr>))"
  shows "post r data (callback_data cb e data mark clear stop er l k)"
proof (cases "\<exists>m g. mark = Some m \<and> cb = Some g")
  case False
  then have "callback_data cb e data mark clear stop er l k = k ((clear l)\<lparr>user := user l\<rparr>)"
    using l clear frame [of "user l"]
    by (cases mark; cases cb) (auto simp: callback_data_def linv_def)
  with k [of "user l"] l show ?thesis by (simp add: linv_def)
next
  case True
  then obtain m g where mg: "mark = Some m" "cb = Some g" by auto
  obtain q p' u' where g: "g (slice data m (stop - m)) (psr l) (user l) = (q, p', u')"
    by (metis prod_cases3)
  with cb [OF mg(2), of "user l" "psr l" "slice data m (stop - m)"] l
  have ok: "I u'" "p' = psr l \<or> p' = (psr l)\<lparr>hp_errno := HPE_PAUSED\<rparr>"
    by (auto simp: linv_def)
  then show ?thesis using mg g l er e k [OF ok(1)] frame [of u']
    by (auto simp: callback_data_def linv_def Let_def parser_inv_def)
qed

lemma post_end_message:
  assumes l: "linv 0 (set_state (NEW_MESSAGE (psr l)) l)" and er: "pos l < length data"
    and k: "\<And>u p. I u \<Longrightarrow> p \<in> insert ((psr l)\<lparr>hp_state := NEW_MESSAGE (psr l)\<rparr>) (range http_parser_init) \<Longrightarrow>
        post r data (k (l\<lparr>psr := p, user := u\<rparr>))"
  shows "post r data (end_message st l k)"
proof (cases "on_message_complete st")
  case None
  with l k [of "user l" "(psr l)\<lparr>hp_state := NEW_MESSAGE (psr l)\<rparr>"] show ?thesis
    by (simp add: end_message_def cb_message_complete_def callback_notify_def linv_def Let_def
        set_state_def upd_def)
next
  case (Some f)
  let ?p = "(psr l)\<lparr>hp_state := NEW_MESSAGE (psr l)\<rparr>"
  obtain q p' u' where f: "f ?p (user l) = (q, p', u')" by (metis prod_cases3)
  with client_message_complete [OF Some, of "user l" ?p] l
  have ok: "I u'" "p' = ?p \<or> p' = ?p\<lparr>hp_errno := HPE_PAUSED\<rparr> \<or> p' \<in> range http_parser_init"
    by (auto simp: linv_def set_state_def upd_def)
  show ?thesis using Some f l er k [OF ok(1)] ok
    by (auto simp: end_message_def cb_message_complete_def callback_notify_def linv_def Let_def
        parser_inv_def set_state_def upd_def parser_inv_init)
qed

end

end
