(* ===== verification/HttpParserSteps.thy ===== *)
theory HttpParserSteps
  imports HttpParserInv
begin

text \<open>
  Every case of the switch keeps what \<open>http_client\<close> promises: one lemma per handler, under
  the laws of the interface.
\<close>


lemma digit_val_range: "IS_NUM ch \<Longrightarrow> 0 \<le> digit_val ch \<and> digit_val ch \<le> 9"
  by (simp add: IS_NUM_def digit_val_def schar_def uchar_def split: if_splits)

lemma digit_val_cases: "IS_NUM ch \<Longrightarrow> digit_val ch \<in> {0, 1, 2, 3, 4, 5, 6, 7, 8, 9}"
  using digit_val_range [of ch] by simp presburger

lemma digit_word_le: "IS_NUM ch \<Longrightarrow> (of_int (digit_val ch) :: u16) \<le> 999"
  by (drule digit_val_cases) auto

lemma first_major_digit:
  "\<not> (schar ch < schar (CHR ''1'') \<or> schar (CHR ''9'') < schar ch) \<Longrightarrow> IS_NUM ch"
  by (auto simp: IS_NUM_def schar_def uchar_def)

definition unmarked :: "'s locals \<Rightarrow> bool" where
  "unmarked l \<longleftrightarrow> header_field_mark l = None \<and> header_value_mark l = None \<and>
     url_mark l = None \<and> body_mark l = None"

lemma unmarked_marks_ok: "unmarked l \<Longrightarrow> marks_ok l"
  by (simp add: unmarked_def marks_ok_def)

lemmas state_change = upd_def set_state_def SET_ERRNO_def fail_def goto_state_def

lemma num_inv_state: "num_inv (p\<lparr>hp_state := s\<rparr>) = num_inv p"
  by (simp add: num_inv_def)

lemma url_char_state_inv: "hp_state p \<in> insert s_dead url_states \<Longrightarrow> state_inv k p"
  by (auto simp: state_inv_def url_states_def)

context http_client
begin

lemma post_message_begin:
  assumes "linv 0 l" "unmarked l" "pos l < length data"
  shows "post r data (cb_message_begin st l Break)"
  unfolding cb_message_begin_def using assms
  by (intro post_notify client_message_begin) (auto simp: linv_def marks_ok_def unmarked_def)

lemma post_cb_url:
  assumes "linv 0 l" "header_field_mark l = None" "header_value_mark l = None" "body_mark l = None"
    "pos l < length data"
  shows "post r data (cb_url st data (pos l + 1) l Break)"
  unfolding cb_url_def using assms
  by (intro post_data client_url) (auto simp: linv_def marks_ok_def)

lemma post_cb_header_field:
  assumes "linv 0 l" "url_mark l = None" "header_value_mark l = None" "body_mark l = None"
    "pos l < length data"
  shows "post r data (cb_header_field st data (pos l + 1) l Break)"
  unfolding cb_header_field_def using assms
  by (intro post_data client_header_field) (auto simp: linv_def marks_ok_def)

lemma post_cb_header_value:
  assumes "linv 0 l" "url_mark l = None" "header_field_mark l = None" "body_mark l = None"
    "er \<le> length data"
    "\<And>u. I u \<Longrightarrow> post r data (k (l\<lparr>header_value_mark := None, user := u\<rparr>))"
  shows "post r data (cb_header_value st data er l k)"
  unfolding cb_header_value_def using assms
  by (intro post_data client_header_value) (auto simp: linv_def marks_ok_def)

lemma post_cb_body:
  assumes "linv 0 l" "er \<le> length data"
    "\<And>u. I u \<Longrightarrow> post r data (k (l\<lparr>body_mark := None, user := u\<rparr>))"
  shows "post r data (cb_body st data stop er l k)"
  unfolding cb_body_def using assms
  by (intro post_data client_body) (auto simp: linv_def)

lemma state_inv_NEW_MESSAGE: "state_inv k (p\<lparr>hp_state := NEW_MESSAGE q\<rparr>)"
  by (simp add: state_inv_def NEW_MESSAGE_def start_state_def)

lemma post_end_message_Break:
  assumes "linv 1 l" "unmarked l" "pos l < length data"
  shows "post r data (end_message st l Break)"
  using assms
  by (intro post_end_message)
    (auto simp: linv_def state_change state_inv_NEW_MESSAGE num_inv_state unmarked_def marks_ok_def)

lemmas post_simp = state_change linv_def state_inv_def num_inv_def marks_ok_def unmarked_def Let_def
  not_less begin_message_def

subsection \<open>Status line\<close>

lemma post_dead: "hp_state (psr l) = s_dead \<Longrightarrow> linv 1 l \<Longrightarrow> unmarked l \<Longrightarrow> post r data (ex_dead ch l)"
  by (simp add: ex_dead_def post_simp)

lemma post_expect:
  assumes "linv 1 l" "unmarked l" "\<And>p. state_inv 0 (p\<lparr>hp_state := s\<rparr>)"
  shows "post r data (ex_expect c s ch l)"
  using assms
  by (simp add: ex_expect_def STRICT_CHECK_def state_change linv_def num_inv_def marks_ok_def
      unmarked_def)

lemma post_start_req_or_res:
  assumes "linv 1 l" "unmarked l" "pos l < length data" "hp_state (psr l) = s_start_req_or_res"
  shows "post 1 data (ex_start_req_or_res st ch l)"
  using assms
  by (auto simp: ex_start_req_or_res_def post_simp reexec_rank_def intro!: post_message_begin)

lemma post_res_or_resp_H:
  assumes "linv 1 l" "unmarked l"
  shows "post r data (ex_res_or_resp_H ch l)"
  using assms by (simp add: ex_res_or_resp_H_def post_simp)

lemma post_start_res:
  assumes "linv 1 l" "unmarked l" "pos l < length data" "hp_state (psr l) = s_start_res"
  shows "post r data (ex_start_res st ch l)"
  using assms by (auto simp: ex_start_res_def post_simp intro!: post_message_begin)

lemma post_res_first_http_major:
  assumes "linv 1 l" "unmarked l"
  shows "post r data (ex_res_first_http_major ch l)"
  using assms by (simp add: ex_res_first_http_major_def post_simp digit_word_le)

lemma post_http_major:
  assumes "linv 1 l" "unmarked l" "\<And>p. state_inv 0 (p\<lparr>hp_state := s\<rparr>)"
    "hp_state (psr l) \<in> {s_res_http_major, s_req_http_major}"
  shows "post r data (ex_http_major s ch l)"
  using assms by (auto simp: ex_http_major_def post_simp)

lemma post_first_http_minor:
  assumes "linv 1 l" "unmarked l" "s \<in> {s_res_http_minor, s_req_http_minor}"
  shows "post r data (ex_first_http_minor s ch l)"
  using assms by (auto simp: ex_first_http_minor_def post_simp digit_word_le)

lemma post_http_minor_digit:
  assumes "linv 1 l" "unmarked l" "hp_state (psr l) \<in> {s_res_http_minor, s_req_http_minor}"
  shows "post r data (http_minor_digit ch l)"
  using assms by (auto simp: http_minor_digit_def post_simp)

lemma post_res_http_minor:
  assumes "linv 1 l" "unmarked l" "hp_state (psr l) = s_res_http_minor"
  shows "post r data (ex_res_http_minor ch l)"
  using assms post_http_minor_digit [of l r data ch]
  by (simp add: ex_res_http_minor_def post_simp)

lemma post_res_status_code:
  assumes "linv 1 l" "unmarked l"
  shows "hp_state (psr l) = s_res_first_status_code \<Longrightarrow> post r data (ex_res_first_status_code ch l)"
    and "hp_state (psr l) = s_res_status_code \<Longrightarrow> post r data (ex_res_status_code ch l)"
    and "hp_state (psr l) = s_res_status \<Longrightarrow> post r data (ex_res_status ch l)"
  using assms
  by (simp_all add: ex_res_first_status_code_def ex_res_status_code_def ex_res_status_def
      post_simp digit_word_le)

subsection \<open>Request line\<close>

lemma start_method_length: "start_method ch = Some m \<Longrightarrow> 1 \<le> length (method_strings m)"
  by (cases m) simp_all

lemma post_start_req:
  assumes "linv 1 l" "unmarked l" "pos l < length data" "hp_state (psr l) = s_start_req"
  shows "post r data (ex_start_req st ch l)"
  using assms start_method_length [of ch]
  by (auto simp: ex_start_req_def post_simp split: option.splits intro!: post_message_begin)

lemma cstr_at_NUL: "cstr_at s i \<noteq> NUL \<Longrightarrow> i < length s"
  by (auto simp: cstr_at_def split: if_splits)

lemma method_other_length:
  assumes "method_other m i ch = Inr m'" "i \<le> length (method_strings m)"
  shows "Suc i \<le> length (method_strings m')"
  using assms by (cases m) (auto simp: method_other_def split: if_splits)

lemma method_length_le: "length (method_strings m) \<le> 11"
  by (cases m) simp_all

lemma unat_Suc_u8: "unat (i :: u8) < 255 \<Longrightarrow> unat (i + 1) = Suc (unat i)"
  by (simp add: unat_word_ariths)

lemma post_next_method:
  assumes "linv 1 l" "unmarked l" "hp_state (psr l) = s_req_method"
    "unat (hp_index (psr l)) < length (method_strings m)"
  shows "post r data (Break (upd (\<lambda>p. p\<lparr>hp_index := hp_index p + 1\<rparr>)
      (upd (\<lambda>p. p\<lparr>hp_method := m\<rparr>) l)))"
proof -
  have "unat (hp_index (psr l)) < 255"
    using assms(4) method_length_le [of m] by simp
  with assms show ?thesis by (simp add: post_simp unat_Suc_u8 Suc_le_eq)
qed

lemma post_req_method:
  assumes "linv 1 l" "unmarked l" "hp_state (psr l) = s_req_method"
  shows "post r data (ex_req_method ch l)"
proof -
  let ?m = "hp_method (psr l)" and ?i = "unat (hp_index (psr l))"
  have i: "?i \<le> length (method_strings ?m)" using assms by (simp add: linv_def state_inv_def)
  have same: "l = upd (\<lambda>p. p\<lparr>hp_method := ?m\<rparr>) l" by (simp add: upd_def)
  consider "ch = NUL" | "ch = SP" "cstr_at (method_strings ?m) ?i = NUL"
    | "ch \<noteq> NUL" "ch = cstr_at (method_strings ?m) ?i"
    | "ch \<noteq> NUL" "\<not> (ch = SP \<and> cstr_at (method_strings ?m) ?i = NUL)"
      "ch \<noteq> cstr_at (method_strings ?m) ?i"
    by blast
  then show ?thesis
  proof cases
    case 1
    with assms show ?thesis by (simp add: ex_req_method_def post_simp)
  next
    case 2
    with assms show ?thesis by (simp add: ex_req_method_def post_simp)
  next
    case 3
    then have "?i < length (method_strings ?m)" by (intro cstr_at_NUL) auto
    from post_next_method [OF assms this] 3 show ?thesis
      by (simp add: ex_req_method_def Let_def flip: same)
  next
    case 4
    show ?thesis
    proof (cases "method_other ?m ?i ch")
      case (Inl e)
      with 4 assms show ?thesis
        by (cases e) (auto simp: ex_req_method_def post_simp method_other_def split: if_splits)
    next
      case (Inr m')
      from method_other_length [OF Inr i] have "?i < length (method_strings m')" by simp
      from post_next_method [OF assms this] Inr 4 show ?thesis
        by (auto simp: ex_req_method_def Let_def)
    qed
  qed
qed

lemma post_url_step:
  assumes "linv 1 l" "header_field_mark l = None" "header_value_mark l = None" "body_mark l = None"
    "pos l < length data"
  shows "post r data (ex_url_step ch l)"
proof -
  let ?s = "parse_url_char (hp_state (psr l)) ch"
  have s: "?s \<in> insert s_dead url_states" by (rule parse_url_char_states)
  then have "state_inv 0 ((psr l)\<lparr>hp_state := ?s\<rparr>)" by (simp add: url_char_state_inv)
  with s assms show ?thesis
    by (auto simp: ex_url_step_def state_change linv_def marks_ok_def num_inv_state Let_def)
qed

lemma post_req_spaces_before_url:
  assumes "linv 1 l" "unmarked l" "hp_state (psr l) = s_req_spaces_before_url" "pos l < length data"
  shows "post r data (ex_req_spaces_before_url ch l)"
  using assms
  by (auto simp: ex_req_spaces_before_url_def post_simp intro!: post_url_step)

lemma post_req_schema:
  assumes "linv 1 l" "marks_ok l" "hp_state (psr l) \<in> url_states" "pos l < length data"
  shows "post r data (ex_req_schema ch l)"
proof -
  have "header_field_mark l = None" "header_value_mark l = None" "body_mark l = None"
    using assms(2,3) by (auto simp: marks_ok_def url_states_def)
  with assms post_url_step [of l data r ch] show ?thesis
    by (simp add: ex_req_schema_def fail_def SET_ERRNO_def upd_def linv_def)
qed

lemma post_req_url:
  assumes "linv 1 l" "marks_ok l" "hp_state (psr l) \<in> url_states" "pos l < length data"
  shows "post r data (ex_req_url st data ch l)"
proof -
  have m: "header_field_mark l = None" "header_value_mark l = None" "body_mark l = None"
    using assms(2,3) by (auto simp: marks_ok_def url_states_def)
  have cb: "linv 0 l' \<Longrightarrow> header_field_mark l' = None \<Longrightarrow> header_value_mark l' = None \<Longrightarrow>
    body_mark l' = None \<Longrightarrow> pos l' = pos l \<Longrightarrow> post r data (cb_url st data (Suc (pos l)) l' Break)" for l'
    using post_cb_url [of l' data r] assms(4) by simp
  show ?thesis using assms m post_url_step [of l data r ch]
    by (auto simp: ex_req_url_def set_state_def upd_def linv_def state_inv_def num_inv_def Let_def
        intro!: cb)
qed

lemma post_req_http:
  assumes "linv 1 l" "unmarked l"
  shows "hp_state (psr l) = s_req_http_start \<Longrightarrow> post r data (ex_req_http_start ch l)"
    and "hp_state (psr l) = s_req_first_http_major \<Longrightarrow> post r data (ex_req_first_http_major ch l)"
    and "hp_state (psr l) = s_req_http_minor \<Longrightarrow> post r data (ex_req_http_minor ch l)"
    and "hp_state (psr l) = s_req_line_almost_done \<Longrightarrow> post r data (ex_req_line_almost_done ch l)"
proof -
  show "hp_state (psr l) = s_req_http_start \<Longrightarrow> post r data (ex_req_http_start ch l)"
    using assms by (simp add: ex_req_http_start_def post_simp)
  show "hp_state (psr l) = s_req_first_http_major \<Longrightarrow> post r data (ex_req_first_http_major ch l)"
  proof (cases "schar ch < schar (CHR ''1'') \<or> schar (CHR ''9'') < schar ch")
    case False
    then have "(of_int (digit_val ch) :: u16) \<le> 999" by (rule digit_word_le [OF first_major_digit])
    with False assms show ?thesis by (simp add: ex_req_first_http_major_def post_simp)
  qed (use assms in \<open>simp add: ex_req_first_http_major_def post_simp\<close>)
  show "hp_state (psr l) = s_req_http_minor \<Longrightarrow> post r data (ex_req_http_minor ch l)"
    using assms post_http_minor_digit [of l r data ch]
    by (simp add: ex_req_http_minor_def post_simp)
  show "hp_state (psr l) = s_req_line_almost_done \<Longrightarrow> post r data (ex_req_line_almost_done ch l)"
    using assms by (simp add: ex_req_line_almost_done_def post_simp)
qed


subsection \<open>Headers\<close>

lemma tokens_LF_CR [simp]: "tokens LF = NUL" "tokens CR = NUL" "tokens SP = NUL" "tokens (CHR '':'') = NUL"
  by (simp_all add: tokens_def tokens_tab_def uchar_def)

lemma header_start_state_field: "header_start_state c \<in> field_states"
  by (simp add: header_start_state_def field_states_def)

lemma post_header_field_start:
  assumes "linv 1 l" "unmarked l" "hp_state (psr l) = s_header_field_start"
  shows "post 2 data (ex_header_field_start ch l)"
  using assms
  by (simp add: ex_header_field_start_def post_simp reexec_rank_def header_start_state_field)

lemma header_field_char_inv:
  assumes "hp_header_state p \<in> field_states"
  obtains p' where "header_field_char ch c p = Some p'" "hp_header_state p' \<in> field_states"
    "hp_state p' = hp_state p" "hp_errno p' = hp_errno p" "num_inv p' = num_inv p"
  using assms
  by (auto simp: field_states_def header_field_char_def match_prefix_def match_literal_def
      Let_def num_inv_def)

lemma post_header_field:
  assumes "linv 1 l" "marks_ok l" "hp_state (psr l) = s_header_field" "pos l < length data"
  shows "post r data (ex_header_field st data ch l)"
proof -
  have m: "header_value_mark l = None" "url_mark l = None" "body_mark l = None"
    using assms(2,3) by (auto simp: marks_ok_def url_states_def)
  from assms obtain p' where p': "header_field_char ch (tokens ch) (psr l) = Some p'"
    "hp_header_state p' \<in> field_states" "hp_state p' = hp_state (psr l)"
    "hp_errno p' = hp_errno (psr l)" "num_inv p' = num_inv (psr l)"
    by (auto simp: linv_def state_inv_def elim: header_field_char_inv [where ch = ch and c = "tokens ch"])
  have cb: "linv 0 l' \<Longrightarrow> url_mark l' = None \<Longrightarrow> header_value_mark l' = None \<Longrightarrow> body_mark l' = None \<Longrightarrow>
      pos l' = pos l \<Longrightarrow> post r data (cb_header_field st data (Suc (pos l)) l' Break)" for l'
    using post_cb_header_field [of l' data r] assms(4) by simp
  show ?thesis
  proof (cases "tokens ch = NUL")
    case True
    with assms m show ?thesis
      by (auto simp: ex_header_field_def linv_def state_change state_inv_def num_inv_def intro!: cb)
  next
    case False
    with assms m p' show ?thesis
      by (simp add: ex_header_field_def linv_def state_inv_def marks_ok_def)
  qed
qed

lemma header_value_first_inv:
  "header_value_first ch p = Inr p' \<Longrightarrow> hp_state p' = hp_state p \<and> hp_errno p' = hp_errno p \<and>
     num_inv p' = num_inv p \<and> hp_header_state p' \<notin> {h_connection, h_transfer_encoding}"
  "header_value_first ch p = Inl e \<Longrightarrow> e = HPE_INVALID_CONTENT_LENGTH"
  by (cases "hp_header_state p"; auto simp: header_value_first_def num_inv_def Let_def split: if_splits)+

lemma post_header_value_start:
  assumes "linv 1 l" "unmarked l" "hp_state (psr l) = s_header_value_start" "pos l < length data"
  shows "post r data (ex_header_value_start st data ch l)"
proof -
  let ?l = "upd (\<lambda>p. p\<lparr>hp_state := s_header_value, hp_index := 0\<rparr>) (l\<lparr>header_value_mark := mark_at (pos l) (header_value_mark l)\<rparr>)"
  have l1: "hp_state (psr ?l) = s_header_value" "hp_errno (psr ?l) = HPE_OK" "num_inv (psr ?l)" "I (user ?l)"
    using assms(1) by (simp_all add: upd_def linv_def num_inv_def)
  have first: "\<not> (ch = SP \<or> ch = HT) \<Longrightarrow> ch \<noteq> CR \<Longrightarrow> ch \<noteq> LF \<Longrightarrow>
      post r data (case header_value_first ch (psr ?l) of Inl e \<Rightarrow> fail e ?l | Inr p' \<Rightarrow> Break (?l\<lparr>psr := p'\<rparr>))"
    using l1 assms(2) header_value_first_inv [of ch "psr ?l"]
    by (auto simp: linv_def state_inv_def fail_def SET_ERRNO_def upd_def marks_ok_def unmarked_def
        split: sum.splits)
  have cr: "post r data (cb_header_value st data (pos l + 1) (upd (\<lambda>p. p\<lparr>hp_header_state := h_general, hp_state := s_header_almost_done\<rparr>) ?l) Break)"
    using assms by (intro post_cb_header_value) (auto simp: post_simp)
  have lf: "post r data (cb_header_value st data (pos l + 1) (set_state s_header_field_start ?l) Break)"
    using assms by (intro post_cb_header_value) (auto simp: post_simp)
  have brk: "linv 0 l" "marks_ok l"
    using assms by (simp_all add: linv_def state_inv_def unmarked_marks_ok)
  show ?thesis
  proof (cases "ch = SP \<or> ch = HT")
    case True
    with brk show ?thesis by (auto simp: ex_header_value_start_def)
  next
    case False
    with first cr lf show ?thesis by (simp add: ex_header_value_start_def Let_def)
  qed
qed

lemma header_value_char_inv:
  assumes "hp_header_state p \<notin> {h_connection, h_transfer_encoding}" "hp_state p = s_header_value"
  shows "header_value_char ch p \<noteq> Inl None"
    and "header_value_char ch p = Inl (Some e) \<Longrightarrow> e = HPE_INVALID_CONTENT_LENGTH"
    and "header_value_char ch p = Inr p' \<Longrightarrow> hp_state p' = s_header_value \<and> hp_errno p' = hp_errno p \<and>
     num_inv p' = num_inv p \<and> hp_header_state p' \<notin> {h_connection, h_transfer_encoding}"
  using assms
  by (cases "hp_header_state p"; auto simp: header_value_char_def match_literal_def num_inv_def Let_def
      split: if_splits option.splits)+

lemma post_header_value:
  assumes "linv 1 l" "marks_ok l" "hp_state (psr l) = s_header_value" "pos l < length data"
  shows "post 1 data (ex_header_value st data ch l)"
proof -
  have m: "header_field_mark l = None" "url_mark l = None" "body_mark l = None"
    using assms(2,3) by (auto simp: marks_ok_def url_states_def)
  have hs: "hp_header_state (psr l) \<notin> {h_connection, h_transfer_encoding}"
    using assms by (simp add: linv_def state_inv_def)
  have cr: "post 1 data (cb_header_value st data (pos l + 1) (set_state s_header_almost_done l) Break)"
    using assms m by (intro post_cb_header_value) (auto simp: post_simp)
  have lf: "post 1 data (cb_header_value st data (pos l) (set_state s_header_almost_done l) Reexecute)"
    using assms m by (intro post_cb_header_value) (auto simp: post_simp reexec_rank_def)
  have other: "post 1 data (case header_value_char ch (psr l) of Inl None \<Rightarrow> AssertFail l
      | Inl (Some e) \<Rightarrow> fail e l | Inr p' \<Rightarrow> Break (l\<lparr>psr := p'\<rparr>))"
    using assms m header_value_char_inv [OF hs assms(3), of ch]
    by (auto simp: linv_def state_inv_def fail_def SET_ERRNO_def upd_def marks_ok_def
        split: sum.splits option.splits)
  show ?thesis using cr lf other by (simp add: ex_header_value_def Let_def)
qed

lemma post_header_almost_done:
  assumes "linv 1 l" "unmarked l" "hp_state (psr l) = s_header_almost_done"
  shows "post r data (ex_header_almost_done ch l)"
  using assms
  by (cases "hp_header_state (psr l)")
    (simp_all add: ex_header_almost_done_def STRICT_CHECK_def post_simp header_flag_def)

lemma post_header_value_lws:
  assumes "linv 1 l" "unmarked l" "hp_state (psr l) = s_header_value_lws"
  shows "post 3 data (ex_header_value_lws ch l)"
  using assms by (simp add: ex_header_value_lws_def post_simp reexec_rank_def)

lemma post_headers_complete:
  assumes "hp_errno (psr l) = HPE_OK" "num_inv (psr l)" "I (user l)" "unmarked l"
    "hp_state (psr l) = s_headers_done" "pos l < length data"
  shows "post 1 data (headers_complete st l)"
proof (cases "on_headers_complete st")
  case None
  with assms show ?thesis by (simp add: headers_complete_def post_simp reexec_rank_def)
next
  case (Some f)
  obtain q p' u' where f: "f (psr l) (user l) = (q, p', u')" by (metis prod_cases3)
  with client_headers_complete [OF Some, of "user l" "psr l"] assms
  have ok: "I u'" "p' = psr l \<or> p' = (psr l)\<lparr>hp_errno := HPE_PAUSED\<rparr>" by auto
  with Some f assms show ?thesis
    by (auto simp: headers_complete_def post_simp reexec_rank_def parser_inv_def)
qed

lemma post_headers_almost_done:
  assumes "linv 1 l" "unmarked l" "hp_state (psr l) = s_headers_almost_done" "pos l < length data"
  shows "post 1 data (ex_headers_almost_done st ch l)"
proof -
  have trailing: "post 1 data (end_message st l Break)"
    using assms by (intro post_end_message_Break)
  have complete: "post 1 data (headers_complete st (upd (\<lambda>p. p\<lparr>hp_state := s_headers_done,
               hp_upgrade := has_flag (hp_flags p) F_UPGRADE \<or> hp_method p = HTTP_CONNECT\<rparr>) l))"
    using assms by (intro post_headers_complete) (simp_all add: upd_def linv_def num_inv_def unmarked_def)
  have strict: "post 1 data (fail HPE_STRICT l)"
    using assms by (simp add: state_change linv_def)
  show ?thesis using trailing complete strict by (simp add: ex_headers_almost_done_def STRICT_CHECK_def)
qed

lemma post_headers_done:
  assumes "linv 1 l" "unmarked l" "hp_state (psr l) = s_headers_done" "pos l < length data"
  shows "post r data (ex_headers_done st ch l)"
proof -
  let ?l = "upd (\<lambda>p. p\<lparr>hp_nread := 0\<rparr>) l"
  have l: "linv 1 ?l" "unmarked ?l" "pos ?l < length data"
    using assms by (simp_all add: upd_def linv_def num_inv_def state_inv_def unmarked_def)
  have fin: "post r data (end_message st ?l Break)" using l by (rule post_end_message_Break)
  have ret: "post r data (end_message st ?l (\<lambda>l. Return (pos l + 1) l))"
    using l assms by (intro post_end_message)
      (auto simp: linv_def state_change state_inv_NEW_MESSAGE num_inv_state parser_inv_def)
  have next_state: "post r data (goto_state s ?l)"
    if "s = s_chunk_size_start \<and> has_flag (hp_flags (psr l)) F_CHUNKED \<or>
        s = s_body_identity \<and> length_known (psr l) \<or> s = s_body_identity_eof" for s
    using that l by (auto simp: state_change linv_def state_inv_def num_inv_def marks_ok_def
        unmarked_def length_known_def)
  have strict: "post r data (fail HPE_STRICT l)"
    using assms by (simp add: state_change linv_def)
  show ?thesis using fin ret strict next_state
    by (simp add: ex_headers_done_def STRICT_CHECK_def Let_def length_known_def) (simp add: upd_def)
qed

end

end
