(* ===== verification/HttpParserSafe.thy ===== *)
theory HttpParserSafe
  imports HttpParserSteps
begin

text \<open>
  The handlers that read a body, the switch, the loop over the bytes, and the promise of
  \<open>http_parser_execute\<close> to its client: \<open>execute_post\<close>.
\<close>

lemma length_left:
  assumes "c \<noteq> ULLONG_MAX" "n \<le> unat c"
  shows "c - of_nat n \<noteq> ULLONG_MAX"
proof
  assume eq: "c - of_nat n = ULLONG_MAX"
  have "unat c < 2 ^ LENGTH(64)" by (rule unsigned_less)
  with assms(2) have "n < 2 ^ 64" by simp
  then have "unat (of_nat n :: u64) = n" by (simp add: unat_of_nat take_bit_nat_eq_self)
  then have "unat (c - of_nat n) = unat c - n"
    using assms(2) by (simp add: unat_sub word_le_nat_alt)
  with eq assms(2) have "unat ULLONG_MAX \<le> unat c" by simp
  then have "ULLONG_MAX \<le> c" by (simp add: word_le_nat_alt)
  with assms(1) show False by (simp add: ULLONG_MAX_def word_order.extremum_unique)
qed

lemma read_body_inv:
  assumes "hp_content_length (psr l) \<noteq> ULLONG_MAX"
  shows "hp_content_length (psr (read_body data l)) \<noteq> ULLONG_MAX"
    "header_field_mark (read_body data l) = header_field_mark l"
    "header_value_mark (read_body data l) = header_value_mark l"
    "url_mark (read_body data l) = url_mark l"
    "user (read_body data l) = user l"
    "hp_state (psr (read_body data l)) = hp_state (psr l)"
    "hp_errno (psr (read_body data l)) = hp_errno (psr l)"
    "hp_flags (psr (read_body data l)) = hp_flags (psr l)"
    "num_inv (psr (read_body data l)) = num_inv (psr l)"
  using length_left [OF assms, of "to_read data l"]
  by (simp_all add: read_body_def Let_def upd_def num_inv_def to_read_def)

context http_client
begin

lemma post_body_identity:
  assumes "linv 1 l" "marks_ok l" "hp_state (psr l) = s_body_identity" "pos l < length data"
  shows "post 1 data (ex_body_identity st data l)"
proof -
  let ?l = "read_body data l"
  have m: "header_field_mark l = None" "header_value_mark l = None" "url_mark l = None"
    using assms(2,3) by (auto simp: marks_ok_def url_states_def)
  have known: "length_known (psr l)" using assms by (simp add: linv_def state_inv_def)
  then have known': "hp_content_length (psr l) \<noteq> ULLONG_MAX" by (simp add: length_known_def)
  note rb = read_body_inv [OF known', of data]
  have pos: "pos ?l < length data" using pos_read_body [OF known assms(4)] by simp
  have brk: "post 1 data (Break ?l)" if "hp_content_length (psr ?l) \<noteq> 0"
    using that assms rb m by (simp add: linv_def state_inv_def length_known_def marks_ok_def)
  have fin: "post 1 data (cb_body st data (pos l2 + 1) (pos l2) l2 Reexecute)"
    if "l2 = set_state s_message_done ?l" for l2
    using that assms rb m pos
    by (intro post_cb_body) (simp_all add: post_simp reexec_rank_def)
  show ?thesis using brk fin known by (simp add: ex_body_identity_def assert_then_def Let_def)
qed

lemma post_body_identity_eof:
  assumes "linv 1 l" "marks_ok l" "hp_state (psr l) = s_body_identity_eof"
  shows "post r data (ex_body_identity_eof data l)"
  using assms
  by (simp add: ex_body_identity_eof_def linv_def state_inv_def marks_ok_def url_states_def)

lemma post_message_done:
  assumes "linv 1 l" "unmarked l" "pos l < length data"
  shows "post r data (ex_message_done st l)"
  unfolding ex_message_done_def using assms by (rule post_end_message_Break)

lemma length_digit_inv: "length_digit base d old = Some t \<Longrightarrow> t \<noteq> ULLONG_MAX"
  by (auto simp: length_digit_def Let_def split: if_splits)

lemma unhex_range: "- 1 \<le> unhex c \<and> unhex c \<le> 15"
proof -
  have "\<forall>x \<in> set unhex_tab. - 1 \<le> x \<and> x \<le> 15" by (simp add: unhex_tab_def)
  moreover have "length unhex_tab = 128" by (simp add: unhex_tab_def)
  ultimately show ?thesis by (simp add: unhex_def)
qed

lemma unhex_word:
  assumes "unhex c \<noteq> - 1"
  shows "(of_int (unhex c) :: u64) \<noteq> ULLONG_MAX"
proof -
  have "0 \<le> unhex c" "unhex c \<le> 15" using unhex_range [of c] assms by simp_all
  then have "uint (of_int (unhex c) :: u64) = unhex c" by (simp add: word_of_int_inverse)
  with \<open>unhex c \<le> 15\<close> show ?thesis by (auto simp: ULLONG_MAX_def unsigned_minus_1_eq_mask mask_eq_exp_minus_1)
qed

lemma post_chunk_size:
  assumes "linv 1 l" "unmarked l"
  shows "hp_state (psr l) = s_chunk_size_start \<Longrightarrow> post r data (ex_chunk_size_start ch l)"
    and "hp_state (psr l) = s_chunk_size \<Longrightarrow> post r data (ex_chunk_size ch l)"
    and "hp_state (psr l) = s_chunk_parameters \<Longrightarrow> post r data (ex_chunk_parameters ch l)"
    and "hp_state (psr l) = s_chunk_size_almost_done \<Longrightarrow> post r data (ex_chunk_size_almost_done ch l)"
  using assms unhex_word [of ch]
  by (simp_all add: ex_chunk_size_start_def ex_chunk_size_def ex_chunk_parameters_def
      ex_chunk_size_almost_done_def assert_chunked_def assert_then_def STRICT_CHECK_def post_simp
      length_known_def length_digit_inv HTTP_MAX_HEADER_SIZE_def split: option.splits)

lemma post_chunk_data:
  assumes "linv 1 l" "marks_ok l" "hp_state (psr l) = s_chunk_data"
  shows "post r data (ex_chunk_data data l)"
proof -
  have m: "header_field_mark l = None" "header_value_mark l = None" "url_mark l = None"
    using assms(2,3) by (auto simp: marks_ok_def url_states_def)
  have known: "length_known (psr l)" "has_flag (hp_flags (psr l)) F_CHUNKED"
    using assms by (simp_all add: linv_def state_inv_def)
  then have known': "hp_content_length (psr l) \<noteq> ULLONG_MAX" by (simp add: length_known_def)
  note rb = read_body_inv [OF known', of data]
  show ?thesis using known rb assms m
    by (simp add: ex_chunk_data_def assert_chunked_def assert_then_def Let_def linv_def
        state_inv_def state_change marks_ok_def num_inv_def length_known_def)
qed

lemma post_chunk_data_almost_done:
  assumes "linv 1 l" "marks_ok l" "hp_state (psr l) = s_chunk_data_almost_done" "pos l < length data"
  shows "post r data (ex_chunk_data_almost_done st data ch l)"
proof -
  have m: "header_field_mark l = None" "header_value_mark l = None" "url_mark l = None"
    using assms(2,3) by (auto simp: marks_ok_def url_states_def)
  have fin: "post r data (cb_body st data (pos l2) (pos l2 + 1) l2 Break)"
    if "l2 = set_state s_chunk_data_done l" for l2
    using that assms m by (intro post_cb_body) (simp_all add: post_simp)
  show ?thesis using assms fin
    by (simp add: ex_chunk_data_almost_done_def assert_chunked_def assert_then_def
        STRICT_CHECK_def linv_def state_inv_def) (simp add: state_change)
qed

lemma post_chunk_data_done:
  assumes "linv 1 l" "unmarked l" "hp_state (psr l) = s_chunk_data_done"
  shows "post r data (ex_chunk_data_done ch l)"
  using assms
  by (simp add: ex_chunk_data_done_def assert_chunked_def assert_then_def STRICT_CHECK_def post_simp)

subsection \<open>The switch\<close>

lemma linv_weaken: "linv k l \<Longrightarrow> hp_state (psr l) \<noteq> s_chunk_size_start \<Longrightarrow> linv k' l"
  by (cases "hp_state (psr l)") (simp_all add: linv_def state_inv_def)

lemma post_rank_0: "post 0 data oc \<Longrightarrow> post r data oc"
  by (cases oc) simp_all

lemma marks_ok_unmarked:
  "marks_ok l \<Longrightarrow> hp_state (psr l) \<notin> {s_header_field, s_header_value, s_body_identity,
     s_body_identity_eof, s_chunk_data, s_chunk_data_almost_done} \<union> url_states \<Longrightarrow> unmarked l"
  by (auto simp: marks_ok_def unmarked_def)

lemmas post_status = post_dead post_expect post_res_or_resp_H post_start_res
  post_res_first_http_major post_http_major post_first_http_minor post_res_http_minor
  post_res_status_code

lemmas post_request = post_start_req post_req_method post_req_spaces_before_url post_req_http

lemmas post_header = post_header_field_start post_header_almost_done post_header_value_lws
  post_headers_almost_done post_headers_done post_header_value_start

lemmas post_body = post_message_done post_chunk_size post_chunk_data_done

lemma post_switch_unmarked:
  assumes "linv 1 l" "unmarked l" "pos l < length data"
    and "hp_state (psr l) \<notin> {s_header_field, s_header_value, s_body_identity,
     s_body_identity_eof, s_chunk_data, s_chunk_data_almost_done} \<union> url_states"
  shows "post (reexec_rank (hp_state (psr l))) data (exec_switch st data ch l)"
proof -
  have st: "state_inv 0 (p\<lparr>hp_state := s\<rparr>)"
    if "s \<in> {s_res_HT, s_res_HTT, s_res_HTTP, s_res_first_http_major, s_res_first_http_minor,
      s_res_first_status_code, s_header_field_start, s_req_http_HT, s_req_http_HTT, s_req_http_HTTP,
      s_req_first_http_major, s_req_first_http_minor}" for p s
    using that by (auto simp: state_inv_def)
  show ?thesis
    using assms st post_start_req_or_res [of l data ch] post_headers_almost_done [of l data ch]
    by (cases "hp_state (psr l)")
      (simp_all add: exec_switch_def post_status post_request post_header post_body url_states_def
        reexec_rank_def)
qed

lemma post_switch_marked:
  assumes "linv 1 l" "marks_ok l" "pos l < length data"
    and "hp_state (psr l) \<in> {s_header_field, s_header_value, s_body_identity,
     s_body_identity_eof, s_chunk_data, s_chunk_data_almost_done} \<union> url_states"
  shows "post (reexec_rank (hp_state (psr l))) data (exec_switch st data ch l)"
  using assms post_req_schema [OF assms(1,2)] post_req_url [OF assms(1,2)]
    post_header_value [OF assms(1,2)] post_body_identity [OF assms(1,2)]
  by (cases "hp_state (psr l)")
    (simp_all add: exec_switch_def url_states_def reexec_rank_def post_header_field
      post_body_identity_eof post_chunk_data post_chunk_data_almost_done)

lemma post_switch:
  assumes "linv 1 l" "marks_ok l" "pos l < length data"
  shows "post (reexec_rank (hp_state (psr l))) data (exec_switch st data ch l)"
  using post_switch_marked [OF assms] post_switch_unmarked [OF assms(1) _ assms(3)]
    marks_ok_unmarked [OF assms(2)]
  by blast

lemma post_reexecute_byte:
  "linv 1 l \<Longrightarrow> marks_ok l \<Longrightarrow> pos l < length data \<Longrightarrow> reexec_rank (hp_state (psr l)) < n \<Longrightarrow>
   \<exists>oc. reexecute_byte n st data ch l = Some oc \<and> post 0 data oc"
proof (induction n arbitrary: l)
  case (Suc n)
  note step = post_switch [OF Suc.prems(1-3), of ch]
  show ?case
  proof (cases "exec_switch st data ch l")
    case (Reexecute l')
    have "pos l' < length data"
      using exec_switch_pos [OF Suc.prems(3), of st ch] Reexecute by simp
    then show ?thesis using Suc step Reexecute by simp
  qed (use step in auto)
qed simp


subsection \<open>The loop and the function\<close>

lemma count_byte_inv:
  assumes "linv 0 l" "marks_ok l" "\<not> hp_nread (psr (count_byte l)) > HTTP_MAX_HEADER_SIZE"
  shows "linv 1 (count_byte l)" "marks_ok (count_byte l)"
    "hp_state (psr (count_byte l)) = hp_state (psr l)"
proof -
  have "PARSING_HEADER s_chunk_size_start" by (simp add: PARSING_HEADER_def less_eq_pstate_def)
  moreover have "state_inv 1 (p\<lparr>hp_nread := hp_nread p + 1\<rparr>)" if "state_inv 0 p" for p
    using that by (cases "hp_state p") (simp_all add: state_inv_def length_known_def)
  moreover have "hp_state (psr l) \<noteq> s_chunk_size_start \<Longrightarrow> linv 1 l"
    using assms(1) by (rule linv_weaken)
  ultimately show "linv 1 (count_byte l)"
    using assms
    by (cases "hp_state (psr l) = s_chunk_size_start")
      (auto simp: linv_def count_byte_def upd_def num_inv_def not_less split: if_splits)
  show "marks_ok (count_byte l)" "hp_state (psr (count_byte l)) = hp_state (psr l)"
    using assms by (simp_all add: count_byte_def upd_def marks_ok_def)
qed

lemma post_exec_byte:
  assumes "linv 0 l" "marks_ok l" "pos l < length data"
  shows "\<exists>oc. exec_byte st data l = Some oc \<and> post 0 data oc"
proof (cases "PARSING_HEADER (hp_state (psr l)) \<and> hp_nread (psr (count_byte l)) > HTTP_MAX_HEADER_SIZE")
  case True
  then show ?thesis using assms
    by (auto simp: exec_byte_def Let_def fail_def SET_ERRNO_def upd_def count_byte_def linv_def)
next
  case False
  then have "\<not> hp_nread (psr (count_byte l)) > HTTP_MAX_HEADER_SIZE"
    using assms(1) by (auto simp: count_byte_def linv_def num_inv_def not_less split: if_splits)
  note inv = count_byte_inv [OF assms(1,2) this]
  have "pos (count_byte l) = pos l" by (simp add: count_byte_def)
  then show ?thesis
    using False post_reexecute_byte [OF inv(1,2), of data reexec_fuel "data ! pos l"] assms(3)
    by (auto simp: exec_byte_def Let_def reexec_fuel_def reexec_rank_def)
qed

lemma post_no_reexecute: "post 0 data oc \<Longrightarrow> oc \<noteq> Reexecute l"
  by auto

lemma pos_inv [simp]:
  "linv k (l\<lparr>pos := i\<rparr>) = linv k l" "marks_ok (l\<lparr>pos := i\<rparr>) = marks_ok l"
  by (simp_all add: linv_def marks_ok_def)

lemma post_exec_loop:
  assumes "linv 0 l" "marks_ok l" "pos l \<le> length data"
  shows "\<exists>oc. exec_loop st data l = Some oc \<and> post 0 data oc \<and>
     (\<forall>l'. oc = Break l' \<longrightarrow> pos l' = length data) \<and> pos (oc_locals oc) \<le> length data"
  using assms
proof (induction "length data - pos l" arbitrary: l rule: less_induct)
  case less
  show ?case
  proof (cases "pos l < length data")
    case False
    then show ?thesis using less.prems exec_loop.simps [of st data l] by simp
  next
    case True
    obtain oc where oc: "exec_byte st data l = Some oc" "post 0 data oc"
      using post_exec_byte [OF less.prems(1,2) True] by auto
    note mv = exec_byte_pos [OF oc(1) True]
    show ?thesis
    proof (cases oc)
      case (Break l')
      have "\<exists>oc. exec_loop st data (l'\<lparr>pos := pos l' + 1\<rparr>) = Some oc \<and> post 0 data oc \<and>
         (\<forall>l'. oc = Break l' \<longrightarrow> pos l' = length data) \<and> pos (oc_locals oc) \<le> length data"
        using mv Break oc(2) True by (intro less.hyps) (simp_all, linarith)
      then show ?thesis using True oc(1) Break exec_loop.simps [of st data l] by simp
    qed (use True oc mv exec_loop.simps [of st data l] in \<open>auto simp: less_imp_le\<close>)
  qed
qed

lemma post_exec_finish:
  assumes "linv 0 l" "marks_ok l" "pos l = length data"
  shows "post 0 data (exec_finish st data l)"
proof -
  have body: "post 0 data (cb_body st data (pos l) (pos l) l (\<lambda>l. Return (length data) l))"
    if "linv 0 l" "pos l \<le> length data" for l
    using that linv_parser_inv [OF that(1)] by (intro post_cb_body) (simp_all add: linv_def)
  have url: "post 0 data (cb_url st data (pos l) l (\<lambda>l.
        cb_body st data (pos l) (pos l) l (\<lambda>l. Return (length data) l)))"
    if "linv 0 l" "pos l \<le> length data" for l
    unfolding cb_url_def using that
    by (intro post_data client_url body) (simp_all add: linv_def)
  have hv: "post 0 data (cb_header_value st data (pos l) l (\<lambda>l. cb_url st data (pos l) l (\<lambda>l.
        cb_body st data (pos l) (pos l) l (\<lambda>l. Return (length data) l))))"
    if "linv 0 l" "pos l \<le> length data" for l
    unfolding cb_header_value_def using that
    by (intro post_data client_header_value url) (simp_all add: linv_def)
  have hf: "post 0 data (cb_header_field st data (pos l) l (\<lambda>l.
      cb_header_value st data (pos l) l (\<lambda>l. cb_url st data (pos l) l (\<lambda>l.
        cb_body st data (pos l) (pos l) l (\<lambda>l. Return (length data) l)))))"
    unfolding cb_header_field_def using assms
    by (intro post_data client_header_field hv) (simp_all add: linv_def)
  show ?thesis using hf mark_count_le [OF assms(2)]
    by (simp add: exec_finish_def assert_then_def)
qed

lemma callback_data_returns:
  assumes "\<And>l. (\<exists>n l'. k l = Return n l') \<or> (\<exists>l'. k l = AssertFail l')"
  shows "(\<exists>n l'. callback_data cb e data m clear stop er l k = Return n l') \<or>
    (\<exists>l'. callback_data cb e data m clear stop er l k = AssertFail l')"
  using assms by (simp add: callback_data_def Let_def split: option.splits prod.splits)

lemma exec_finish_returns:
  "(\<exists>n l'. exec_finish st data l = Return n l') \<or> (\<exists>l'. exec_finish st data l = AssertFail l')"
  by (auto simp: exec_finish_def assert_then_def cb_defs intro!: callback_data_returns
      simp del: not_ex)

text \<open>
  The promise: \<open>http_parser_execute\<close> returns (no failed assertion, no loop of
  re-executions), reports no more bytes than it was given, and keeps the invariants of the
  parser and of the client.
\<close>

theorem execute_post:
  assumes "parser_inv p" "I u"
  shows "\<exists>n p' u'. http_parser_execute st p u data = Executed n p' u' \<and>
     n \<le> max 1 (length data) \<and> parser_inv p' \<and> I u'"
proof (cases "hp_errno p = HPE_OK \<and> data \<noteq> []")
  case False
  have eof: "\<exists>n p' u'. exec_eof st p u = Executed n p' u' \<and> n \<le> 1 \<and> parser_inv p' \<and> I u'"
    if "hp_errno p = HPE_OK"
  proof -
    have l: "linv 0 (initial_locals p u)"
      using assms that by (simp add: linv_def initial_locals_def parser_inv_def)
    show ?thesis
    proof (cases "on_message_complete st")
      case None
      then show ?thesis using assms that
        by (simp add: exec_eof_def callback_notify_def initial_locals_def parser_inv_error)
    next
      case (Some f)
      obtain q p' u' where f: "f p u = (q, p', u')" by (metis prod_cases3)
      have ni: "num_inv p" using assms that by (simp add: parser_inv_def)
      with client_message_complete [OF Some assms(2) that ni] f
      have ok: "I u'" "p' = p \<or> p' = p\<lparr>hp_errno := HPE_PAUSED\<rparr> \<or> p' \<in> range http_parser_init"
        by auto
      have pi: "parser_inv (p\<lparr>hp_errno := HPE_PAUSED\<rparr>)"
        using assms(1) that by (simp add: parser_inv_def)
      show ?thesis using Some f ok that assms pi
        by (auto simp: exec_eof_def callback_notify_def initial_locals_def parser_inv_error
            parser_inv_init Let_def)
    qed
  qed
  then show ?thesis using False assms by (cases "hp_errno p = HPE_OK") (auto simp: http_parser_execute_def)
next
  case True
  let ?l = "initial_locals p u"
  have l: "linv 0 ?l" "marks_ok ?l" "pos ?l \<le> length data"
    using assms True marks_ok_initial [of p u]
    by (simp_all add: linv_def initial_locals_def parser_inv_def)
  obtain oc where oc: "exec_loop st data ?l = Some oc" "post 0 data oc"
    "\<forall>l'. oc = Break l' \<longrightarrow> pos l' = length data" "pos (oc_locals oc) \<le> length data"
    using post_exec_loop [OF l] by auto
  have res: "\<exists>n p' u'. exec_result_of oc' = Executed n p' u' \<and>
     n \<le> max 1 (length data) \<and> parser_inv p' \<and> I u'"
    if "post 0 data oc'" "pos (oc_locals oc') \<le> length data \<or> (\<exists>n l. oc' = Return n l)"
      "\<nexists>l. oc' = Break l" for oc'
    using that
    by (cases oc') (auto simp: exec_error_def Let_def SET_ERRNO_def upd_def parser_inv_def)
  show ?thesis
  proof (cases oc)
    case (Break l')
    have fin: "post 0 data (exec_finish st data l')"
      using Break oc by (intro post_exec_finish) simp_all
    then show ?thesis using exec_finish_returns [of data l'] Break oc True
      by (auto simp: http_parser_execute_def)
  qed (use res [OF oc(2)] oc True in \<open>auto simp: http_parser_execute_def\<close>)
qed

end

end
