(* ===== verification/HttpParserFeed.thy ===== *)
theory HttpParserFeed
  imports HttpParserSafe
begin

text \<open>
  Where a buffer ends does not matter. A client whose callbacks leave the parser alone sees
  it move one byte at a time: \<open>http_parser_execute\<close> on a buffer does to the parser what
  \<open>feed\<close> does, which runs the switch on one byte after the other. So a message may be cut
  into segments anywhere, as TCP does.
\<close>

section \<open>One byte at a time\<close>

text \<open>What a round of the switch does to the parser, without the client.\<close>

datatype verdict =
    Go hparser
  | Again hparser
  | Stop nat hparser
  | Bad nat hparser
  | Abort

fun erase :: "nat \<Rightarrow> 's outcome \<Rightarrow> verdict" where
  "erase i (Break l) = Go (psr l)"
| "erase i (Reexecute l) = Again (psr l)"
| "erase i (Return n l) = Stop (n - i) (psr l)"
| "erase i (GotoError l) = Bad (pos l - i) (if hp_errno (psr l) = HPE_OK then (psr l)\<lparr>hp_errno := HPE_UNKNOWN\<rparr> else psr l)"
| "erase i (AssertFail l) = Abort"

text \<open>No callbacks at all: every member of the settings is NULL.\<close>

definition null_settings :: "unit http_parser_settings" where
  "null_settings = \<lparr>on_message_begin = None, on_url = None, on_header_field = None,
     on_header_value = None, on_headers_complete = None, on_body = None,
     on_message_complete = None\<rparr>"

definition byte_locals :: "hparser \<Rightarrow> unit locals" where
  "byte_locals p = \<lparr>psr = p, user = (), pos = 0, header_field_mark = None,
     header_value_mark = None, url_mark = None, body_mark = None\<rparr>"

definition byte_step :: "hparser \<Rightarrow> char \<Rightarrow> verdict option" where
  "byte_step p c = map_option (erase 0) (exec_byte null_settings [c] (byte_locals p))"

text \<open>The number of bytes taken and the parser afterwards.\<close>

fun feed :: "hparser \<Rightarrow> string \<Rightarrow> (nat \<times> hparser) option" where
  "feed p [] = Some (0, p)"
| "feed p (c # cs) =
     (case byte_step p c of
        Some (Go p') \<Rightarrow> map_option (map_prod Suc id) (feed p' cs)
      | Some (Stop n p') \<Rightarrow> Some (n, p')
      | Some (Bad n p') \<Rightarrow> Some (n, p')
      | _ \<Rightarrow> None)"

section \<open>Clients that leave the parser alone\<close>

locale passive_client =
  fixes st :: "'s http_parser_settings"
  assumes passive_message_begin: "on_message_begin st = Some f \<Longrightarrow> \<exists>u'. f p u = (0, p, u')"
    and passive_url: "on_url st = Some g \<Longrightarrow> \<exists>u'. g s p u = (0, p, u')"
    and passive_header_field: "on_header_field st = Some g \<Longrightarrow> \<exists>u'. g s p u = (0, p, u')"
    and passive_header_value: "on_header_value st = Some g \<Longrightarrow> \<exists>u'. g s p u = (0, p, u')"
    and passive_headers_complete: "on_headers_complete st = Some f \<Longrightarrow> \<exists>u'. f p u = (0, p, u')"
    and passive_body: "on_body st = Some g \<Longrightarrow> \<exists>u'. g s p u = (0, p, u')"
    and passive_message_complete: "on_message_complete st = Some f \<Longrightarrow> \<exists>u'. f p u = (0, p, u')"
begin

lemma http_client: "http_client st (\<lambda>_. True)"
proof (unfold_locales, goal_cases)
  case (1 f u p) then show ?case using passive_message_begin [of f p u] by auto
next
  case (2 f u p s) then show ?case using passive_url [of f s p u] by auto
next
  case (3 f u p s) then show ?case using passive_header_field [of f s p u] by auto
next
  case (4 f u p s) then show ?case using passive_header_value [of f s p u] by auto
next
  case (5 f u p) then show ?case using passive_headers_complete [of f p u] by auto
next
  case (6 f u p s) then show ?case using passive_body [of f s p u] by auto
next
  case (7 f u p) then show ?case using passive_message_complete [of f p u] by auto
qed

end

sublocale passive_client \<subseteq> http_client st "\<lambda>_. True"
  by (rule http_client)

interpretation null: passive_client null_settings
  by unfold_locales (simp_all add: null_settings_def)

context passive_client
begin

lemma erase_notify:
  assumes "\<And>f u p. cb = Some f \<Longrightarrow> \<exists>u'. f p u = (0, p, u')"
    and "\<And>u. erase i (k (l\<lparr>user := u\<rparr>)) = v"
  shows "erase i (callback_notify cb e er l k) = (if hp_errno (psr l) = HPE_OK then v else Abort)"
proof (cases cb)
  case None
  then show ?thesis using assms(2) [of "user l"] by (simp add: callback_notify_def)
next
  case (Some f)
  then obtain u' where "f (psr l) (user l) = (0, psr l, u')" using assms(1) by blast
  then show ?thesis using Some assms(2) [of u'] by (simp add: callback_notify_def)
qed

lemma erase_data:
  assumes "\<And>g s u p. cb = Some g \<Longrightarrow> \<exists>u'. g s p u = (0, p, u')"
    and "\<And>l'. psr l' = psr l \<Longrightarrow> pos l' = pos l \<Longrightarrow> erase i (k l') = v"
    and "\<And>l'. psr (clear l') = psr l'" "\<And>l'. pos (clear l') = pos l'"
  shows "erase i (callback_data cb e data m clear stop er l k) =
    (if hp_errno (psr l) = HPE_OK then v else Abort)"
proof (cases "\<exists>a g. m = Some a \<and> cb = Some g")
  case False
  then have "erase i (k l) = v" "erase i (k (clear l)) = v" using assms by simp_all
  with False show ?thesis by (cases m; cases cb) (simp_all add: callback_data_def)
next
  case True
  then obtain a g where ag: "m = Some a" "cb = Some g" by auto
  then obtain u' where "g (slice data a (stop - a)) (psr l) (user l) = (0, psr l, u')"
    using assms(1) by blast
  with ag show ?thesis using assms by (simp add: callback_data_def)
qed

lemma erase_data_callbacks:
  assumes "\<And>l'. psr l' = psr l \<Longrightarrow> pos l' = pos l \<Longrightarrow> erase i (k l') = v"
  shows "erase i (cb_url st data er l k) = (if hp_errno (psr l) = HPE_OK then v else Abort)"
    "erase i (cb_header_field st data er l k) = (if hp_errno (psr l) = HPE_OK then v else Abort)"
    "erase i (cb_header_value st data er l k) = (if hp_errno (psr l) = HPE_OK then v else Abort)"
    "erase i (cb_body st data stop er l k) = (if hp_errno (psr l) = HPE_OK then v else Abort)"
  unfolding cb_url_def cb_header_field_def cb_header_value_def cb_body_def
  using assms
  by (intro erase_data passive_url passive_header_field passive_header_value passive_body; simp)+

lemma erase_notify_callbacks:
  assumes "\<And>u. erase i (k (l\<lparr>user := u\<rparr>)) = v"
  shows "erase i (cb_message_begin st l k) = (if hp_errno (psr l) = HPE_OK then v else Abort)"
    "erase i (cb_message_complete st l k) = (if hp_errno (psr l) = HPE_OK then v else Abort)"
  unfolding cb_message_begin_def cb_message_complete_def using assms
  by (intro erase_notify passive_message_begin passive_message_complete; simp)+

lemma erase_callbacks [simp]:
  "erase i (cb_message_begin st l Break) = (if hp_errno (psr l) = HPE_OK then Go (psr l) else Abort)"
  "erase i (cb_url st data er l Break) = (if hp_errno (psr l) = HPE_OK then Go (psr l) else Abort)"
  "erase i (cb_header_field st data er l Break) = (if hp_errno (psr l) = HPE_OK then Go (psr l) else Abort)"
  "erase i (cb_header_value st data er l Break) = (if hp_errno (psr l) = HPE_OK then Go (psr l) else Abort)"
  "erase i (cb_header_value st data er l Reexecute) =
     (if hp_errno (psr l) = HPE_OK then Again (psr l) else Abort)"
  "erase i (cb_body st data stop er l Break) = (if hp_errno (psr l) = HPE_OK then Go (psr l) else Abort)"
  "erase i (cb_body st data stop er l Reexecute) =
     (if hp_errno (psr l) = HPE_OK then Again (psr l) else Abort)"
  by (rule erase_notify_callbacks erase_data_callbacks; simp)+

lemma erase_end_message [simp]:
  "erase i (end_message st l Break) =
     (if hp_errno (psr l) = HPE_OK then Go ((psr l)\<lparr>hp_state := NEW_MESSAGE (psr l)\<rparr>) else Abort)"
  "erase i (end_message st l (\<lambda>l. Return (Suc (pos l)) l)) =
     (if hp_errno (psr l) = HPE_OK then Stop (Suc (pos l) - i) ((psr l)\<lparr>hp_state := NEW_MESSAGE (psr l)\<rparr>)
      else Abort)"
  unfolding end_message_def Let_def
  by (subst erase_notify_callbacks; simp add: set_state_def upd_def)+

lemma erase_headers_complete [simp]:
  "erase i (headers_complete st l) =
     (if hp_errno (psr l) = HPE_OK then Again (psr l) else Stop (pos l - i) (psr l))"
proof (cases "on_headers_complete st")
  case (Some f)
  then obtain u' where "f (psr l) (user l) = (0, psr l, u')" using passive_headers_complete by blast
  with Some show ?thesis by (simp add: headers_complete_def)
qed (simp add: headers_complete_def)

end

lemma erase_basic [simp]:
  "erase i (fail e l) = Bad (pos l - i) ((psr l)\<lparr>hp_errno := if e = HPE_OK then HPE_UNKNOWN else e\<rparr>)"
  "erase i (goto_state s l) = Go ((psr l)\<lparr>hp_state := s\<rparr>)"
  by (simp_all add: fail_def goto_state_def SET_ERRNO_def set_state_def upd_def)

lemma psr_upd [simp]: "psr (upd f l) = f (psr l)" "psr (set_state s l) = (psr l)\<lparr>hp_state := s\<rparr>"
  by (simp_all add: upd_def set_state_def)

lemma psr_byte_locals [simp]: "psr (byte_locals p) = p" "pos (byte_locals p) = 0"
  by (simp_all add: byte_locals_def)

context passive_client
begin

lemma erase_switch:
  assumes "hp_state (psr l) \<notin> body_states" "pos l < length data"
  shows "erase (pos l) (exec_switch st data ch l) =
    erase 0 (exec_switch null_settings [ch] ch (byte_locals (psr l)))"
  using assms
  by (cases "hp_state (psr l)")
     (simp_all add: exec_switch_def ex_status_defs ex_request_defs ex_body_defs
       ex_header_field_start_def ex_header_field_def ex_header_value_start_def
       ex_header_value_def ex_header_almost_done_def ex_header_value_lws_def
       ex_headers_almost_done_def ex_headers_done_def body_states_def Let_def split: option.splits sum.splits prod.splits)

end

definition verdict_ok :: "verdict \<Rightarrow> bool" where
  "verdict_ok v =
     (case v of
        Again p \<Rightarrow> hp_state p \<notin> body_states \<and> hp_errno p = HPE_OK
      | Stop k p \<Rightarrow> k = 1 \<and> hp_upgrade p
      | Bad k p \<Rightarrow> k = 0 \<and> hp_errno p \<noteq> HPE_OK
      | _ \<Rightarrow> True)"

lemma verdict_ok_simps [simp]:
  "verdict_ok (Go p)" "verdict_ok Abort"
  "verdict_ok (Again p) \<longleftrightarrow> hp_state p \<notin> body_states \<and> hp_errno p = HPE_OK"
  "verdict_ok (Stop k p) \<longleftrightarrow> k = 1 \<and> hp_upgrade p"
  "verdict_ok (Bad k p) \<longleftrightarrow> k = 0 \<and> hp_errno p \<noteq> HPE_OK"
  by (simp_all add: verdict_ok_def)

lemma switch_verdict:
  assumes "hp_state p \<notin> body_states" "hp_errno p = HPE_OK"
  shows "verdict_ok (erase 0 (exec_switch null_settings [ch] ch (byte_locals p)))"
  using assms
  by (cases "hp_state p")
    (simp_all add: exec_switch_def ex_status_defs ex_request_defs ex_body_defs
       ex_header_field_start_def ex_header_field_def ex_header_value_start_def
       ex_header_value_def ex_header_almost_done_def ex_header_value_lws_def
       ex_headers_almost_done_def ex_headers_done_def body_states_def Let_def begin_message_def
       split: option.splits sum.splits prod.splits)

context passive_client
begin

lemma erase_Again: "erase i oc = Again p \<longleftrightarrow> (\<exists>l. oc = Reexecute l \<and> psr l = p)"
  by (cases oc) auto

lemma erase_reexecute:
  assumes "hp_state (psr l) \<notin> body_states" "hp_errno (psr l) = HPE_OK" "pos l < length data"
    "pos l0 = 0" "psr l0 = psr l"
  shows "map_option (erase (pos l)) (reexecute_byte n st data ch l) =
    map_option (erase 0) (reexecute_byte n null_settings [ch] ch l0)"
  using assms
proof (induction n arbitrary: l l0)
  case (Suc n)
  have eq: "erase (pos l) (exec_switch st data ch l) =
      erase 0 (exec_switch null_settings [ch] ch l0)"
    using erase_switch [OF Suc.prems(1,3), of ch] null.erase_switch [of l0 "[ch]" ch] Suc.prems by simp
  show ?case
  proof (cases "exec_switch st data ch l")
    case (Reexecute l')
    with eq obtain l0' where l0': "exec_switch null_settings [ch] ch l0 = Reexecute l0'" "psr l0' = psr l'"
      using erase_Again by (metis erase.simps(2))
    have pos: "pos l' = pos l" "pos l0' = pos l0"
      using exec_switch_pos_same [of l st data ch] Reexecute l0'
        exec_switch_pos_same [of l0 null_settings "[ch]" ch] Suc.prems by simp_all
    have "erase 0 (exec_switch null_settings [ch] ch (byte_locals (psr l))) = Again (psr l')"
      using erase_switch [OF Suc.prems(1,3), of ch] Reexecute by simp
    then have "hp_state (psr l') \<notin> body_states \<and> hp_errno (psr l') = HPE_OK"
      using switch_verdict [of "psr l" ch] Suc.prems by simp
    then show ?thesis
      using Suc.IH [of l' l0'] Suc.prems pos l0' Reexecute by simp
  qed (use eq in \<open>auto split: outcome.splits\<close>)
qed simp

lemma reexecute_pos_same:
  assumes "hp_state (psr l) \<notin> body_states" "hp_errno (psr l) = HPE_OK" "pos l < length data"
    and "reexecute_byte n st data ch l = Some oc"
  shows "pos (oc_locals oc) = pos l"
  using assms
proof (induction n arbitrary: l)
  case (Suc n)
  note pos = exec_switch_pos_same [OF Suc.prems(1), of st data ch]
  show ?case
  proof (cases "exec_switch st data ch l")
    case (Reexecute l')
    have "erase 0 (exec_switch null_settings [ch] ch (byte_locals (psr l))) = Again (psr l')"
      using erase_switch [OF Suc.prems(1,3), of ch] Reexecute by simp
    then show ?thesis
      using switch_verdict [of "psr l" ch] Suc.IH [of l'] Suc.prems pos Reexecute by simp
  qed (use Suc.prems pos in auto)
qed simp

lemma psr_count_byte: "psr l = psr l0 \<Longrightarrow> psr (count_byte l) = psr (count_byte l0)"
  by (simp add: count_byte_def)

lemma count_byte_frame [simp]:
  "pos (count_byte l) = pos l" "hp_state (psr (count_byte l)) = hp_state (psr l)"
  "hp_errno (psr (count_byte l)) = hp_errno (psr l)"
  by (simp_all add: count_byte_def)

lemma erase_exec_byte:
  assumes "hp_state (psr l) \<notin> body_states" "hp_errno (psr l) = HPE_OK" "pos l < length data"
  shows "map_option (erase (pos l)) (exec_byte st data l) = byte_step (psr l) (data ! pos l)"
proof -
  let ?l0 = "byte_locals (psr l)"
  have p: "psr (count_byte ?l0) = psr (count_byte l)" by (rule psr_count_byte) simp
  have "map_option (erase (pos l)) (reexecute_byte n st data ch (count_byte l)) =
      map_option (erase 0) (reexecute_byte n null_settings [ch] ch (count_byte ?l0))" for n ch
    using erase_reexecute [of "count_byte l" data "count_byte ?l0" n ch] assms p by simp
  then show ?thesis using p by (simp add: exec_byte_def byte_step_def Let_def)
qed

end

text \<open>What the body states take of a buffer, and the parser afterwards.\<close>

definition taken :: "string \<Rightarrow> 's locals \<Rightarrow> nat" where
  "taken data l =
     (if hp_state (psr l) = s_body_identity_eof then length data - pos l else to_read data l)"

definition body_after :: "hparser \<Rightarrow> nat \<Rightarrow> hparser" where
  "body_after p n =
     (let p1 = p\<lparr>hp_content_length := hp_content_length p - of_nat n\<rparr> in
      if hp_state p = s_body_identity_eof then p
      else if n < unat (hp_content_length p) then p1
      else if hp_state p = s_chunk_data then p1\<lparr>hp_state := s_chunk_data_almost_done\<rparr>
      else p1\<lparr>hp_state := NEW_MESSAGE (p1\<lparr>hp_state := s_message_done\<rparr>)\<rparr>)"

definition body_ready :: "hparser \<Rightarrow> bool" where
  "body_ready p \<longleftrightarrow> hp_errno p = HPE_OK \<and> hp_state p \<in> body_states \<and>
     (hp_state p \<noteq> s_body_identity_eof \<longrightarrow> length_known p) \<and>
     (hp_state p = s_chunk_data \<longrightarrow> has_flag (hp_flags p) F_CHUNKED)"

lemma unat_of_nat_le: "n \<le> unat (c :: u64) \<Longrightarrow> unat (of_nat n :: u64) = n"
proof -
  assume "n \<le> unat c"
  moreover have "unat c < 2 ^ LENGTH(64)" by (rule unsigned_less)
  ultimately have "n < 2 ^ 64" by simp
  then show ?thesis by (simp add: unat_of_nat take_bit_nat_eq_self)
qed

lemma unat_minus_of_nat: "n \<le> unat (c :: u64) \<Longrightarrow> unat (c - of_nat n) = unat c - n"
  using unat_of_nat_le [of n c] by (simp add: unat_sub word_le_nat_alt)

lemma sub_of_nat_eq_0: "n \<le> unat (c :: u64) \<Longrightarrow> c - of_nat n = 0 \<longleftrightarrow> n = unat c"
  using unat_minus_of_nat [of n c] by (auto simp: word_unat_eq_iff)

context passive_client
begin

lemma exec_byte_body:
  assumes "body_ready (psr l)" "pos l < length data"
  shows "\<exists>l'. exec_byte st data l = Some (Break l') \<and> psr l' = body_after (psr l) (taken data l) \<and>
     pos l' + 1 = pos l + taken data l"
proof -
  have "\<not> PARSING_HEADER (hp_state (psr l))"
    using assms(1) by (auto simp: body_ready_def body_states_def PARSING_HEADER_def less_eq_pstate_def)
  moreover obtain m where m: "reexec_fuel = Suc (Suc m)"
    using that [of 3] by (simp add: reexec_fuel_def)
  ultimately have run: "exec_byte st data l = reexecute_byte (Suc (Suc m)) st data (data ! pos l) l"
    by (simp add: exec_byte_def count_byte_def Let_def)
  let ?n = "to_read data l" and ?c = "hp_content_length (psr l)"
  let ?l = "read_body data l"
  have n: "?n \<le> unat ?c" by (simp add: to_read_def)
  have p: "psr ?l = (psr l)\<lparr>hp_content_length := ?c - of_nat ?n\<rparr>"
    "pos ?l = pos l + ?n - 1"
    by (simp_all add: read_body_def Let_def upd_def)
  have pos: "0 < ?n" if "length_known (psr l)"
  proof -
    have "unat ?c \<noteq> 0" using that by (simp add: length_known_def unat_eq_zero)
    then show ?thesis using assms(2) by (simp add: to_read_def)
  qed
  note z = sub_of_nat_eq_0 [OF n]
  consider "hp_state (psr l) = s_body_identity_eof" | "hp_state (psr l) = s_chunk_data"
    | "hp_state (psr l) = s_body_identity" "?n < unat ?c"
    | "hp_state (psr l) = s_body_identity" "?n = unat ?c"
    using assms(1) n by (fastforce simp: body_ready_def body_states_def)
  then show ?thesis
  proof cases
    case 1
    with assms(2) show ?thesis
      by (simp add: run exec_switch_def ex_body_identity_eof_def taken_def body_after_def)
  next
    case 2
    with assms p pos z n show ?thesis
      by (auto simp: run exec_switch_def ex_chunk_data_def assert_chunked_def assert_then_def
          body_ready_def taken_def body_after_def Let_def goto_state_def)
  next
    case 3
    with assms p pos z show ?thesis
      by (auto simp: run exec_switch_def ex_body_identity_def assert_then_def
          body_ready_def taken_def body_after_def Let_def)
  next
    case 4
    let ?oc = "exec_switch st data (data ! pos l) l"
    have oc: "?oc = cb_body st data (pos ?l + 1) (pos ?l) (set_state s_message_done ?l) Reexecute"
      using assms(1) 4 z p
      by (simp add: exec_switch_def ex_body_identity_def assert_then_def body_ready_def Let_def)
    have "hp_errno (psr ?l) = HPE_OK" using assms(1) p by (simp add: body_ready_def)
    then have "erase 0 ?oc = Again ((psr ?l)\<lparr>hp_state := s_message_done\<rparr>)" by (simp add: oc)
    then obtain l1 where l1: "?oc = Reexecute l1" "psr l1 = (psr ?l)\<lparr>hp_state := s_message_done\<rparr>"
      by (auto simp: erase_Again)
    have pos1: "pos l1 = pos ?l"
      using arg_cong [OF l1(1), of "\<lambda>oc. pos (oc_locals oc)"] by (simp add: oc oc_pos_callbacks)
    let ?oc1 = "exec_switch st data (data ! pos l) l1"
    have oc1: "?oc1 = end_message st l1 Break"
      using l1 by (simp add: exec_switch_def ex_message_done_def)
    have "erase 0 ?oc1 = Go ((psr l1)\<lparr>hp_state := NEW_MESSAGE (psr l1)\<rparr>)"
      using l1 \<open>hp_errno (psr ?l) = HPE_OK\<close> by (simp add: oc1)
    then obtain l2 where l2: "?oc1 = Break l2" "psr l2 = (psr l1)\<lparr>hp_state := NEW_MESSAGE (psr l1)\<rparr>"
      by (cases ?oc1) auto
    have "pos l2 = pos l1"
      using arg_cong [OF l2(1), of "\<lambda>oc. pos (oc_locals oc)"] by (simp add: oc1 oc_pos_callbacks)
    then show ?thesis
      using 4 l1 l2 p pos1 pos assms(1)
      by (simp add: run taken_def body_after_def Let_def body_ready_def)
  qed
qed

end


lemma byte_step_body:
  assumes "body_ready p"
  shows "byte_step p c = Some (Go (body_after p 1))"
proof -
  obtain l' where l': "exec_byte null_settings [c] (byte_locals p) = Some (Break l')"
    "psr l' = body_after p (taken [c] (byte_locals p))"
    using null.exec_byte_body [of "byte_locals p" "[c]"] assms by auto
  have "taken [c] (byte_locals p) = 1" if "hp_state p \<noteq> s_body_identity_eof"
  proof -
    have "unat (hp_content_length p) \<noteq> 0"
      using that assms by (simp add: body_ready_def length_known_def unat_eq_zero)
    with that show ?thesis by (simp add: taken_def to_read_def)
  qed
  with l' show ?thesis
    by (cases "hp_state p = s_body_identity_eof") (simp_all add: byte_step_def body_after_def)
qed

lemma body_after_step:
  assumes "body_ready p" "0 < n"
    and "hp_state p = s_body_identity_eof \<or> Suc n \<le> unat (hp_content_length p)"
  shows "body_ready (body_after p 1)" "body_after (body_after p 1) n = body_after p (Suc n)"
    "hp_state (body_after p 1) = s_body_identity_eof \<or> n \<le> unat (hp_content_length (body_after p 1))"
proof -
  let ?c = "hp_content_length p"
  have "body_ready (body_after p 1) \<and> body_after (body_after p 1) n = body_after p (Suc n) \<and>
    (hp_state (body_after p 1) = s_body_identity_eof \<or> n \<le> unat (hp_content_length (body_after p 1)))"
  proof (cases "hp_state p = s_body_identity_eof")
    case True
    with assms(1) show ?thesis by (simp add: body_after_def)
  next
    case False
    then have len: "Suc n \<le> unat ?c" "?c \<noteq> ULLONG_MAX"
      using assms by (simp_all add: body_ready_def length_known_def)
    have u: "unat (?c - 1) = unat ?c - 1"
      using len(1) unat_of_nat_le [of 1 ?c] by (simp add: unat_sub word_le_nat_alt)
    have "?c - 1 \<noteq> 0" using u len(1) assms(2) by (metis One_nat_def Suc_le_lessD diff_is_0_eq not_less_eq_eq unsigned_0 le_less_trans not_le)
    moreover have "?c - 1 \<noteq> ULLONG_MAX" using length_left [OF len(2), of 1] len(1) by simp
    ultimately show ?thesis using False len assms u
      by (simp add: body_after_def Let_def body_ready_def length_known_def) (auto simp: algebra_simps)
  qed
  then show "body_ready (body_after p 1)" "body_after (body_after p 1) n = body_after p (Suc n)"
    "hp_state (body_after p 1) = s_body_identity_eof \<or> n \<le> unat (hp_content_length (body_after p 1))"
    by simp_all
qed

lemma feed_body:
  assumes "body_ready p" "xs \<noteq> []"
    and "hp_state p = s_body_identity_eof \<or> length xs \<le> unat (hp_content_length p)"
  shows "feed p (xs @ ys) =
    map_option (map_prod ((+) (length xs)) id) (feed (body_after p (length xs)) ys)"
  using assms
proof (induction xs arbitrary: p)
  case (Cons x xs)
  show ?case
  proof (cases "xs = []")
    case True
    then show ?thesis using byte_step_body [OF Cons.prems(1), of x] by (simp add: id_def)
  next
    case False
    then have n: "0 < length xs" by simp
    note st = body_after_step [OF Cons.prems(1) n]
    have *: "hp_state p = s_body_identity_eof \<or> Suc (length xs) \<le> unat (hp_content_length p)"
      using Cons.prems(3) by simp
    show ?thesis
      using byte_step_body [OF Cons.prems(1), of x] Cons.IH [OF st(1) [OF *] False st(3) [OF *]] st(2) [OF *]
      by (simp add: option.map_comp map_prod_compose o_def map_prod_def split_def)
  qed
qed simp


section \<open>The loop takes one byte after the other\<close>

lemma reexecute_verdict:
  assumes "hp_state p \<notin> body_states" "hp_errno p = HPE_OK" "psr l = p" "pos l = 0"
    and "reexecute_byte n null_settings [ch] ch l = Some oc"
  shows "verdict_ok (erase 0 oc) \<and> (\<forall>l'. oc \<noteq> Reexecute l')"
  using assms
proof (induction n arbitrary: p l)
  case (Suc n)
  have eq: "erase 0 (exec_switch null_settings [ch] ch l) =
      erase 0 (exec_switch null_settings [ch] ch (byte_locals p))"
    using null.erase_switch [of l "[ch]" ch] Suc.prems by simp
  have ok: "verdict_ok (erase 0 (exec_switch null_settings [ch] ch l))"
    unfolding eq using Suc.prems(1,2) by (rule switch_verdict)
  show ?case
  proof (cases "exec_switch null_settings [ch] ch l")
    case (Reexecute l')
    then have "pos l' = 0"
      using exec_switch_pos_same [of l null_settings "[ch]" ch] Suc.prems by simp
    then show ?thesis using Suc.IH [of "psr l'" l'] Suc.prems ok Reexecute by simp
  qed (use ok Suc.prems(5) in \<open>clarsimp; simp\<close>)+
qed simp

lemma byte_step_inv:
  assumes "parser_inv p" "hp_errno p = HPE_OK"
  shows "(\<exists>p'. byte_step p c = Some (Go p') \<and> parser_inv p' \<and> hp_errno p' = HPE_OK) \<or>
    (\<exists>p'. byte_step p c = Some (Stop 1 p') \<and> hp_upgrade p') \<or>
    (\<exists>p'. byte_step p c = Some (Bad 0 p') \<and> hp_errno p' \<noteq> HPE_OK)"
proof -
  let ?l = "byte_locals p"
  have l: "null.linv 0 ?l" "marks_ok ?l" "pos ?l < length [c]"
    using assms by (simp_all add: null.linv_def parser_inv_def marks_ok_def byte_locals_def)
  obtain oc where oc: "exec_byte null_settings [c] ?l = Some oc" "null.post 0 [c] oc"
    using null.post_exec_byte [OF l] by auto
  show ?thesis
  proof (cases "hp_state p \<in> body_states")
    case True
    then have "body_ready p"
      using assms by (auto simp: body_ready_def parser_inv_def state_inv_def body_states_def)
    from byte_step_body [OF this, of c] oc show ?thesis
      by (cases oc) (auto simp: byte_step_def null.linv_def parser_inv_def)
  next
    case False
    have "verdict_ok (erase 0 oc)"
    proof (cases "PARSING_HEADER (hp_state p) \<and> hp_nread (psr (count_byte ?l)) > HTTP_MAX_HEADER_SIZE")
      case True
      with oc(1) show ?thesis by (auto simp: exec_byte_def Let_def)
    next
      case nofull: False
      then have "reexecute_byte reexec_fuel null_settings [c] c (count_byte ?l) = Some oc"
        using oc(1) by (auto simp: exec_byte_def Let_def split: if_splits)
      from reexecute_verdict [OF _ _ refl _ this] False assms(2) show ?thesis by simp
    qed
    with oc show ?thesis
      by (cases oc) (auto simp: byte_step_def null.linv_def parser_inv_def)
  qed
qed

fun took :: "string \<Rightarrow> 's locals \<Rightarrow> 's outcome \<Rightarrow> bool" where
  "took data l (Break l') \<longleftrightarrow> feed (psr l) (drop (pos l) data) = Some (length data - pos l, psr l')"
| "took data l (Return n l') \<longleftrightarrow> pos l \<le> n \<and>
     feed (psr l) (drop (pos l) data) = Some (n - pos l, psr l')"
| "took data l (GotoError l') \<longleftrightarrow> pos l \<le> pos l' \<and>
     feed (psr l) (drop (pos l) data) = Some (pos l' - pos l,
       if hp_errno (psr l') = HPE_OK then (psr l')\<lparr>hp_errno := HPE_UNKNOWN\<rparr> else psr l')"
| "took data l _ \<longleftrightarrow> False"

lemma took_shift:
  assumes "took data l1 oc" "pos l1 = pos l + k" "pos l1 \<le> length data"
    and "\<And>n p. feed (psr l1) (drop (pos l1) data) = Some (n, p) \<Longrightarrow>
      feed (psr l) (drop (pos l) data) = Some (k + n, p)"
  shows "took data l oc"
  using assms by (cases oc) auto

context passive_client
begin

lemma linv_body_ready:
  "linv 0 l \<Longrightarrow> hp_state (psr l) \<in> body_states \<Longrightarrow> body_ready (psr l)"
  by (auto simp: body_ready_def linv_def state_inv_def body_states_def)

lemma exec_byte_stop:
  assumes "linv 0 l" "hp_state (psr l) \<notin> body_states" "pos l < length data"
    and "exec_byte st data l = Some oc" "post 0 data oc" "\<forall>l'. oc \<noteq> Break l'"
  shows "took data l oc"
proof -
  have ok: "parser_inv (psr l)" "hp_errno (psr l) = HPE_OK"
    using assms(1) linv_parser_inv by (simp_all add: linv_def)
  have eq: "byte_step (psr l) (data ! pos l) = Some (erase (pos l) oc)"
    using erase_exec_byte [OF assms(2) ok(2) assms(3)] assms(4) by simp
  have split: "drop (pos l) data = data ! pos l # drop (Suc (pos l)) data"
    using assms(3) by (simp add: Cons_nth_drop_Suc)
  show ?thesis
  proof (cases oc)
    case (Return n l')
    with byte_step_inv [OF ok, of "data ! pos l"] eq have "n - pos l = 1" by auto
    then have "pos l \<le> n" by simp
    with Return eq split show ?thesis by simp
  next
    case (GotoError l')
    with byte_step_inv [OF ok, of "data ! pos l"] eq have "pos l' - pos l = 0" by auto
    moreover have "pos l \<le> pos l'" using exec_byte_pos [OF assms(4,3)] GotoError by simp
    ultimately show ?thesis using GotoError eq split by simp
  qed (use assms in auto)
qed


lemma exec_byte_go:
  assumes "linv 0 l" "pos l < length data" "exec_byte st data l = Some (Break l')"
    and "feed (psr l') (drop (pos l' + 1) data) = Some (n, p)"
  shows "feed (psr l) (drop (pos l) data) = Some (pos l' + 1 - pos l + n, p)"
proof (cases "hp_state (psr l) \<in> body_states")
  case True
  note ready = linv_body_ready [OF assms(1) True]
  from exec_byte_body [OF ready assms(2)] assms(3)
  have l': "psr l' = body_after (psr l) (taken data l)" "pos l' + 1 = pos l + taken data l" by auto
  let ?k = "taken data l"
  have k: "0 < ?k" "?k \<le> length data - pos l"
    "hp_state (psr l) = s_body_identity_eof \<or> ?k \<le> unat (hp_content_length (psr l))"
    using ready assms(2) exec_byte_pos [OF assms(3,2)] l'(2)
    by (auto simp: taken_def to_read_def)
  let ?xs = "take ?k (drop (pos l) data)"
  have xs: "length ?xs = ?k" "?xs \<noteq> []" using k(1,2) by auto
  have "drop (pos l) data = ?xs @ drop (pos l' + 1) data"
    unfolding l'(2) by (metis append_take_drop_id drop_drop add.commute)
  then have "feed (psr l) (drop (pos l) data) = feed (psr l) (?xs @ drop (pos l' + 1) data)"
    by simp
  also have "\<dots> = map_option (map_prod ((+) ?k) id) (feed (psr l') (drop (pos l' + 1) data))"
    using feed_body [OF ready xs(2)] xs(1) k(3) l'(1) by simp
  also have "\<dots> = Some (?k + n, p)" using assms(4) by simp
  finally show ?thesis using l'(2) by simp
next
  case False
  have ok: "parser_inv (psr l)" "hp_errno (psr l) = HPE_OK"
    using assms(1) linv_parser_inv by (simp_all add: linv_def)
  have "byte_step (psr l) (data ! pos l) = Some (Go (psr l'))"
    using erase_exec_byte [OF False ok(2) assms(2)] assms(3) by simp
  moreover have "pos l' = pos l"
    using reexecute_pos_same [of "count_byte l" data reexec_fuel "data ! pos l" "Break l'"]
      False ok(2) assms(2,3) by (auto simp: exec_byte_def Let_def fail_def split: if_splits)
  moreover have "drop (pos l) data = data ! pos l # drop (Suc (pos l)) data"
    using assms(2) by (simp add: Cons_nth_drop_Suc)
  ultimately show ?thesis using assms(4) by simp
qed


lemma loop_feed:
  assumes "linv 0 l" "marks_ok l" "pos l \<le> length data"
  shows "\<exists>oc. exec_loop st data l = Some oc \<and> took data l oc"
  using assms
proof (induction "length data - pos l" arbitrary: l rule: less_induct)
  case less
  show ?case
  proof (cases "pos l < length data")
    case False
    then show ?thesis using less.prems exec_loop.simps [of st data l] by simp
  next
    case True
    obtain oc where oc: "exec_byte st data l = Some oc" "post 0 data oc"
      using post_exec_byte [OF less.prems(1,2) True] by auto
    show ?thesis
    proof (cases "\<exists>l'. oc = Break l'")
      case False
      have "took data l oc"
      proof (cases "hp_state (psr l) \<in> body_states")
        case True
        from exec_byte_body [OF linv_body_ready [OF less.prems(1) True] \<open>pos l < length data\<close>] oc False
        show ?thesis by auto
      next
        case nobody: False
        show ?thesis using exec_byte_stop [OF less.prems(1) nobody True oc] False by auto
      qed
      then show ?thesis using True oc False exec_loop.simps [of st data l] by (cases oc) auto
    next
      case br: True
      then obtain l' where l': "oc = Break l'" by auto
      let ?l = "l'\<lparr>pos := pos l' + 1\<rparr>"
      have mv: "pos l \<le> pos l'" "pos l' < length data" using exec_byte_pos [OF oc(1) True] l' by auto
      have "\<exists>oc. exec_loop st data ?l = Some oc \<and> took data ?l oc"
        using mv l' oc(2) True by (intro less.hyps) simp_all
      then obtain oc' where oc': "exec_loop st data ?l = Some oc'" "took data ?l oc'" by auto
      have "took data l oc'"
      proof (rule took_shift [OF oc'(2)])
        show "pos ?l = pos l + (pos l' + 1 - pos l)" "pos ?l \<le> length data" using mv by simp_all
        show "feed (psr ?l) (drop (pos ?l) data) = Some (n, p) \<Longrightarrow>
          feed (psr l) (drop (pos l) data) = Some (pos l' + 1 - pos l + n, p)" for n p
          using exec_byte_go [OF less.prems(1) True, of l' n p] oc(1) l' by simp
      qed
      then show ?thesis using True oc(1) oc'(1) l' exec_loop.simps [of st data l] by simp
    qed
  qed
qed

lemma erase_finish:
  assumes "hp_errno (psr l) = HPE_OK" "marks_ok l"
  shows "erase 0 (exec_finish st data l) = Stop (length data) (psr l)"
proof -
  have b: "erase 0 (cb_body st data n n l (\<lambda>l. Return (length data) l)) =
      Stop (length data) p" if "hp_errno p = HPE_OK" "psr l = p" for l p n
    by (subst erase_data_callbacks(4) [where v = "Stop (length data) p"]) (use that in auto)
  have u: "erase 0 (cb_url st data n l (\<lambda>l.
        cb_body st data (pos l) (pos l) l (\<lambda>l. Return (length data) l))) = Stop (length data) p"
    if "hp_errno p = HPE_OK" "psr l = p" for l p n
    by (subst erase_data_callbacks(1) [where v = "Stop (length data) p"]) (use b that in auto)
  have v: "erase 0 (cb_header_value st data n l (\<lambda>l. cb_url st data (pos l) l (\<lambda>l.
        cb_body st data (pos l) (pos l) l (\<lambda>l. Return (length data) l)))) = Stop (length data) p"
    if "hp_errno p = HPE_OK" "psr l = p" for l p n
    by (subst erase_data_callbacks(3) [where v = "Stop (length data) p"]) (use u that in auto)
  have "erase 0 (cb_header_field st data (pos l) l (\<lambda>l.
      cb_header_value st data (pos l) l (\<lambda>l. cb_url st data (pos l) l (\<lambda>l.
        cb_body st data (pos l) (pos l) l (\<lambda>l. Return (length data) l))))) =
      Stop (length data) (psr l)"
    by (subst erase_data_callbacks(2) [where v = "Stop (length data) (psr l)"]) (use v assms in auto)
  then show ?thesis using mark_count_le [OF assms(2)] by (simp add: exec_finish_def assert_then_def)
qed

theorem execute_feed:
  assumes "parser_inv p" "hp_errno p = HPE_OK" "data \<noteq> []"
  shows "\<exists>n p' u'. http_parser_execute st p u data = Executed n p' u' \<and> feed p data = Some (n, p')"
proof -
  let ?l = "initial_locals p u"
  have l: "linv 0 ?l" "marks_ok ?l" "pos ?l \<le> length data"
    using assms marks_ok_initial [of p u]
    by (simp_all add: linv_def initial_locals_def parser_inv_def)
  have l0: "psr ?l = p" "pos ?l = 0" by (simp_all add: initial_locals_def)
  obtain oc where oc: "exec_loop st data ?l = Some oc" "took data ?l oc"
    using loop_feed [OF l] by auto
  from post_exec_loop [OF l] oc(1) have post: "post 0 data oc" by auto
  have run: "http_parser_execute st p u data = (case oc of Break l \<Rightarrow> exec_result_of (exec_finish st data l)
      | oc \<Rightarrow> exec_result_of oc)"
    using assms oc(1) by (cases oc) (simp_all add: http_parser_execute_def)
  show ?thesis
  proof (cases oc)
    case (Break l')
    then have "erase 0 (exec_finish st data l') = Stop (length data) (psr l')"
      using post by (intro erase_finish) (simp_all add: linv_def)
    then have "\<exists>l''. exec_finish st data l' = Return (length data) l'' \<and> psr l'' = psr l'"
      by (cases "exec_finish st data l'") auto
    then show ?thesis using Break run oc(2) l0 by auto
  qed (use run oc(2) l0 in \<open>auto simp: exec_error_def SET_ERRNO_def\<close>)
qed

end

section \<open>Cutting the input\<close>

lemma feed_append:
  assumes "parser_inv p" "hp_errno p = HPE_OK"
    and "feed p xs = Some (length xs, p1)" "hp_errno p1 = HPE_OK" "\<not> hp_upgrade p1"
  shows "feed p (xs @ ys) = map_option (map_prod ((+) (length xs)) id) (feed p1 ys)"
  using assms
proof (induction xs arbitrary: p)
  case (Cons x xs)
  from byte_step_inv [OF Cons.prems(1,2), of x] show ?case
  proof (elim disjE exE conjE)
    fix p' assume p': "byte_step p x = Some (Go p')" "parser_inv p'" "hp_errno p' = HPE_OK"
    with Cons.prems(3) have "feed p' xs = Some (length xs, p1)" by auto
    from Cons.IH [OF p'(2,3) this Cons.prems(4,5)] p'(1) show ?thesis
      by (simp add: option.map_comp map_prod_compose o_def map_prod_def split_def)
  qed (use Cons.prems in auto)
next
  case Nil
  then show ?case by (cases "feed p ys") auto
qed

lemma feed_append_stop:
  assumes "feed p xs = Some (n, p1)" "n < length xs"
  shows "feed p (xs @ ys) = Some (n, p1)"
  using assms
  by (induction p xs arbitrary: n rule: feed.induct) (auto split: option.splits verdict.splits)

end
