(* ===== verification/HttpUrlParse.thy ===== *)
theory HttpUrlParse
  imports HttpUrl
begin

text \<open>
  \<open>http_parser_parse_url\<close> and the host automaton under it (src/src/http-parser/http_parser.c):
  which part of a buffer is the schema, the host, the port and so on. The fields are offsets
  and lengths of 16 bits into the buffer.
\<close>

section \<open>The result structure\<close>

datatype url_field =
  UF_SCHEMA | UF_HOST | UF_PORT | UF_PATH | UF_QUERY | UF_FRAGMENT | UF_USERINFO

primrec uf_code :: "url_field \<Rightarrow> nat" where
  "uf_code UF_SCHEMA = 0" | "uf_code UF_HOST = 1" | "uf_code UF_PORT = 2" | "uf_code UF_PATH = 3"
| "uf_code UF_QUERY = 4" | "uf_code UF_FRAGMENT = 5" | "uf_code UF_USERINFO = 6"

lemma uf_code_less: "uf_code f < 7" by (cases f) simp_all

lemma uf_code_inject: "uf_code f = uf_code g \<longleftrightarrow> f = g"
  by (cases f; cases g) simp_all

text \<open>The array \<open>field_data\<close> is two functions on the enumeration that indexes it.\<close>

record http_parser_url =
  field_set :: u16
  url_port :: u16
  field_off :: "url_field \<Rightarrow> u16"
  field_len :: "url_field \<Rightarrow> u16"

definition uf_bit :: "url_field \<Rightarrow> u16" where
  "uf_bit f = push_bit (uf_code f) 1"

definition has_field :: "http_parser_url \<Rightarrow> url_field \<Rightarrow> bool" where
  "has_field u f \<longleftrightarrow> field_set u AND uf_bit f \<noteq> 0"

text \<open>A field starts at an offset (with its bit set), or grows by a byte.\<close>

definition set_off :: "url_field \<Rightarrow> nat \<Rightarrow> http_parser_url \<Rightarrow> http_parser_url" where
  "set_off f i u = u\<lparr>field_off := (field_off u)(f := of_nat i)\<rparr>"

definition set_len :: "url_field \<Rightarrow> u16 \<Rightarrow> http_parser_url \<Rightarrow> http_parser_url" where
  "set_len f n u = u\<lparr>field_len := (field_len u)(f := n)\<rparr>"

definition add_field :: "url_field \<Rightarrow> http_parser_url \<Rightarrow> http_parser_url" where
  "add_field f u = u\<lparr>field_set := field_set u OR uf_bit f\<rparr>"

definition grow_field :: "url_field \<Rightarrow> http_parser_url \<Rightarrow> http_parser_url" where
  "grow_field f u = set_len f (field_len u f + 1) u"

section \<open>The host automaton\<close>

definition http_parse_host_char :: "http_host_state \<Rightarrow> char \<Rightarrow> http_host_state" where
  "http_parse_host_char s ch =
     (if s = s_http_userinfo \<or> s = s_http_userinfo_start then
        (if ch = CHR ''@'' then s_http_host_start
         else if IS_USERINFO_CHAR ch then s_http_userinfo
         else s_http_host_dead)
      else if s = s_http_host_start then
        (if ch = CHR ''['' then s_http_host_v6_start
         else if IS_HOST_CHAR ch then s_http_host
         else s_http_host_dead)
      else if s = s_http_host \<and> IS_HOST_CHAR ch then s_http_host
      else if s = s_http_host \<or> s = s_http_host_v6_end then
        (if ch = CHR '':'' then s_http_host_port_start else s_http_host_dead)
      else if s = s_http_host_v6 \<and> ch = CHR '']'' then s_http_host_v6_end
      else if s = s_http_host_v6 \<or> s = s_http_host_v6_start then
        (if IS_HEX ch \<or> ch = CHR '':'' then s_http_host_v6 else s_http_host_dead)
      else if s = s_http_host_port \<or> s = s_http_host_port_start then
        (if IS_NUM ch then s_http_host_port else s_http_host_dead)
      else s_http_host_dead)"

text \<open>What a byte at offset \<open>i\<close> adds to the fields, moving from state \<open>s\<close> to \<open>t\<close>.\<close>

definition host_field ::
  "http_host_state \<Rightarrow> http_host_state \<Rightarrow> nat \<Rightarrow> http_parser_url \<Rightarrow> http_parser_url" where
  "host_field s t i u =
     (case t of
        s_http_host \<Rightarrow>
          grow_field UF_HOST (if s \<noteq> s_http_host then set_off UF_HOST i u else u)
      | s_http_host_v6 \<Rightarrow>
          grow_field UF_HOST (if s \<noteq> s_http_host_v6 then set_off UF_HOST i u else u)
      | s_http_host_port \<Rightarrow>
          grow_field UF_PORT
            (if s \<noteq> s_http_host_port
             then add_field UF_PORT (set_len UF_PORT 0 (set_off UF_PORT i u)) else u)
      | s_http_userinfo \<Rightarrow>
          grow_field UF_USERINFO
            (if s \<noteq> s_http_userinfo
             then add_field UF_USERINFO (set_len UF_USERINFO 0 (set_off UF_USERINFO i u)) else u)
      | _ \<Rightarrow> u)"

fun parse_host_loop ::
  "nat \<Rightarrow> string \<Rightarrow> http_host_state \<Rightarrow> http_parser_url \<Rightarrow> (http_host_state \<times> http_parser_url) option" where
  "parse_host_loop i [] s u = Some (s, u)"
| "parse_host_loop i (c # cs) s u =
     (let t = http_parse_host_char s c in
      if t = s_http_host_dead then None
      else parse_host_loop (i + 1) cs t (host_field s t i u))"

definition host_end_ok :: "http_host_state \<Rightarrow> bool" where
  "host_end_ok s \<longleftrightarrow> s \<notin> {s_http_host_start, s_http_host_v6_start, s_http_host_v6,
     s_http_host_port_start, s_http_userinfo, s_http_userinfo_start}"

text \<open>
  \<open>http_parse_host\<close>; \<open>None\<close> is the result 1. \<open>buflen\<close> is a \<open>size_t\<close>: the sum of the two
  16 bit values does not wrap.
\<close>

definition http_parse_host :: "string \<Rightarrow> http_parser_url \<Rightarrow> bool \<Rightarrow> http_parser_url option" where
  "http_parse_host buf u found_at =
     (let off = unat (field_off u UF_HOST); n = unat (field_len u UF_HOST);
          u1 = set_len UF_HOST 0 u;
          s = (if found_at then s_http_userinfo_start else s_http_host_start)
      in case parse_host_loop off (take n (drop off buf)) s u1 of
           None \<Rightarrow> None
         | Some (s', u') \<Rightarrow> if host_end_ok s' then Some u' else None)"

section \<open>The URL parser\<close>

text \<open>
  The field a state belongs to: \<open>Inl True\<close> is the error of \<open>s_dead\<close>, \<open>Inl False\<close> a
  delimiter that is skipped. The default of the switch (an assertion) is not reached:
  \<open>parse_url_char_states\<close>.
\<close>

definition url_state_field :: "pstate \<Rightarrow> bool + url_field" where
  "url_state_field s =
     (if s \<in> {s_req_schema_slash, s_req_schema_slash_slash, s_req_server_start,
              s_req_query_string_start, s_req_fragment_start} then Inl False
      else if s = s_req_schema then Inr UF_SCHEMA
      else if s = s_req_server_with_at \<or> s = s_req_server then Inr UF_HOST
      else if s = s_req_path then Inr UF_PATH
      else if s = s_req_query_string then Inr UF_QUERY
      else if s = s_req_fragment then Inr UF_FRAGMENT
      else Inl True)"

fun parse_url_loop ::
  "nat \<Rightarrow> string \<Rightarrow> pstate \<Rightarrow> url_field option \<Rightarrow> bool \<Rightarrow> http_parser_url \<Rightarrow>
   (bool \<times> http_parser_url) option" where
  "parse_url_loop i [] s old_uf found_at u = Some (found_at, u)"
| "parse_url_loop i (c # cs) s old_uf found_at u =
     (let t = parse_url_char s c; found_at' = (found_at \<or> t = s_req_server_with_at) in
      case url_state_field t of
        Inl True \<Rightarrow> None
      | Inl False \<Rightarrow> parse_url_loop (i + 1) cs t old_uf found_at' u
      | Inr uf \<Rightarrow>
          if old_uf = Some uf then parse_url_loop (i + 1) cs t old_uf found_at' (grow_field uf u)
          else parse_url_loop (i + 1) cs t (Some uf) found_at'
                 (add_field uf (set_len uf 1 (set_off uf i u))))"

text \<open>
  \<open>strtoul(s, NULL, 10)\<close> on bytes that start with a digit: the value of the digits up to the
  first other byte. The code compares it with \<open>0xffff\<close>, far below where \<open>unsigned long\<close> ends.
\<close>

definition strtoul10 :: "string \<Rightarrow> int" where
  "strtoul10 s = foldl (\<lambda>n d. n * 10 + digit_val d) 0 (takeWhile IS_NUM s)"

text \<open>
  \<open>mem\<close> holds the buffer and the bytes that follow it in memory: \<open>strtoul\<close> does not know
  where the buffer ends. The caller's structure \<open>u\<close> comes in with whatever it holds; only
  \<open>field_set\<close> and \<open>port\<close> are reset. \<open>None\<close> is the result 1.
\<close>

definition http_parser_parse_url ::
  "string \<Rightarrow> nat \<Rightarrow> bool \<Rightarrow> http_parser_url \<Rightarrow> http_parser_url option" where
  "http_parser_parse_url mem buflen is_connect u0 =
     (let buf = take buflen mem;
          u1 = u0\<lparr>field_set := 0, url_port := 0\<rparr>;
          s = (if is_connect then s_req_server_start else s_req_spaces_before_url)
      in case parse_url_loop 0 buf s None False u1 of
        None \<Rightarrow> None
      | Some (found_at, u2) \<Rightarrow>
          (case (if has_field u2 UF_SCHEMA \<or> has_field u2 UF_HOST
                 then http_parse_host mem u2 found_at else Some u2) of
             None \<Rightarrow> None
           | Some u3 \<Rightarrow>
               if is_connect \<and> field_set u3 \<noteq> uf_bit UF_HOST OR uf_bit UF_PORT then None
               else if has_field u3 UF_PORT then
                 (let v = strtoul10 (drop (unat (field_off u3 UF_PORT)) mem) in
                  if v > 0xffff then None else Some (u3\<lparr>url_port := of_int v\<rparr>))
               else Some u3))"

section \<open>The fields lie in the buffer\<close>

lemma bit_uf_bit: "bit (uf_bit f) n \<longleftrightarrow> n = uf_code f"
  unfolding uf_bit_def bit_push_bit_iff bit_1_iff using uf_code_less [of f] by auto

lemma has_field_bit: "has_field u f \<longleftrightarrow> bit (field_set u) (uf_code f)"
  by (metis (no_types, lifting) bit_eq_iff bit_and_iff bit_uf_bit has_field_def bit_0_eq bot_apply bot_bool_def)

lemma has_field_simps [simp]:
  "has_field (set_off f i u) g = has_field u g" "has_field (set_len f n u) g = has_field u g"
  "has_field (grow_field f u) g = has_field u g"
  "has_field (add_field f u) g \<longleftrightarrow> g = f \<or> has_field u g"
  by (auto simp: has_field_bit set_off_def set_len_def grow_field_def add_field_def bit_or_iff
      bit_uf_bit uf_code_inject)

definition fields_within :: "url_field set \<Rightarrow> nat \<Rightarrow> http_parser_url \<Rightarrow> bool" where
  "fields_within F n u \<longleftrightarrow>
     (\<forall>f \<in> F. has_field u f \<longrightarrow> unat (field_off u f) + unat (field_len u f) \<le> n)"

lemma unat_Suc_u16: "unat (x :: u16) < 65535 \<Longrightarrow> unat (x + 1) = Suc (unat x)"
  by (simp add: unat_word_ariths)

lemma unat_of_nat_u16: "i \<le> 65535 \<Longrightarrow> unat (of_nat i :: u16) = i"
  by (simp add: unat_of_nat take_bit_nat_eq_self)

lemma fields_within_mono: "fields_within F m u \<Longrightarrow> m \<le> n \<Longrightarrow> fields_within F n u"
  by (force simp: fields_within_def)

lemma within_grow:
  assumes "fields_within F i u" "f \<in> F \<Longrightarrow> has_field u f" "i < 65535"
  shows "fields_within F (Suc i) (grow_field f u)"
proof (cases "f \<in> F")
  case True
  then have "unat (field_off u f) + unat (field_len u f) \<le> i" using assms by (simp add: fields_within_def)
  moreover from this assms(3) have "unat (field_len u f + 1) = Suc (unat (field_len u f))"
    by (intro unat_Suc_u16) simp
  ultimately show ?thesis using assms(1)
    by (auto simp: fields_within_def grow_field_def set_len_def has_field_def le_SucI)
next
  case False
  with assms(1) show ?thesis
    by (auto simp: fields_within_def grow_field_def set_len_def has_field_def le_SucI)
qed

lemma within_start:
  assumes "fields_within F i u" "i < 65535"
  shows "fields_within F (Suc i) (add_field f (set_len f 1 (set_off f i u)))"
  using assms
  by (auto simp: fields_within_def le_SucI)
    (auto simp: add_field_def set_len_def set_off_def has_field_def unat_of_nat_u16 le_SucI)

lemma parse_url_loop_within:
  assumes "parse_url_loop i cs s old fa u = Some (fa', u')" "fields_within F i u"
    "\<And>f. old = Some f \<Longrightarrow> has_field u f" "i + length cs \<le> 65535"
  shows "fields_within F (i + length cs) u'"
  using assms
proof (induction i cs s old fa u rule: parse_url_loop.induct)
  case (2 i c cs s old fa u)
  let ?t = "parse_url_char s c"
  have i: "i < 65535" using "2.prems"(4) by simp
  show ?case
  proof (cases "url_state_field ?t")
    case (Inl b)
    with "2.prems" have "\<not> b" by auto
    with Inl "2.prems" show ?thesis
      using "2.IH"(1) [OF refl refl, of b] fields_within_mono [OF "2.prems"(2), of "Suc i"]
      by (cases b) (auto simp: Let_def)
  next
    case (Inr uf)
    show ?thesis
    proof (cases "old = Some uf")
      case True
      with Inr "2.prems" show ?thesis
        using "2.IH"(2) [OF refl refl Inr True] within_grow [OF "2.prems"(2) _ i, of uf]
        by (simp add: Let_def)
    next
      case False
      with Inr "2.prems" show ?thesis
        using "2.IH"(3) [OF refl refl Inr False] within_start [OF "2.prems"(2) i, of uf]
        by (simp add: Let_def)
    qed
  qed
qed simp


abbreviation host_fields :: "url_field set" where
  "host_fields \<equiv> {UF_HOST, UF_PORT, UF_USERINFO}"

definition host_inv :: "nat \<Rightarrow> http_host_state \<Rightarrow> http_parser_url \<Rightarrow> bool" where
  "host_inv i s u \<longleftrightarrow> fields_within host_fields i u \<and> has_field u UF_HOST \<and>
     (s \<in> {s_http_userinfo_start, s_http_userinfo, s_http_host_start, s_http_host_v6_start}
       \<longrightarrow> field_len u UF_HOST = 0) \<and>
     (s = s_http_host_port \<longrightarrow> has_field u UF_PORT) \<and>
     (s = s_http_userinfo \<longrightarrow> has_field u UF_USERINFO)"

lemma field_len_simps [simp]:
  "field_len (set_off f i u) = field_len u" "field_len (set_len f n u) = (field_len u)(f := n)"
  "field_len (add_field f u) = field_len u"
  "field_len (grow_field f u) = (field_len u)(f := field_len u f + 1)"
  "field_off (set_off f i u) = (field_off u)(f := of_nat i)" "field_off (set_len f n u) = field_off u"
  "field_off (add_field f u) = field_off u" "field_off (grow_field f u) = field_off u"
  by (simp_all add: set_off_def set_len_def add_field_def grow_field_def)

lemma host_char_cases:
  assumes "http_parse_host_char s c = t" "t \<noteq> s_http_host_dead"
  shows "t = s_http_host \<Longrightarrow> s = s_http_host \<or> s = s_http_host_start"
    and "t = s_http_host_v6 \<Longrightarrow> s = s_http_host_v6 \<or> s = s_http_host_v6_start"
    and "t \<in> {s_http_host_start, s_http_userinfo} \<Longrightarrow> s \<in> {s_http_userinfo, s_http_userinfo_start}"
    and "t = s_http_host_v6_start \<Longrightarrow> s = s_http_host_start"
    and "t \<noteq> s_http_userinfo_start"
  using assms by (auto simp: http_parse_host_char_def split: if_splits)

lemma within_restart:
  assumes "fields_within F i u" "i < 65535" "field_len u f = 0"
  shows "fields_within F (Suc i) (grow_field f (set_off f i u))"
    "fields_within F (Suc i) (grow_field f (add_field f (set_off f i u)))"
  using assms by (auto simp: fields_within_def unat_of_nat_u16 le_SucI)

lemma within_set_len_0: "fields_within F i u \<Longrightarrow> fields_within F i (set_len f 0 u)"
  by (auto simp: fields_within_def)

lemma set_len_off: "set_len f n (set_off f i u) = set_off f i (set_len f n u)"
  by (simp add: set_len_def set_off_def)

lemma host_field_inv:
  assumes "host_inv i s u" "http_parse_host_char s c = t" "t \<noteq> s_http_host_dead" "i < 65535"
  shows "host_inv (Suc i) t (host_field s t i u)"
proof -
  have w: "fields_within host_fields i u" "has_field u UF_HOST" using assms by (simp_all add: host_inv_def)
  note grow = within_grow [OF w(1) _ assms(4)]
  note restart = within_restart [OF w(1) assms(4)] within_restart [OF within_set_len_0 [OF w(1)] assms(4)]
  note skip = fields_within_mono [OF w(1), of "Suc i"]
  note from_state = host_char_cases [OF assms(2,3)]
  show ?thesis
  proof (cases t)
    case s_http_host
    with from_state(1) assms(1) w grow restart(1) show ?thesis
      by (auto simp: host_inv_def host_field_def)
  next
    case s_http_host_v6
    with from_state(2) assms(1) w grow restart(1) show ?thesis
      by (auto simp: host_inv_def host_field_def)
  next
    case s_http_host_port
    with assms(1) w grow restart(4) show ?thesis
      by (simp add: host_inv_def host_field_def set_len_off)
  next
    case s_http_userinfo
    with assms(1) w grow restart(4) from_state(3) show ?thesis
      by (auto simp: host_inv_def host_field_def set_len_off)
  qed (use assms w skip from_state in \<open>auto simp: host_inv_def host_field_def\<close>)
qed

lemma host_field_keeps:
  "has_field u f \<Longrightarrow> has_field (host_field s t i u) f"
  "f \<notin> host_fields \<Longrightarrow> has_field (host_field s t i u) f = has_field u f \<and>
     field_off (host_field s t i u) f = field_off u f \<and> field_len (host_field s t i u) f = field_len u f"
  by (cases t; simp add: host_field_def)+

lemma parse_host_loop_inv:
  assumes "parse_host_loop i cs s u = Some (s', u')" "host_inv i s u" "i + length cs \<le> 65535"
  shows "host_inv (i + length cs) s' u' \<and> (\<forall>f. f \<notin> host_fields \<longrightarrow> has_field u' f = has_field u f \<and>
     field_off u' f = field_off u f \<and> field_len u' f = field_len u f)"
  using assms
proof (induction i cs s u rule: parse_host_loop.induct)
  case (2 i c cs s u)
  let ?t = "http_parse_host_char s c"
  have t: "?t \<noteq> s_http_host_dead" "i < 65535" using "2.prems" by auto
  have "host_inv (i + 1) ?t (host_field s ?t i u)"
    using host_field_inv [OF "2.prems"(2) refl t] by simp
  with "2.prems" t "2.IH" [OF refl t(1)] host_field_keeps(2) [of _ s ?t i u] show ?case
    by (simp add: Let_def)
qed simp

lemma parse_host_within:
  assumes "http_parse_host mem u fa = Some u'" "fields_within UNIV n u" "n \<le> length mem" "n \<le> 65535"
    and "has_field u UF_HOST" "\<not> has_field u UF_PORT" "\<not> has_field u UF_USERINFO"
  shows "fields_within UNIV n u'"
proof -
  let ?off = "unat (field_off u UF_HOST)" and ?n = "unat (field_len u UF_HOST)"
  let ?cs = "take ?n (drop ?off mem)"
  have len: "?off + ?n \<le> n" using assms(2,5) by (simp add: fields_within_def)
  then have cs: "length ?cs = ?n" using assms(3) by simp
  obtain s s' where loop: "parse_host_loop ?off ?cs s (set_len UF_HOST 0 u) = Some (s', u')"
    and s: "s = s_http_userinfo_start \<or> s = s_http_host_start"
    using assms(1) by (auto simp: http_parse_host_def Let_def split: option.splits prod.splits if_splits)
  have "host_inv ?off s (set_len UF_HOST 0 u)"
    using s assms(5-) by (auto simp: host_inv_def fields_within_def)
  from parse_host_loop_inv [OF loop this] len assms(4) cs
  have inv: "host_inv (?off + ?n) s' u'"
    and keep: "\<And>f. f \<notin> host_fields \<Longrightarrow> has_field u' f = has_field u f \<and>
     field_off u' f = field_off u f \<and> field_len u' f = field_len u f"
    by auto
  have "unat (field_off u' f) + unat (field_len u' f) \<le> n" if "has_field u' f" for f
  proof (cases "f \<in> host_fields")
    case True
    with inv that have "unat (field_off u' f) + unat (field_len u' f) \<le> ?off + ?n"
      by (auto simp: host_inv_def fields_within_def)
    with len show ?thesis by linarith
  next
    case False
    with keep [OF False] that assms(2) show ?thesis by (simp add: fields_within_def)
  qed
  then show ?thesis by (simp add: fields_within_def)
qed

lemma parse_url_loop_no_port:
  assumes "parse_url_loop i cs s old fa u = Some (fa', u')"
    "\<not> has_field u UF_PORT" "\<not> has_field u UF_USERINFO"
  shows "\<not> has_field u' UF_PORT \<and> \<not> has_field u' UF_USERINFO"
  using assms
proof (induction i cs s old fa u rule: parse_url_loop.induct)
  case (2 i c cs s old fa u)
  have uf: "url_state_field t = Inr uf \<Longrightarrow> uf \<noteq> UF_PORT \<and> uf \<noteq> UF_USERINFO" for t uf
    by (auto simp: url_state_field_def split: if_splits)
  let ?t = "parse_url_char s c"
  show ?case
  proof (cases "url_state_field ?t")
    case (Inl b)
    with "2.prems" show ?thesis using "2.IH"(1) [OF refl refl, of b] by (cases b) (auto simp: Let_def)
  next
    case (Inr f)
    with "2.prems" uf [OF Inr] show ?thesis
      using "2.IH"(2) [OF refl refl Inr] "2.IH"(3) [OF refl refl Inr]
      by (cases "old = Some f") (auto simp: Let_def)
  qed
qed simp

lemma parse_host_set:
  assumes "parse_host_loop i cs s u = Some (s', u')" "f \<noteq> UF_PORT" "f \<noteq> UF_USERINFO"
  shows "has_field u' f = has_field u f"
proof -
  have "has_field (host_field s t i u) f = has_field u f" for s t i u
    using assms(2,3) by (cases t) (simp_all add: host_field_def)
  with assms(1) show ?thesis
    by (induction i cs s u rule: parse_host_loop.induct) (auto simp: Let_def split: if_splits)
qed

lemma fields_within_port: "fields_within F n (u\<lparr>url_port := v\<rparr>) = fields_within F n u"
  by (simp add: fields_within_def has_field_def)

text \<open>
  A successful parse: every field that is set lies in the buffer, provided a URL with a
  schema has a host. (For a URL such as \<open>http:\<close> the host parser works on the offset and
  length the caller left in the structure.)
\<close>

lemma parse_url_within:
  assumes "http_parser_parse_url mem buflen is_connect u0 = Some u"
    "buflen \<le> length mem" "buflen \<le> 65535"
    and "has_field u UF_SCHEMA \<longrightarrow> has_field u UF_HOST"
  shows "fields_within UNIV buflen u"
proof -
  let ?u1 = "u0\<lparr>field_set := 0, url_port := 0\<rparr>"
  let ?s = "if is_connect then s_req_server_start else s_req_spaces_before_url"
  obtain fa u2 where loop: "parse_url_loop 0 (take buflen mem) ?s None False ?u1 = Some (fa, u2)"
    using assms(1) by (cases "parse_url_loop 0 (take buflen mem) ?s None False ?u1")
      (auto simp: http_parser_parse_url_def Let_def)
  let ?host = "if has_field u2 UF_SCHEMA \<or> has_field u2 UF_HOST
                then http_parse_host mem u2 fa else Some u2"
  obtain u3 where host: "?host = Some u3"
    using assms(1) loop by (cases ?host) (simp_all add: http_parser_parse_url_def Let_def)
  have u: "u = u3 \<or> (\<exists>v. u = u3\<lparr>url_port := v\<rparr>)"
    using assms(1) loop host
    by (simp add: http_parser_parse_url_def Let_def split: if_splits) blast+
  have none: "\<not> has_field ?u1 f" for f by (simp add: has_field_def)
  have len: "length (take buflen mem) = buflen" using assms(2) by simp
  have w2: "fields_within UNIV buflen u2"
    using parse_url_loop_within [OF loop, of UNIV] none len assms(3) by (simp add: fields_within_def)
  have no: "\<not> has_field u2 UF_PORT" "\<not> has_field u2 UF_USERINFO"
    using parse_url_loop_no_port [OF loop] none by simp_all
  have "fields_within UNIV buflen u3"
  proof (cases "has_field u2 UF_SCHEMA \<or> has_field u2 UF_HOST")
    case True
    with host have h: "http_parse_host mem u2 fa = Some u3" by simp
    then obtain i cs s s' where "parse_host_loop i cs s (set_len UF_HOST 0 u2) = Some (s', u3)"
      by (auto simp: http_parse_host_def Let_def split: option.splits prod.splits if_splits)
    from parse_host_set [OF this] have "has_field u3 UF_HOST = has_field u2 UF_HOST"
      "has_field u3 UF_SCHEMA = has_field u2 UF_SCHEMA" by simp_all
    moreover have "has_field u f = has_field u3 f" for f using u by (auto simp: has_field_def)
    ultimately have "has_field u2 UF_HOST" using True assms(4) by auto
    from parse_host_within [OF h w2 assms(2,3) this no] show ?thesis .
  next
    case False
    with host w2 show ?thesis by simp
  qed
  with u show ?thesis by (auto simp: fields_within_port)
qed

section \<open>Properties\<close>

definition blank_url :: http_parser_url where
  "blank_url = \<lparr>field_set = 0, url_port = 0, field_off = (\<lambda>_. 0), field_len = (\<lambda>_. 0)\<rparr>"

text \<open>
  C26: the parts of a URL lie in its buffer. After a successful parse of a buffer of at most
  65535 bytes, every part whose bit is set starts and ends inside of the buffer, whatever
  bytes follow it in memory and whatever the result structure held before, if a URL with a
  schema has a host.
\<close>

theorem url_fields_in_buffer:
  assumes "http_parser_parse_url mem buflen is_connect u0 = Some u"
    "buflen \<le> length mem" "buflen \<le> 65535"
    "has_field u UF_SCHEMA \<Longrightarrow> has_field u UF_HOST" "has_field u f"
  shows "unat (field_off u f) + unat (field_len u f) \<le> buflen"
  using parse_url_within [OF assms(1-3)] assms(4,5) by (auto simp: fields_within_def)

theorem url_fields_in_buffer_witness:
  "\<exists>u. http_parser_parse_url ''http://me@h:80/p?q#f HTTP/1.1'' 20 False blank_url = Some u \<and>
     has_field u UF_PORT \<and> unat (field_off u UF_PORT) + unat (field_len u UF_PORT) \<le> 20"
proof -
  let ?r = "http_parser_parse_url ''http://me@h:80/p?q#f HTTP/1.1'' 20 False blank_url"
  have r: "?r \<noteq> None" "has_field (the ?r) UF_PORT" "has_field (the ?r) UF_HOST"
    by code_simp+
  then have s: "?r = Some (the ?r)" by simp
  show ?thesis
    using url_fields_in_buffer [OF s _ _ r(3,2)] r(2) s by auto
qed

text \<open>
   the port is read past the end of the buffer. The digits of the port are converted with
  \<open>strtoul\<close>, which knows nothing of \<open>buflen\<close>: for the eleven bytes of \<open>http://a:80\<close> the
  port is 80 or 8099 (and with five more digits the URL is refused), by what follows them in
  memory.
\<close>

theorem url_port_past_end:
  "map_option url_port (http_parser_parse_url (''http://a:80'' @ ''/'') 11 False blank_url) = Some 80 \<and>
   map_option url_port (http_parser_parse_url (''http://a:80'' @ ''99'') 11 False blank_url) = Some 8099 \<and>
   http_parser_parse_url (''http://a:80'' @ ''99999'') 11 False blank_url = None"
  by code_simp
end
