(* ===== verification/HttpParserProps.thy ===== *)
theory HttpParserProps
  imports HttpParserFeed HttpUrlParse
begin

text \<open>
  What the parser reads out of a message, on the byte at a time view of \<open>HttpParserFeed\<close>,
  and the properties of the parser.
\<close>

section \<open>A client that records what it is told\<close>

datatype event = MessageBegin | Url string | HeaderField string | HeaderValue string
  | HeadersComplete | Body string | MessageComplete

definition record_event :: "event \<Rightarrow> event list http_cb" where
  "record_event e p u = (0, p, u @ [e])"

definition log_settings :: "event list http_parser_settings" where
  "log_settings = \<lparr>on_message_begin = Some (record_event MessageBegin),
     on_url = Some (\<lambda>s. record_event (Url s)),
     on_header_field = Some (\<lambda>s. record_event (HeaderField s)),
     on_header_value = Some (\<lambda>s. record_event (HeaderValue s)),
     on_headers_complete = Some (record_event HeadersComplete),
     on_body = Some (\<lambda>s. record_event (Body s)),
     on_message_complete = Some (record_event MessageComplete)\<rparr>"

interpretation log: passive_client log_settings
  by unfold_locales (auto simp: log_settings_def record_event_def)

abbreviation crlf :: string where "crlf \<equiv> [CR, LF]"

section \<open>Evaluating a byte\<close>

lemma byte_step_switch:
  assumes "hp_errno p = HPE_OK" "PARSING_HEADER (hp_state p)" "hp_state p \<notin> body_states"
    "hp_nread p < HTTP_MAX_HEADER_SIZE"
    "erase 0 (exec_switch null_settings [c] c (byte_locals (p\<lparr>hp_nread := hp_nread p + 1\<rparr>))) = v"
    "\<forall>q. v \<noteq> Again q"
  shows "byte_step p c = Some v"
proof -
  let ?l = "count_byte (byte_locals p)"
  have psr: "psr ?l = p\<lparr>hp_nread := hp_nread p + 1\<rparr>" using assms(2) by (simp add: count_byte_def)
  have "hp_nread p + 1 \<le> HTTP_MAX_HEADER_SIZE" using assms(4) by (metis inc_le add.commute)
  then have full: "\<not> hp_nread (psr ?l) > HTTP_MAX_HEADER_SIZE" by (simp add: psr)
  have "erase 0 (exec_switch null_settings [c] c ?l) = v"
    using null.erase_switch [of ?l "[c]" c] assms(3,5) by (simp add: psr)
  then obtain oc where oc: "exec_switch null_settings [c] c ?l = oc" "erase 0 oc = v" by auto
  obtain m where m: "reexec_fuel = Suc m" by (simp add: reexec_fuel_def eval_nat_numeral)
  have "reexecute_byte reexec_fuel null_settings [c] c ?l = Some oc"
    unfolding m using oc assms(6) by (cases oc) auto
  then show ?thesis using assms(2) oc(2) full
    by (simp add: byte_step_def exec_byte_def Let_def)
qed

lemma feed_Go:
  "byte_step p c = Some (Go p') \<Longrightarrow> feed p' cs = Some (n, q) \<Longrightarrow> feed p (c # cs) = Some (Suc n, q)"
  by simp

lemma byte_step_path:
  assumes "hp_errno p = HPE_OK" "hp_state p = s_req_path" "hp_nread p < HTTP_MAX_HEADER_SIZE"
    "IS_URL_CHAR c"
  shows "byte_step p c = Some (Go (p\<lparr>hp_nread := hp_nread p + 1\<rparr>))"
proof (rule byte_step_switch)
  have "c \<noteq> SP" "c \<noteq> CR" "c \<noteq> LF" "c \<noteq> HT" "c \<noteq> FF"
    using assms(4) by (auto simp: IS_URL_CHAR_def normal_url_char_def uchar_def normal_url_tab_def)
  then show "erase 0 (exec_switch null_settings [c] c (byte_locals (p\<lparr>hp_nread := hp_nread p + 1\<rparr>))) =
      Go (p\<lparr>hp_nread := hp_nread p + 1\<rparr>)"
    using assms by (simp add: exec_switch_def ex_req_url_def ex_url_step_def parse_url_char_def Let_def)
qed (use assms in \<open>simp_all add: PARSING_HEADER_def less_eq_pstate_def body_states_def\<close>)

lemma feed_path:
  assumes "hp_errno p = HPE_OK" "hp_state p = s_req_path" "\<forall>c \<in> set cs. IS_URL_CHAR c"
    "unat (hp_nread p) + length cs \<le> 80 * 1024"
  shows "feed p (cs @ ys) = map_option (map_prod ((+) (length cs)) id)
    (feed (p\<lparr>hp_nread := hp_nread p + of_nat (length cs)\<rparr>) ys)"
  using assms
proof (induction cs arbitrary: p)
  case Nil
  then show ?case by (cases "feed p ys") auto
next
  case (Cons c cs)
  let ?p = "p\<lparr>hp_nread := hp_nread p + 1\<rparr>"
  have lt: "hp_nread p < HTTP_MAX_HEADER_SIZE"
    using Cons.prems(4) by (simp add: HTTP_MAX_HEADER_SIZE_def word_less_nat_alt)
  have nread: "unat (hp_nread p + 1) = Suc (unat (hp_nread p))"
    using Cons.prems(4) by (simp add: unat_word_ariths)
  have "byte_step p c = Some (Go ?p)"
    using Cons.prems(1-3) lt by (intro byte_step_path) simp_all
  moreover have "feed ?p (cs @ ys) = map_option (map_prod ((+) (length cs)) id)
    (feed (?p\<lparr>hp_nread := hp_nread ?p + of_nat (length cs)\<rparr>) ys)"
    using Cons.prems nread by (intro Cons.IH) simp_all
  moreover have "?p\<lparr>hp_nread := hp_nread ?p + of_nat (length cs)\<rparr> =
      p\<lparr>hp_nread := hp_nread p + of_nat (length (c # cs))\<rparr>" by simp
  ultimately show ?case
    by (cases "feed (p\<lparr>hp_nread := hp_nread p + of_nat (length (c # cs))\<rparr>) ys") (auto simp: add.assoc)
qed


section \<open>Reading the request line\<close>

definition method_read :: "http_method \<Rightarrow> bool" where
  "method_read m =
     (case feed (http_parser_init HTTP_REQUEST) (http_method_str m @ [SP, CHR ''/'']) of
        None \<Rightarrow> False
      | Some (n, p) \<Rightarrow> n = length (http_method_str m) + 2 \<and>
          p = (begin_message (http_parser_init HTTP_REQUEST))\<lparr>hp_state := s_req_path,
            hp_method := m, hp_index := of_nat (length (http_method_str m)) + 1,
            hp_nread := of_nat n\<rparr>)"

lemma method_read_any: "m \<noteq> HTTP_CONNECT \<Longrightarrow> method_read m"
  by (cases m; hypsubst?; code_simp)


text \<open>A parser that has read \<open>j\<close> header bytes and is in state \<open>s\<close>.\<close>

definition at_byte :: "nat \<Rightarrow> pstate \<Rightarrow> hparser \<Rightarrow> hparser" where
  "at_byte j s p = p\<lparr>hp_nread := of_nat j, hp_state := s\<rparr>"

lemma at_byte_simps [simp]:
  "hp_errno (at_byte j s p) = hp_errno p" "hp_state (at_byte j s p) = s"
  "hp_nread (at_byte j s p) = of_nat j" "hp_method (at_byte j s p) = hp_method p"
  "(at_byte j s p)\<lparr>hp_state := t\<rparr> = at_byte j t p"
  "(at_byte j s p)\<lparr>hp_nread := of_nat j + 1\<rparr> = at_byte (Suc j) s p"
  "at_byte j s (at_byte k t p) = at_byte j s p"
  "(at_byte j s p)\<lparr>hp_http_major := a\<rparr> = at_byte j s (p\<lparr>hp_http_major := a\<rparr>)"
  "(at_byte j s p)\<lparr>hp_http_minor := a\<rparr> = at_byte j s (p\<lparr>hp_http_minor := a\<rparr>)"
  "(at_byte j s p)\<lparr>hp_content_length := n\<rparr> = at_byte j s (p\<lparr>hp_content_length := n\<rparr>)"
  "(at_byte j s p)\<lparr>hp_index := i\<rparr> = at_byte j s (p\<lparr>hp_index := i\<rparr>)"
  "hp_header_state (at_byte j s p) = hp_header_state p"
  "hp_http_major (at_byte j s p) = hp_http_major p" "hp_http_minor (at_byte j s p) = hp_http_minor p"
  "hp_content_length (at_byte j s p) = hp_content_length p"
  "hp_flags (at_byte j s p) = hp_flags p"
  by (simp_all add: at_byte_def add.commute)

lemma at_byte_id: "hp_nread p = of_nat j \<Longrightarrow> hp_state p = s \<Longrightarrow> at_byte j s p = p"
  by (simp add: at_byte_def)

lemma unat_of_nat_u32: "j \<le> 80 * 1024 \<Longrightarrow> unat (of_nat j :: u32) = j"
  by (simp add: unat_of_nat take_bit_nat_eq_self)

lemma of_nat_nread: "j < 80 * 1024 \<Longrightarrow> (of_nat j :: u32) < HTTP_MAX_HEADER_SIZE"
  by (simp add: HTTP_MAX_HEADER_SIZE_def word_less_nat_alt unat_of_nat take_bit_nat_eq_self)

lemma byte_step_at:
  assumes "hp_errno p = HPE_OK" "s \<le> s_headers_done" "j < 80 * 1024"
    "erase 0 (exec_switch null_settings [c] c (byte_locals (at_byte (Suc j) s p))) = v"
    "\<forall>q. v \<noteq> Again q"
  shows "byte_step (at_byte j s p) c = Some v"
proof (rule byte_step_switch)
  show "hp_state (at_byte j s p) \<notin> body_states"
    using assms(2) by (auto simp: body_states_def less_eq_pstate_def)
  show "erase 0 (exec_switch null_settings [c] c (byte_locals
      ((at_byte j s p)\<lparr>hp_nread := hp_nread (at_byte j s p) + 1\<rparr>))) = v"
    using assms(4) by simp
qed (use assms in \<open>simp_all add: of_nat_nread PARSING_HEADER_def\<close>)

lemmas byte_eval = exec_switch_def ex_expect_def STRICT_CHECK_def less_eq_pstate_def Let_def

lemma schar_inject [simp]: "schar c = schar d \<longleftrightarrow> c = d"
  using uchar_less_256 [of c] uchar_less_256 [of d] by (auto simp: schar_def simp del: uchar_less_256)

lemma first_digit: "IS_NUM a \<Longrightarrow> a \<noteq> CHR ''0'' \<Longrightarrow>
    \<not> schar a < schar (CHR ''1'') \<and> \<not> schar (CHR ''9'') < schar a"
proof -
  assume a: "IS_NUM a" "a \<noteq> CHR ''0''"
  then have "schar a \<noteq> schar (CHR ''0'')" by simp
  moreover have "schar (CHR ''0'') = 48" "schar (CHR ''1'') = 49" "schar (CHR ''9'') = 57"
    by (simp_all add: schar_def uchar_def)
  ultimately show ?thesis using a(1) by (simp add: IS_NUM_def)
qed

lemma digit_not: "IS_NUM c \<Longrightarrow> c \<noteq> CHR ''.'' \<and> c \<noteq> CR \<and> c \<noteq> LF \<and> c \<noteq> SP \<and> c \<noteq> HT"
  by (auto simp: IS_NUM_def schar_def uchar_def)

lemma version_steps:
  assumes "hp_errno p = HPE_OK" "j < 80 * 1024"
  shows "byte_step (at_byte j s_req_path p) SP = Some (Go (at_byte (Suc j) s_req_http_start p))"
    "byte_step (at_byte j s_req_http_start p) (CHR ''H'') = Some (Go (at_byte (Suc j) s_req_http_H p))"
    "byte_step (at_byte j s_req_http_H p) (CHR ''T'') = Some (Go (at_byte (Suc j) s_req_http_HT p))"
    "byte_step (at_byte j s_req_http_HT p) (CHR ''T'') = Some (Go (at_byte (Suc j) s_req_http_HTT p))"
    "byte_step (at_byte j s_req_http_HTT p) (CHR ''P'') = Some (Go (at_byte (Suc j) s_req_http_HTTP p))"
    "byte_step (at_byte j s_req_http_HTTP p) (CHR ''/'') =
       Some (Go (at_byte (Suc j) s_req_first_http_major p))"
    "byte_step (at_byte j s_req_http_major p) (CHR ''.'') =
       Some (Go (at_byte (Suc j) s_req_first_http_minor p))"
    "byte_step (at_byte j s_req_http_minor p) CR = Some (Go (at_byte (Suc j) s_req_line_almost_done p))"
    "byte_step (at_byte j s_req_line_almost_done p) LF =
       Some (Go (at_byte (Suc j) s_header_field_start p))"
    "IS_NUM a \<Longrightarrow> a \<noteq> CHR ''0'' \<Longrightarrow> byte_step (at_byte j s_req_first_http_major p) a =
       Some (Go (at_byte (Suc j) s_req_http_major (p\<lparr>hp_http_major := of_int (digit_val a)\<rparr>)))"
    "IS_NUM b \<Longrightarrow> byte_step (at_byte j s_req_first_http_minor p) b =
       Some (Go (at_byte (Suc j) s_req_http_minor (p\<lparr>hp_http_minor := of_int (digit_val b)\<rparr>)))"
  using assms
  by (auto intro!: byte_step_at simp: byte_eval ex_req_url_def ex_req_http_start_def
      ex_req_first_http_major_def ex_http_major_def ex_first_http_minor_def ex_req_http_minor_def
      ex_req_line_almost_done_def first_digit)


text \<open>A request line as a client prints it, for one digit versions.\<close>

definition request_line :: "http_method \<Rightarrow> string \<Rightarrow> char \<Rightarrow> char \<Rightarrow> string" where
  "request_line m path a b =
     http_method_str m @ [SP, CHR ''/''] @ path @ '' HTTP/'' @ [a, CHR ''.'', b] @ crlf"

lemma feed_version:
  assumes "hp_errno p = HPE_OK" "hp_state p = s_req_path" "hp_nread p = of_nat j" "j + 11 \<le> 80 * 1024"
    "IS_NUM a" "a \<noteq> CHR ''0''" "IS_NUM b"
  shows "feed p ('' HTTP/'' @ [a, CHR ''.'', b] @ crlf) =
    Some (11, at_byte (j + 11) s_header_field_start
      (p\<lparr>hp_http_major := of_int (digit_val a), hp_http_minor := of_int (digit_val b)\<rparr>))"
proof -
  have "feed (at_byte j s_req_path p) ('' HTTP/'' @ [a, CHR ''.'', b] @ crlf) =
    Some (11, at_byte (j + 11) s_header_field_start
      (p\<lparr>hp_http_major := of_int (digit_val a), hp_http_minor := of_int (digit_val b)\<rparr>))"
  proof -
    have sucs: "(11::nat) = Suc (Suc (Suc (Suc (Suc (Suc (Suc (Suc (Suc (Suc (Suc (0)))))))))))" "j + 11 = Suc (Suc (Suc (Suc (Suc (Suc (Suc (Suc (Suc (Suc (Suc (j)))))))))))" by simp_all
    show ?thesis unfolding sucs using assms(1,4-7)
      by (simp add: version_steps)
  qed
  then show ?thesis using assms(2,3) by (simp add: at_byte_id)
qed

lemma feed_request_line:
  assumes "m \<noteq> HTTP_CONNECT" "\<forall>c \<in> set path. IS_URL_CHAR c" "length path \<le> 80000"
    "IS_NUM a" "a \<noteq> CHR ''0''" "IS_NUM b"
  shows "\<exists>p. feed (http_parser_init HTTP_REQUEST) (request_line m path a b) =
      Some (length (request_line m path a b), p) \<and>
    hp_state p = s_header_field_start \<and> hp_errno p = HPE_OK \<and> hp_method p = m \<and>
    hp_http_major p = of_int (digit_val a) \<and> hp_http_minor p = of_int (digit_val b)"
proof -
  let ?init = "http_parser_init HTTP_REQUEST" and ?s0 = "http_method_str m @ [SP, CHR ''/'']"
  let ?v = "'' HTTP/'' @ [a, CHR ''.'', b] @ crlf"
  from method_read_any [OF assms(1)] obtain p where
    p: "feed ?init ?s0 = Some (length ?s0, p)"
    "hp_state p = s_req_path" "hp_method p = m" "hp_nread p = of_nat (length ?s0)"
    "hp_errno p = HPE_OK" "\<not> hp_upgrade p"
    by (auto simp: method_read_def begin_message_def http_parser_init_def split: option.splits)
  have short: "length ?s0 \<le> 13" using null.method_length_le [of m] by (simp add: http_method_str_def)
  let ?j = "length ?s0 + length path"
  let ?p = "p\<lparr>hp_nread := hp_nread p + of_nat (length path)\<rparr>"
  let ?q = "at_byte (?j + 11) s_header_field_start
      (?p\<lparr>hp_http_major := of_int (digit_val a), hp_http_minor := of_int (digit_val b)\<rparr>)"
  have n: "hp_nread ?p = of_nat ?j" using p(4) by simp
  have "feed ?p ?v = Some (11, ?q)"
    using p n assms(3-) short by (intro feed_version) simp_all
  moreover have "unat (hp_nread p) = length ?s0"
    unfolding p(4) using short by (intro unat_of_nat_u32) simp
  then have "feed p (path @ ?v) = map_option (map_prod ((+) (length path)) id) (feed ?p ?v)"
    using p assms(2,3) short by (intro feed_path) simp_all
  ultimately have "feed p (path @ ?v) = Some (length path + 11, ?q)" by simp
  moreover have "feed ?init (?s0 @ path @ ?v) =
      map_option (map_prod ((+) (length ?s0)) id) (feed p (path @ ?v))"
    by (rule feed_append [OF _ _ p(1,5,6)]) (simp_all add: parser_inv_init)
  ultimately have "feed ?init (?s0 @ path @ ?v) = Some (length ?s0 + (length path + 11), ?q)" by simp
  moreover have "request_line m path a b = ?s0 @ path @ ?v" by (simp add: request_line_def)
  moreover have "length (?s0 @ path @ ?v) = length ?s0 + (length path + 11)" by simp
  ultimately show ?thesis using p by simp
qed


section \<open>Reading lengths\<close>

definition hex_value :: "string \<Rightarrow> nat" where
  "hex_value ds = foldl (\<lambda>n d. n * 16 + nat (unhex d)) 0 ds"

lemma length_digit_exact:
  assumes "unat old * unat base + d < 2 ^ 64 - 1" "0 < unat base"
  shows "\<exists>t. length_digit base (int d) old = Some t \<and> unat t = unat old * unat base + d"
proof -
  let ?t = "old * base + of_int (int d)"
  have d: "unat (of_nat d :: u64) = d" using assms by (simp add: unat_of_nat take_bit_nat_eq_self)
  have t: "unat ?t = unat old * unat base + d"
    using assms(1) d by (simp add: unat_word_ariths)
  have "unat old \<le> unat old * unat base" using assms(2) by simp
  then have "unat old \<le> unat ?t" using t by linarith
  then have "\<not> ?t < old" by (simp add: word_less_nat_alt)
  moreover have "?t \<noteq> ULLONG_MAX"
  proof
    assume "?t = ULLONG_MAX"
    then have "unat ?t = 2 ^ 64 - 1" by (simp add: ULLONG_MAX_def unsigned_minus_1_eq_mask mask_eq_exp_minus_1)
    with t assms(1) show False by simp
  qed
  ultimately show ?thesis using t by (simp add: length_digit_def Let_def)
qed

lemma byte_step_length:
  assumes "hp_errno p = HPE_OK" "j < 80 * 1024" "IS_NUM c" "hp_header_state p = h_content_length"
    "unat (hp_content_length p) * 10 + nat (digit_val c) < 2 ^ 64 - 1"
  shows "\<exists>t. byte_step (at_byte j s_header_value p) c =
      Some (Go (at_byte (Suc j) s_header_value (p\<lparr>hp_content_length := t\<rparr>))) \<and>
    unat t = unat (hp_content_length p) * 10 + nat (digit_val c)"
proof -
  have d: "digit_val c = int (nat (digit_val c))" using digit_val_range [OF assms(3)] by simp
  obtain t where t: "length_digit 10 (digit_val c) (hp_content_length p) = Some t"
    "unat t = unat (hp_content_length p) * 10 + nat (digit_val c)"
    using length_digit_exact [of "hp_content_length p" 10 "nat (digit_val c)"] assms(5) d by auto
  have "byte_step (at_byte j s_header_value p) c =
      Some (Go (at_byte (Suc j) s_header_value (p\<lparr>hp_content_length := t\<rparr>)))"
    using assms t digit_not [OF assms(3)]
    by (intro byte_step_at)
      (simp_all add: byte_eval ex_header_value_def header_value_char_def)
  with t show ?thesis by blast
qed

lemma foldl_value_le: "0 < b \<Longrightarrow> n \<le> foldl (\<lambda>n d. n * b + f d) (n :: nat) ds"
proof (induction ds arbitrary: n)
  case (Cons d ds)
  have "n \<le> n * b + f d" using Cons.prems by (simp add: trans_le_add1)
  also have "\<dots> \<le> foldl (\<lambda>n d. n * b + f d) (n * b + f d) ds" by (rule Cons.IH [OF Cons.prems])
  finally show ?case by simp
qed simp

text \<open>
  Digits of a length in a state \<open>s\<close> that adds them to the content length; \<open>K\<close> is what the
  state needs of the parser.
\<close>

lemma feed_digits:
  assumes step: "\<And>p j c. K p \<Longrightarrow> j < 80 * 1024 \<Longrightarrow> D c \<Longrightarrow> unat (hp_content_length p) * b + f c < 2 ^ 64 - 1 \<Longrightarrow>
      \<exists>t. byte_step (at_byte j s p) c = Some (Go (at_byte (Suc j) s (p\<lparr>hp_content_length := t\<rparr>))) \<and>
        unat t = unat (hp_content_length p) * b + f c"
    and keep: "\<And>p t. K p \<Longrightarrow> K (p\<lparr>hp_content_length := t\<rparr>)" and b: "0 < b"
    and "K p" "j + length ds \<le> 80 * 1024" "\<forall>c \<in> set ds. D c"
    "foldl (\<lambda>n d. n * b + f d) (unat (hp_content_length p)) ds < 2 ^ 64 - 1"
  shows "\<exists>t. feed (at_byte j s p) ds =
      Some (length ds, at_byte (j + length ds) s (p\<lparr>hp_content_length := t\<rparr>)) \<and>
    unat t = foldl (\<lambda>n d. n * b + f d) (unat (hp_content_length p)) ds"
  using assms(4-)
proof (induction ds arbitrary: p j)
  case Nil
  then show ?case by (intro exI [of _ "hp_content_length p"]) simp
next
  case (Cons d ds)
  let ?v = "unat (hp_content_length p) * b + f d"
  from Cons.prems(4) foldl_value_le [OF b, of ?v f ds] have lt: "?v < 2 ^ 64 - 1" by simp
  have "j < 80 * 1024" "D d" using Cons.prems(2,3) by simp_all
  from step [OF Cons.prems(1) this lt] obtain t where t:
    "byte_step (at_byte j s p) d = Some (Go (at_byte (Suc j) s (p\<lparr>hp_content_length := t\<rparr>)))"
    "unat t = ?v"
    by blast
  have "\<exists>t'. feed (at_byte (Suc j) s (p\<lparr>hp_content_length := t\<rparr>)) ds =
      Some (length ds, at_byte (Suc j + length ds) s
        (p\<lparr>hp_content_length := t, hp_content_length := t'\<rparr>)) \<and>
    unat t' = foldl (\<lambda>n d. n * b + f d) (unat (hp_content_length (p\<lparr>hp_content_length := t\<rparr>))) ds"
    using Cons.prems t keep by (intro Cons.IH) simp_all
  with t show ?case by auto
qed

definition decimal_value :: "string \<Rightarrow> nat" where
  "decimal_value ds = foldl (\<lambda>n d. n * 10 + nat (digit_val d)) 0 ds"

lemma feed_content_length:
  assumes "hp_errno p = HPE_OK" "hp_state p = s_header_value_start" "hp_header_state p = h_content_length"
    "unat (hp_nread p) + length ds \<le> 80 * 1024" "ds \<noteq> []" "\<forall>c \<in> set ds. IS_NUM c"
    "decimal_value ds < 2 ^ 64 - 1"
  shows "\<exists>q. feed p ds = Some (length ds, q) \<and> hp_errno q = HPE_OK \<and> hp_state q = s_header_value \<and>
    hp_header_state q = h_content_length \<and> unat (hp_content_length q) = decimal_value ds"
proof -
  obtain d es where ds: "ds = d # es" using assms(5) by (cases ds) auto
  let ?j = "unat (hp_nread p)"
  let ?p = "p\<lparr>hp_index := 0, hp_content_length := of_int (digit_val d)\<rparr>"
  have d: "IS_NUM d" using assms(6) ds by simp
  note range = digit_val_range [OF d]
  obtain k where k: "digit_val d = int k" "k \<le> 9" using range by (cases "digit_val d") auto
  then have u: "unat (of_int (digit_val d) :: u64) = nat (digit_val d)"
    by (simp add: unat_of_nat take_bit_nat_eq_self)
  have "byte_step (at_byte ?j s_header_value_start p) d = Some (Go (at_byte (Suc ?j) s_header_value ?p))"
    using assms(1-4) ds digit_not [OF d] d
    by (intro byte_step_at)
      (simp_all add: byte_eval ex_header_value_start_def header_value_first_def)
  moreover have "at_byte ?j s_header_value_start p = p" using assms(2) by (simp add: at_byte_def)
  moreover have "\<exists>t. feed (at_byte (Suc ?j) s_header_value ?p) es =
      Some (length es, at_byte (Suc ?j + length es) s_header_value (?p\<lparr>hp_content_length := t\<rparr>)) \<and>
    unat t = foldl (\<lambda>n d. n * 10 + nat (digit_val d)) (unat (hp_content_length ?p)) es"
    using assms ds u
    by (intro feed_digits [where K = "\<lambda>p. hp_errno p = HPE_OK \<and> hp_header_state p = h_content_length" and
        D = IS_NUM] byte_step_length)
      (simp_all add: decimal_value_def)
  ultimately show ?thesis using ds u assms(1,3) by (auto simp: decimal_value_def)
qed


lemma unhex_CR: "unhex c \<noteq> - 1 \<Longrightarrow> c \<noteq> CR"
  by (auto simp: unhex_def unhex_tab_def uchar_def)

lemma unhex_nat: "unhex c \<noteq> - 1 \<Longrightarrow> unhex c = int (nat (unhex c)) \<and> nat (unhex c) \<le> 15"
  using null.unhex_range [of c] by (simp add: nat_le_iff)

lemma byte_step_chunk_size:
  assumes "hp_errno p = HPE_OK" "has_flag (hp_flags p) F_CHUNKED" "j < 80 * 1024" "unhex c \<noteq> - 1"
    "unat (hp_content_length p) * 16 + nat (unhex c) < 2 ^ 64 - 1"
  shows "\<exists>t. byte_step (at_byte j s_chunk_size p) c =
      Some (Go (at_byte (Suc j) s_chunk_size (p\<lparr>hp_content_length := t\<rparr>))) \<and>
    unat t = unat (hp_content_length p) * 16 + nat (unhex c)"
proof -
  obtain t where t: "length_digit 16 (unhex c) (hp_content_length p) = Some t"
    "unat t = unat (hp_content_length p) * 16 + nat (unhex c)"
    using length_digit_exact [of "hp_content_length p" 16 "nat (unhex c)"] assms(4,5) unhex_nat [of c]
    by auto
  have "byte_step (at_byte j s_chunk_size p) c =
      Some (Go (at_byte (Suc j) s_chunk_size (p\<lparr>hp_content_length := t\<rparr>)))"
    using assms t unhex_CR [OF assms(4)]
    by (intro byte_step_at)
      (simp_all add: byte_eval ex_chunk_size_def assert_chunked_def assert_then_def)
  with t show ?thesis by blast
qed

lemma feed_chunk_size:
  assumes "hp_errno p = HPE_OK" "hp_state p = s_chunk_size_start" "has_flag (hp_flags p) F_CHUNKED"
    "hp_nread p = 0" "length ds \<le> 80 * 1024" "ds \<noteq> []" "\<forall>c \<in> set ds. unhex c \<noteq> - 1"
    "hex_value ds < 2 ^ 64 - 1"
  shows "\<exists>q. feed p ds = Some (length ds, q) \<and> hp_errno q = HPE_OK \<and> hp_state q = s_chunk_size \<and>
    unat (hp_content_length q) = hex_value ds"
proof -
  obtain d es where ds: "ds = d # es" using assms(6) by (cases ds) auto
  let ?p = "p\<lparr>hp_content_length := of_int (unhex d)\<rparr>"
  have d: "unhex d \<noteq> - 1" using assms(7) ds by simp
  then obtain k where k: "unhex d = int k" "k \<le> 15" using unhex_nat [of d] that [of "nat (unhex d)"] by blast
  then have u: "unat (of_int (unhex d) :: u64) = nat (unhex d)"
    by (simp add: unat_of_nat take_bit_nat_eq_self)
  have "byte_step (at_byte 0 s_chunk_size_start p) d = Some (Go (at_byte (Suc 0) s_chunk_size ?p))"
    using assms(1-4) d
    by (intro byte_step_at)
      (simp_all add: byte_eval ex_chunk_size_start_def assert_chunked_def assert_then_def)
  moreover have "at_byte 0 s_chunk_size_start p = p" using assms(2,4) by (simp add: at_byte_def)
  moreover have "\<exists>t. feed (at_byte (Suc 0) s_chunk_size ?p) es =
      Some (length es, at_byte (Suc 0 + length es) s_chunk_size (?p\<lparr>hp_content_length := t\<rparr>)) \<and>
    unat t = foldl (\<lambda>n d. n * 16 + nat (unhex d)) (unat (hp_content_length ?p)) es"
    using assms ds u
    by (intro feed_digits [where K = "\<lambda>p. hp_errno p = HPE_OK \<and> has_flag (hp_flags p) F_CHUNKED" and
        D = "\<lambda>c. unhex c \<noteq> - 1"] byte_step_chunk_size)
      (simp_all add: hex_value_def)
  ultimately show ?thesis using ds u assms(1) by (auto simp: hex_value_def)
qed


section \<open>Properties\<close>

lemma feed_short:
  assumes "parser_inv p" "hp_errno p = HPE_OK" "feed p xs = Some (n, q)" "n < length xs"
  shows "hp_errno q \<noteq> HPE_OK \<or> hp_upgrade q"
  using assms
proof (induction xs arbitrary: p n)
  case (Cons x xs)
  from byte_step_inv [OF Cons.prems(1,2), of x] show ?case
  proof (elim disjE exE conjE)
    fix p' assume p': "byte_step p x = Some (Go p')" "parser_inv p'" "hp_errno p' = HPE_OK"
    with Cons.prems(3,4) obtain k where "feed p' xs = Some (k, q)" "k < length xs" by auto
    with Cons.IH [OF p'(2,3)] show ?thesis by blast
  qed (use Cons.prems in auto)
qed simp

lemma feed_le:
  assumes "parser_inv p" "hp_errno p = HPE_OK" "feed p xs = Some (n, q)"
  shows "n \<le> length xs"
  using assms
proof (induction xs arbitrary: p n)
  case (Cons x xs)
  from byte_step_inv [OF Cons.prems(1,2), of x] show ?case
  proof (elim disjE exE conjE)
    fix p' assume p': "byte_step p x = Some (Go p')" "parser_inv p'" "hp_errno p' = HPE_OK"
    with Cons.prems(3) obtain k where "feed p' xs = Some (k, q)" "n = Suc k" by auto
    with Cons.IH [OF p'(2,3)] show ?thesis by simp
  qed (use Cons.prems in auto)
qed simp

text \<open>
  C1: \<open>http_parser_execute\<close> returns. Whatever bytes arrive, and whatever a client does that
  keeps to the interface \<open>http_client\<close>, no assertion of the parser fails and no byte is
  executed over and over; at most the bytes given are reported as parsed (a call with no bytes,
  the end of the stream, may report 1), the parser is left in a state it can go on from, and
  the client's own invariant is kept.
\<close>

theorem parser_returns:
  assumes "http_client st I" "parser_inv p" "I u"
  shows "\<exists>n p' u'. http_parser_execute st p u data = Executed n p' u' \<and>
     n \<le> max 1 (length data) \<and> parser_inv p' \<and> I u'"
  using assms by (rule http_client.execute_post)

theorem parser_returns_witness:
  "\<exists>n p' u'. http_parser_execute log_settings (http_parser_init HTTP_BOTH) [] ''GET'' = Executed n p' u' \<and>
     n \<le> max 1 (length ''GET'') \<and> parser_inv p' \<and> True"
  by (rule parser_returns [OF log.http_client_axioms parser_inv_init]) simp

text \<open>
  C3: the buffer does not matter. For a client that leaves the parser alone,
  \<open>http_parser_execute\<close> on a whole buffer takes the same number of bytes and leaves the same
  parser as running the switch on one byte after the other, although the body states take many
  bytes at once and the callbacks get slices of the buffer.
\<close>

theorem parser_bytewise:
  assumes "passive_client st" "parser_inv p" "hp_errno p = HPE_OK" "data \<noteq> []"
  shows "\<exists>n p' u'. http_parser_execute st p u data = Executed n p' u' \<and> feed p data = Some (n, p')"
  using assms by (rule passive_client.execute_feed)

theorem parser_bytewise_witness:
  "\<exists>n p' u'. http_parser_execute log_settings (http_parser_init HTTP_REQUEST) [] ''GET / '' =
     Executed n p' u' \<and> feed (http_parser_init HTTP_REQUEST) ''GET / '' = Some (n, p')"
  by (rule parser_bytewise [OF log.passive_client_axioms parser_inv_init]) simp_all

text \<open>
  C4: a message may be cut anywhere. If a first buffer is taken whole, without error and
  without an upgrade, then parsing the next buffer from the state it leaves ends in the same
  state as parsing both at once, and the counts of parsed bytes add up.
\<close>

theorem parser_segments:
  assumes "passive_client st" "parser_inv p" "hp_errno p = HPE_OK" "xs \<noteq> []" "ys \<noteq> []"
    and "http_parser_execute st p u xs = Executed (length xs) p1 u1"
    and "hp_errno p1 = HPE_OK" "\<not> hp_upgrade p1"
  shows "\<exists>n p2 u2 u2'. http_parser_execute st p1 u1 ys = Executed n p2 u2 \<and>
     http_parser_execute st p u (xs @ ys) = Executed (length xs + n) p2 u2'"
proof -
  have "feed p xs = Some (length xs, p1)"
    using passive_client.execute_feed [OF assms(1-4), of u] assms(6) by auto
  from feed_append [OF assms(2,3) this assms(7,8), of ys]
  have app: "feed p (xs @ ys) = map_option (map_prod ((+) (length xs)) id) (feed p1 ys)" .
  obtain n0 q0 v0 where "http_parser_execute st p u xs = Executed n0 q0 v0" "parser_inv q0"
    using http_client.execute_post [OF passive_client.http_client [OF assms(1)] assms(2)] by blast
  with assms(6) have "parser_inv p1" by simp
  from passive_client.execute_feed [OF assms(1) this assms(7,5), of u1]
    passive_client.execute_feed [OF assms(1-3), of "xs @ ys" u] assms(4) app
  show ?thesis by auto
qed

theorem parser_segments_witness:
  "\<exists>p1 u1 n p2 u2 u2'. http_parser_execute log_settings p1 u1 ''T /'' = Executed n p2 u2 \<and>
     http_parser_execute log_settings (http_parser_init HTTP_REQUEST) [] (''GE'' @ ''T /'') =
       Executed (length ''GE'' + n) p2 u2'"
proof -
  let ?r = "http_parser_execute log_settings (http_parser_init HTTP_REQUEST) [] ''GE''"
  have "\<exists>p1 u1. ?r = Executed (length ''GE'') p1 u1 \<and> hp_errno p1 = HPE_OK \<and> \<not> hp_upgrade p1"
    by (rule exI [of _ "parser_after ?r"], rule exI [of _ "user_after ?r"]) code_simp
  then show ?thesis
    using parser_segments [OF log.passive_client_axioms parser_inv_init, where xs = "''GE''" and ys = "''T /''"]
    by fastforce
qed






text \<open>
  C24: \<open>Content-Length\<close>. From the state after the header's colon, the decimal digits of any
  number below \<open>2 ^ 64 - 1\<close> put exactly this number into \<open>content_length\<close>.
\<close>

theorem content_length_read:
  assumes "passive_client st" "parser_inv p"
    "hp_errno p = HPE_OK" "hp_state p = s_header_value_start" "hp_header_state p = h_content_length"
    "unat (hp_nread p) + length ds \<le> 80 * 1024" "ds \<noteq> []" "\<forall>c \<in> set ds. IS_NUM c"
    "decimal_value ds < 2 ^ 64 - 1"
  shows "\<exists>q u'. http_parser_execute st p u ds = Executed (length ds) q u' \<and>
    hp_errno q = HPE_OK \<and> hp_state q = s_header_value \<and>
    hp_header_state q = h_content_length \<and> unat (hp_content_length q) = decimal_value ds"
  using passive_client.execute_feed [OF assms(1-3,7), of u] feed_content_length [OF assms(3-)] by auto

theorem content_length_read_witness:
  "\<exists>q u'. http_parser_execute log_settings ((http_parser_init HTTP_REQUEST)\<lparr>hp_state := s_header_value_start,
      hp_header_state := h_content_length\<rparr>) [] ''1048576'' = Executed (length ''1048576'') q u' \<and>
    hp_errno q = HPE_OK \<and> hp_state q = s_header_value \<and> hp_header_state q = h_content_length \<and>
    unat (hp_content_length q) = decimal_value ''1048576''"
  by (rule content_length_read [OF log.passive_client_axioms])
    (simp_all add: http_parser_init_def IS_NUM_def schar_def uchar_def decimal_value_def digit_val_def
      parser_inv_def state_inv_def num_inv_def)



text \<open>
  C17: a body of known length is opaque. Exactly \<open>content_length\<close> bytes are taken, whatever
  they are; then the message is over, and what follows is parsed as the next message (or
  refused when the connection was to be closed).
\<close>

theorem body_framing:
  assumes "passive_client st" "parser_inv p" "hp_errno p = HPE_OK" "hp_state p = s_body_identity"
    "length xs = unat (hp_content_length p)" "ys \<noteq> []"
  shows "\<exists>q u1 n q' u2 u2'. http_parser_execute st p u xs = Executed (length xs) q u1 \<and>
     hp_state q = NEW_MESSAGE p \<and> hp_content_length q = 0 \<and>
     http_parser_execute st q u1 ys = Executed n q' u2 \<and>
     http_parser_execute st p u (xs @ ys) = Executed (length xs + n) q' u2'"
proof -
  let ?q = "body_after p (length xs)"
  have ready: "body_ready p" and known: "length_known p"
    using assms by (simp_all add: parser_inv_def state_inv_def body_ready_def body_states_def)
  then have ne: "xs \<noteq> []" using assms(5) by (auto simp: length_known_def unat_eq_zero)
  have app: "feed p (xs @ zs) = map_option (map_prod ((+) (length xs)) id) (feed ?q zs)" for zs
    using assms(5) by (intro feed_body [OF ready ne]) simp
  have "hp_content_length p \<noteq> ULLONG_MAX" using known by (simp add: length_known_def)
  then have q: "hp_state ?q = NEW_MESSAGE p" "hp_content_length ?q = 0" "hp_errno ?q = HPE_OK"
    using assms by (simp_all add: body_after_def Let_def NEW_MESSAGE_def http_should_keep_alive_def
        http_message_needs_eof_def start_state_def ULLONG_MAX_def)
  note run = passive_client.execute_feed [OF assms(1)]
  from run [OF assms(2,3) ne, of u] app [of "[]"] q(3)
  obtain u1 where 1: "http_parser_execute st p u xs = Executed (length xs) ?q u1" by auto
  have "parser_inv ?q"
    using http_client.execute_post [OF passive_client.http_client [OF assms(1)] assms(2), of u xs] 1 by auto
  from run [OF this q(3) assms(6), of u1] run [OF assms(2,3), of "xs @ ys" u] ne app [of ys] 1 q
  show ?thesis by auto
qed

theorem body_framing_witness:
  "\<exists>q u1 n q' u2 u2'.
     http_parser_execute log_settings ((http_parser_init HTTP_REQUEST)\<lparr>hp_state := s_body_identity,
        hp_content_length := 3\<rparr>) [] [CR, LF, NUL] = Executed (length [CR, LF, NUL]) q u1 \<and>
     hp_state q = NEW_MESSAGE ((http_parser_init HTTP_REQUEST)\<lparr>hp_state := s_body_identity,
        hp_content_length := 3\<rparr>) \<and> hp_content_length q = 0 \<and>
     http_parser_execute log_settings q u1 ''GET'' = Executed n q' u2 \<and>
     http_parser_execute log_settings ((http_parser_init HTTP_REQUEST)\<lparr>hp_state := s_body_identity,
        hp_content_length := 3\<rparr>) [] ([CR, LF, NUL] @ ''GET'') =
       Executed (length [CR, LF, NUL] + n) q' u2'"
  by (rule body_framing [OF log.passive_client_axioms])
    (simp_all add: parser_inv_def state_inv_def num_inv_def length_known_def ULLONG_MAX_def http_parser_init_def)

section \<open>Where the parser departs from its intent\<close>

text \<open>
  A misspelt method is accepted. A byte that does not continue the method name is an
  error everywhere but at its third letter, where the test of two special cases has no
  \<open>else\<close>: \<open>GEX\<close> is taken for GET.
\<close>

theorem method_typo_accepted:
  "\<exists>p u. http_parser_execute log_settings (http_parser_init HTTP_REQUEST) []
      (''GEX / HTTP/1.1'' @ crlf @ crlf) = Executed 18 p u \<and>
    hp_errno p = HPE_OK \<and> hp_method p = HTTP_GET \<and>
    u = [MessageBegin, Url ''/'', HeadersComplete, MessageComplete]"
proof -
  let ?r = "http_parser_execute log_settings (http_parser_init HTTP_REQUEST) []
      (''GEX / HTTP/1.1'' @ crlf @ crlf)"
  have "?r = Executed 18 (parser_after ?r) (user_after ?r)" "hp_errno (parser_after ?r) = HPE_OK"
    "hp_method (parser_after ?r) = HTTP_GET"
    "user_after ?r = [MessageBegin, Url ''/'', HeadersComplete, MessageComplete]"
    by code_simp+
  then show ?thesis by blast
qed

text \<open>
   the overflow test of a length is not enough. It only refuses a result below the
  old value, so a \<open>Content-Length\<close> of 30000000000000000000 wraps around and is accepted as
  11553255926290448384.
\<close>

theorem content_length_overflow_accepted:
  "\<exists>p u. http_parser_execute log_settings (http_parser_init HTTP_REQUEST) []
      (''POST / HTTP/1.1'' @ crlf @ ''Content-Length: 30000000000000000000'' @ crlf @ crlf) =
      Executed 57 p u \<and>
    hp_errno p = HPE_OK \<and> hp_state p = s_body_identity \<and> hp_content_length p = 11553255926290448384"
proof -
  let ?r = "http_parser_execute log_settings (http_parser_init HTTP_REQUEST) []
      (''POST / HTTP/1.1'' @ crlf @ ''Content-Length: 30000000000000000000'' @ crlf @ crlf)"
  have "?r = Executed 57 (parser_after ?r) (user_after ?r)" "hp_errno (parser_after ?r) = HPE_OK"
    "hp_state (parser_after ?r) = s_body_identity"
    "hp_content_length (parser_after ?r) = 11553255926290448384"
    by code_simp+
  then show ?thesis by blast
qed

text \<open>
  Bytes above 127 count as the digit 0 of a chunk size: the table \<open>unhex\<close> has 256
  entries, of which only the first 128 are written. Here a chunk of the invalid size E9 (one
  byte) ends the message.
\<close>

theorem chunk_size_high_byte:
  "\<exists>p u. http_parser_execute log_settings (http_parser_init HTTP_RESPONSE) []
      (''HTTP/1.1 200 OK'' @ crlf @ ''Transfer-Encoding: chunked'' @ crlf @ crlf @
       [CHR 0xE9] @ crlf @ crlf) = Executed 52 p u \<and>
    hp_errno p = HPE_OK \<and> last u = MessageComplete"
proof -
  let ?r = "http_parser_execute log_settings (http_parser_init HTTP_RESPONSE) []
      (''HTTP/1.1 200 OK'' @ crlf @ ''Transfer-Encoding: chunked'' @ crlf @ crlf @
       [CHR 0xE9] @ crlf @ crlf)"
  have "?r = Executed 52 (parser_after ?r) (user_after ?r)" "hp_errno (parser_after ?r) = HPE_OK"
    "last (user_after ?r) = MessageComplete"
    by code_simp+
  then show ?thesis by blast
qed

end
