(* ===== verification/Utils.thy ===== *)
theory Utils
  imports Bscope_Prelude
begin

text \<open>
  The string functions of src/src/utils.c and the ones of the C library they rest on.
  A C string is the list of its bytes before the NUL; a pointer with a length is a list.
\<close>

section \<open>The C library\<close>

definition first_char :: "string \<Rightarrow> char" where
  "first_char s = (case s of [] \<Rightarrow> NUL | c # _ \<Rightarrow> c)"

text \<open>
  \<open>strncasecmp\<close> in the C locale, on two byte strings that end in a NUL: the difference of the
  first lower case characters that differ, among the first \<open>n\<close>.
\<close>

fun strncasecmp :: "string \<Rightarrow> string \<Rightarrow> nat \<Rightarrow> int" where
  "strncasecmp s t 0 = 0"
| "strncasecmp s t (Suc n) =
     (let c = c_tolower (first_char s); d = c_tolower (first_char t) in
      if c \<noteq> d then int (uchar c) - int (uchar d)
      else if c = NUL then 0
      else strncasecmp (tl s) (tl t) n)"

definition strcasecmp :: "string \<Rightarrow> string \<Rightarrow> int" where
  "strcasecmp s t = strncasecmp s t (Suc (max (length s) (length t)))"

text \<open>\<open>strtoul\<close> of the four characters \<open>0x..\<close> in base 16.\<close>

definition hex_digit :: "char \<Rightarrow> nat option" where
  "hex_digit c =
     (if 48 \<le> uchar c \<and> uchar c \<le> 57 then Some (uchar c - 48)
      else if 97 \<le> uchar c \<and> uchar c \<le> 102 then Some (uchar c - 87)
      else if 65 \<le> uchar c \<and> uchar c \<le> 70 then Some (uchar c - 55)
      else None)"

definition hex_pair :: "char \<Rightarrow> char \<Rightarrow> nat" where
  "hex_pair a b =
     (case hex_digit a of
        None \<Rightarrow> 0
      | Some x \<Rightarrow> (case hex_digit b of None \<Rightarrow> x | Some y \<Rightarrow> 16 * x + y))"

section \<open>\<open>is_in_list\<close>\<close>

text \<open>
  \<open>test\<close> points into a buffer that goes on after the \<open>n\<close> bytes looked at; a list entry that
  is a star matches everything.
\<close>

fun is_in_list :: "string \<Rightarrow> nat \<Rightarrow> string list \<Rightarrow> bool" where
  "is_in_list test n [] = False"
| "is_in_list test n (e # es) =
     (if e = ''*'' then True
      else if strncasecmp test e n = 0 then True
      else is_in_list test n es)"

section \<open>\<open>urldecode\<close>\<close>

text \<open>
  The loop over \<open>p[0..l-1]\<close>, in place: \<open>i\<close> reads, \<open>j\<close> writes. In its third branch for a
  percent sign too close to the end nothing is written.
\<close>

function urldecode_loop :: "string \<Rightarrow> nat \<Rightarrow> nat \<Rightarrow> string \<times> nat" where
  "urldecode_loop p i j =
     (if i < length p then
        if p ! i = CHR ''%'' then
          if i + 1 < length p \<and> p ! (i + 1) = CHR ''%'' then urldecode_loop (p[j := CHR ''%'']) (i + 2) (j + 1)
          else if i + 2 < length p then
            urldecode_loop (p[j := char_of (hex_pair (p ! (i + 1)) (p ! (i + 2)))]) (i + 3) (j + 1)
          else urldecode_loop p (i + 1) (j + 1)
        else if p ! i = CHR ''+'' then urldecode_loop (p[j := SP]) (i + 1) (j + 1)
        else urldecode_loop (p[j := p ! i]) (i + 1) (j + 1)
      else (p, j))"
  by pat_completeness auto
termination by (relation "measure (\<lambda>(p, i, j). length p - i)") auto

declare urldecode_loop.simps [simp del]

text \<open>The string left in the buffer ends at the first NUL, which may be a decoded one.\<close>

definition c_string :: "string \<Rightarrow> string" where
  "c_string s = takeWhile (\<lambda>c. c \<noteq> NUL) s"

definition urldecode :: "string \<Rightarrow> string" where
  "urldecode p = (case urldecode_loop p 0 0 of (q, j) \<Rightarrow> c_string (take j q))"

section \<open>\<open>strtolower\<close>, \<open>memstr\<close>\<close>

definition strtolower :: "string \<Rightarrow> string" where
  "strtolower s = map c_tolower s"

text \<open>
  \<open>needlesize\<close> is a \<open>char\<close>: the length of the needle modulo 256, as a signed byte. The loop
  is over \<open>k = p - haystack\<close>. \<open>None\<close> is a comparison of a negative size, which C leaves
  undefined; \<open>Some None\<close> is the result NULL.
\<close>

definition needle_size :: "string \<Rightarrow> int" where
  "needle_size needle = sint (of_nat (length needle) :: u8)"

fun memstr_from :: "nat \<Rightarrow> nat \<Rightarrow> string \<Rightarrow> string \<Rightarrow> nat \<Rightarrow> nat option" where
  "memstr_from 0 k hay needle m = None"
| "memstr_from (Suc n) k hay needle m =
     (if take m (drop k hay) = take m needle then Some k
      else memstr_from n (Suc k) hay needle m)"

definition memstr :: "string \<Rightarrow> string \<Rightarrow> nat \<Rightarrow> nat option option" where
  "memstr hay needle sz =
     (let m = needle_size needle in
      if m < 0 then None
      else Some (memstr_from (nat (int sz - m + 1)) 0 hay needle (nat m)))"

section \<open>Matching names\<close>

lemma c_tolower_NUL [simp]: "c_tolower c = NUL \<longleftrightarrow> c = NUL"
proof
  assume c: "c_tolower c = NUL"
  show "c = NUL"
  proof (cases "65 \<le> uchar c \<and> uchar c \<le> 90")
    case True
    then have "uchar (c_tolower c) = uchar c + 32" by (simp add: c_tolower_def uchar_def)
    with c have "uchar NUL = uchar c + 32" by simp
    then show ?thesis by (simp add: uchar_def)
  qed (use c in \<open>simp add: c_tolower_def split: if_splits\<close>)
qed (simp add: c_tolower_def uchar_def)

lemma c_tolower_of_NUL [simp]: "c_tolower NUL = NUL"
  by simp

lemma strncasecmp_0_iff:
  assumes "n \<le> length s" "NUL \<notin> set (take n s)" "NUL \<notin> set t"
  shows "strncasecmp s t n = 0 \<longleftrightarrow> (\<exists>r. map c_tolower t = map c_tolower (take n s) @ r)"
  using assms
proof (induction n arbitrary: s t)
  case (Suc n)
  then obtain c s' where s: "s = c # s'" by (cases s) auto
  show ?case
  proof (cases t)
    case Nil
    have "c_tolower NUL = NUL" by simp
    with Suc.prems s Nil show ?thesis by (auto simp: first_char_def Let_def)
  next
    case (Cons d t')
    with Suc s show ?thesis by (auto simp: first_char_def Let_def)
  qed
qed simp

text \<open>
  A name is in a list when it is, in lower case, a prefix of an entry, or when an entry is a
  star.
\<close>

lemma is_in_list_iff:
  assumes "n \<le> length s" "NUL \<notin> set (take n s)" "\<forall>e \<in> set es. NUL \<notin> set e"
  shows "is_in_list s n es \<longleftrightarrow>
    ''*'' \<in> set es \<or> (\<exists>e \<in> set es. \<exists>r. map c_tolower e = map c_tolower (take n s) @ r)"
  using assms(3) by (induction es) (auto simp: strncasecmp_0_iff [OF assms(1,2)])

section \<open>Decoding in place\<close>

text \<open>The same in one pass over the rest of the string; \<open>p\<close> is the original buffer.\<close>

fun decode :: "string \<Rightarrow> nat \<Rightarrow> string \<Rightarrow> string" where
  "decode p j [] = []"
| "decode p j (c # cs) =
     (if c = CHR ''%'' then
        (case cs of
           [] \<Rightarrow> p ! j # decode p (Suc j) cs
         | a # r \<Rightarrow>
             if a = CHR ''%'' then CHR ''%'' # decode p (Suc j) r
             else (case r of
                 [] \<Rightarrow> p ! j # decode p (Suc j) cs
               | b # r' \<Rightarrow> char_of (hex_pair a b) # decode p (Suc j) r'))
      else if c = CHR ''+'' then SP # decode p (Suc j) cs
      else c # decode p (Suc j) cs)"

lemma take_Suc_update: "j < length q \<Longrightarrow> take (Suc j) (q[j := c]) = take j q @ [c]"
  by (simp add: take_Suc_conv_app_nth)

lemma drop_nth: "i < length p \<Longrightarrow> drop i p = p ! i # drop (Suc i) p"
  by (simp add: Cons_nth_drop_Suc)

lemma urldecode_loop_decode:
  assumes "j \<le> i" "length q = length p" "\<And>k. j \<le> k \<Longrightarrow> k < length p \<Longrightarrow> q ! k = p ! k"
    "urldecode_loop q i j = (q', j')"
  shows "take j' q' = take j q @ decode p j (drop i p)"
  using assms
proof (induction q i j arbitrary: q' j' rule: urldecode_loop.induct)
  case (1 q i j)
  note loop = urldecode_loop.simps [of q i j]
  have len: "length q = length p" by (rule "1.prems"(2))
  show ?case
  proof (cases "i < length p")
    case False
    then show ?thesis using "1.prems" loop by simp
  next
    case True
    then have j: "j < length q" "i < length q" using "1.prems" by simp_all
    have qi: "q ! k = p ! k" if "i \<le> k" "k < length p" for k using "1.prems" that by simp
    have keep: "take (Suc j) (q[j := c]) = take j q @ [c]" for c using j(1) by (rule take_Suc_update)
    have same: "\<And>k. Suc j \<le> k \<Longrightarrow> k < length p \<Longrightarrow> q[j := c] ! k = p ! k" for c using "1.prems"(3) by simp
    consider (percent) "p ! i = CHR ''%''" "i + 1 < length p" "p ! (i + 1) = CHR ''%''"
      | (pair) "p ! i = CHR ''%''" "i + 2 < length p" "p ! (i + 1) \<noteq> CHR ''%''"
      | (cut) "p ! i = CHR ''%''" "\<not> (i + 1 < length p \<and> p ! (i + 1) = CHR ''%'')" "\<not> i + 2 < length p"
      | (plus) "p ! i = CHR ''+''"
      | (other) "p ! i \<noteq> CHR ''%''" "p ! i \<noteq> CHR ''+''"
      by linarith
    then show ?thesis
    proof cases
      case percent
      then have "take j' q' = take (Suc j) (q[j := CHR ''%'']) @ decode p (Suc j) (drop (i + 2) p)"
        using "1.prems" same True qi loop j by (intro "1.IH"(1) [THEN trans]) (simp_all)
      moreover have "drop i p = CHR ''%'' # CHR ''%'' # drop (i + 2) p"
        using percent True drop_nth [of i p] drop_nth [of "Suc i" p] by simp
      ultimately show ?thesis by (simp add: keep)
    next
      case pair
      then have "take j' q' = take (Suc j) (q[j := char_of (hex_pair (p ! (i + 1)) (p ! (i + 2)))]) @
          decode p (Suc j) (drop (i + 3) p)"
        using "1.prems" same True qi loop j by (intro "1.IH"(2) [THEN trans]) (simp_all)
      moreover have "drop i p = CHR ''%'' # p ! (i + 1) # p ! (i + 2) # drop (i + 3) p"
        using pair True drop_nth [of i p] drop_nth [of "Suc i" p] drop_nth [of "Suc (Suc i)" p]
        by (simp add: eval_nat_numeral)
      ultimately show ?thesis using pair by (simp add: keep)
    next
      case cut
      then have nl: "\<not> (i + 1 < length q \<and> q ! (i + 1) = CHR ''%'')" "\<not> i + 2 < length q"
        "q ! i = CHR ''%''"
        using qi [of i] qi [of "i + 1"] len True by auto
      have "urldecode_loop q i j = urldecode_loop q (i + 1) (j + 1)"
        by (subst loop) (use nl j in auto)
      then have "take j' q' = take (Suc j) q @ decode p (Suc j) (drop (i + 1) p)"
        using "1.prems" nl j "1.IH"(3) [of q' j'] by simp
      moreover have "take (Suc j) q = take j q @ [p ! j]"
        using j "1.prems" by (simp add: take_Suc_conv_app_nth)
      moreover have "decode p j (drop i p) = p ! j # decode p (Suc j) (drop (Suc i) p)"
        using cut drop_nth [OF True] drop_nth [of "Suc i" p]
        by (cases "Suc i < length p") auto
      ultimately show ?thesis by simp
    next
      case plus
      then have "take j' q' = take (Suc j) (q[j := SP]) @ decode p (Suc j) (drop (i + 1) p)"
        using "1.prems" same True qi loop j by (intro "1.IH"(4) [THEN trans]) (simp_all)
      then show ?thesis using plus drop_nth [OF True] by (simp add: keep)
    next
      case other
      then have "take j' q' = take (Suc j) (q[j := p ! i]) @ decode p (Suc j) (drop (i + 1) p)"
        using "1.prems" same True qi loop j by (intro "1.IH"(5) [THEN trans]) (simp_all)
      then show ?thesis using other drop_nth [OF True] by (simp add: keep)
    qed
  qed
qed


lemma urldecode_decode: "urldecode p = c_string (decode p 0 p)"
proof -
  obtain q j where "urldecode_loop p 0 0 = (q, j)" by fastforce
  with urldecode_loop_decode [of 0 0 p p q j] show ?thesis by (simp add: urldecode_def)
qed

section \<open>Properties\<close>

text \<open>
  The encodings a client may choose for a character: itself, a plus sign for a space, or a
  percent sign with two hexadecimal digits of either case.
\<close>

definition url_encodings :: "char \<Rightarrow> string set" where
  "url_encodings c =
     {e. e = [c] \<and> c \<noteq> CHR ''%'' \<and> c \<noteq> CHR ''+'' \<or> e = ''+'' \<and> c = SP \<or>
        (\<exists>a b x y. e = [CHR ''%'', a, b] \<and> hex_digit a = Some x \<and> hex_digit b = Some y \<and>
           uchar c = 16 * x + y)}"

inductive url_encoded :: "string \<Rightarrow> string \<Rightarrow> bool" where
  "url_encoded [] []"
| "e \<in> url_encodings c \<Longrightarrow> url_encoded cs es \<Longrightarrow> url_encoded (c # cs) (e @ es)"

lemma hex_digit_not_percent: "hex_digit a = Some x \<Longrightarrow> a \<noteq> CHR ''%''"
  by (auto simp: hex_digit_def uchar_def)

lemma decode_encoded: "url_encoded cs es \<Longrightarrow> decode p j es = cs"
proof (induction arbitrary: j rule: url_encoded.induct)
  case (2 e c cs es)
  have "char_of (uchar c) = c" by (simp add: uchar_def)
  with 2 show ?case
    by (auto simp: url_encodings_def hex_pair_def dest: hex_digit_not_percent)
qed simp

text \<open>
  C27: \<open>urldecode\<close> inverts every URL encoding. Whatever encoding of a NUL free string a
  client sends, decoding it in place gives the string back.
\<close>

theorem urldecode_encoded:
  assumes "url_encoded cs es" "NUL \<notin> set cs"
  shows "urldecode es = cs"
proof -
  have "c_string cs = cs" using assms(2) by (auto simp: c_string_def takeWhile_eq_all_conv)
  then show ?thesis using decode_encoded [OF assms(1)] by (simp add: urldecode_decode)
qed

theorem urldecode_encoded_witness: "urldecode ''a%2b+%C3%a9'' = ''a+ '' @ [CHR 0xC3, CHR 0xA9]"
proof (rule urldecode_encoded)
  have "url_encoded (''a+ '' @ [CHR 0xC3, CHR 0xA9]) (''a'' @ ''%2b'' @ ''+'' @ ''%C3'' @ ''%a9'' @ [])"
    unfolding append.simps(2) [of "CHR ''a''"] append.simps(1)
    by (simp only: append_Cons append_Nil,
        intro url_encoded.intros(2) [of "''a''", simplified] url_encoded.intros(2) [of "''%2b''", simplified]
          url_encoded.intros(2) [of "''+''", simplified] url_encoded.intros(2) [of "''%C3''", simplified]
          url_encoded.intros(2) [of "''%a9''", simplified] url_encoded.intros(1))
      (simp_all add: url_encodings_def hex_digit_def uchar_def)
  then show "url_encoded (''a+ '' @ [CHR 0xC3, CHR 0xA9]) ''a%2b+%C3%a9''" by simp
qed (simp add: uchar_def)

text \<open>
  C28: which names a list catches. A name of \<open>n\<close> bytes in a buffer is caught by a list of
  catch patterns when a pattern is a star, or when the name, without regard to case, is a
  prefix of a pattern: not only the pattern itself.
\<close>

theorem is_in_list_prefix:
  assumes "n \<le> length s" "NUL \<notin> set (take n s)" "\<forall>e \<in> set es. NUL \<notin> set e"
  shows "is_in_list s n es \<longleftrightarrow>
    ''*'' \<in> set es \<or> (\<exists>e \<in> set es. \<exists>r. map c_tolower e = map c_tolower (take n s) @ r)"
  using assms by (rule is_in_list_iff)

theorem is_in_list_prefix_witness:
  "is_in_list ''Ho: x'' 2 [''accept'', ''host''] \<longleftrightarrow>
    ''*'' \<in> set [''accept'', ''host''] \<or> (\<exists>e \<in> set [''accept'', ''host'']. \<exists>r. map c_tolower e =
      map c_tolower (take 2 ''Ho: x'') @ r)"
  by (rule is_in_list_prefix) auto

text \<open>
  \<open>urldecode\<close> with a percent sign too close to the end writes nothing at its place, so a
  byte of the encoded string is left there.
\<close>

theorem urldecode_stale: "urldecode ''%41%'' = ''A4''"
  by code_simp

end
