(* ===== verification/Config.thy ===== *)
theory Config
  imports Utils
begin

text \<open>
  The configuration (src/src/defined.h) and the functions of src/src/main.c that fill it from
  the values of the configuration file and read it: \<open>prepare_catch_code\<close>, \<open>ip_parse\<close>,
  \<open>split_list\<close>, \<open>handler_config\<close>, \<open>test_in_service\<close>.
\<close>

section \<open>The C library\<close>

definition is_dec :: "char \<Rightarrow> bool" where
  "is_dec c \<longleftrightarrow> 48 \<le> uchar c \<and> uchar c \<le> 57"

definition dec_value :: "string \<Rightarrow> nat" where
  "dec_value ds = foldl (\<lambda>n d. n * 10 + (uchar d - 48)) 0 ds"

text \<open>\<open>atoi\<close>: \<open>strtol\<close> in base 10, which saturates at 64 bits, cast to \<open>int\<close>.\<close>

definition c_atoi :: "string \<Rightarrow> int" where
  "c_atoi s =
     (let s1 = dropWhile c_isspace s;
          neg = (first_char s1 = CHR ''-'');
          s2 = (if neg \<or> first_char s1 = CHR ''+'' then tl s1 else s1);
          n = int (dec_value (takeWhile is_dec s2));
          v = max (- (2 ^ 63)) (min (2 ^ 63 - 1) (if neg then - n else n))
      in sint (of_int v :: u32))"

text \<open>\<open>strchr\<close> and a NUL written over the character found: the part before it, the part after.\<close>

definition cut_at :: "char \<Rightarrow> string \<Rightarrow> string \<times> string option" where
  "cut_at c s =
     (let a = takeWhile (\<lambda>d. d \<noteq> c) s in
      (a, if length a < length s then Some (drop (length a + 1) s) else None))"

text \<open>The tokens \<open>strtok\<close> returns one after the other.\<close>

function strtok_all :: "(char \<Rightarrow> bool) \<Rightarrow> string \<Rightarrow> string list" where
  "strtok_all sep s =
     (let s1 = dropWhile sep s in
      if s1 = [] then []
      else takeWhile (\<lambda>c. \<not> sep c) s1 # strtok_all sep (dropWhile (\<lambda>c. \<not> sep c) s1))"
  by pat_completeness auto
termination
proof (relation "measure (length \<circ> snd)", goal_cases)
  case (2 sep s s1)
  then have "\<not> sep (hd s1)" using hd_dropWhile [of sep s] by simp
  then have "dropWhile (\<lambda>c. \<not> sep c) s1 = dropWhile (\<lambda>c. \<not> sep c) (tl s1)"
    using 2(2) by (cases s1) simp_all
  then have "length (dropWhile (\<lambda>c. \<not> sep c) s1) \<le> length (tl s1)"
    using length_dropWhile_le [of "\<lambda>c. \<not> sep c" "tl s1"] by (simp only:)
  moreover have "length s1 \<le> length s" using 2 by (simp add: length_dropWhile_le)
  moreover have "length (tl s1) < length s1" using 2 by (cases s1) auto
  ultimately have "length (dropWhile (\<lambda>c. \<not> sep c) s1) < length s" by linarith
  then show ?case by simp
qed simp

declare strtok_all.simps [simp del]

section \<open>The configuration\<close>

record amqp_master =
  am_host :: string
  am_user :: string
  am_password :: string
  am_vhost :: string
  am_exchange :: string
  am_port :: int

text \<open>
  A NULL pointer is \<open>None\<close>. An array of 255 entries with a length beside it is the list of
  the entries in use. \<open>skip_checksum\<close> is the field of \<open>nids_params\<close> the handler sets,
  \<open>cf_swap_file\<close> the name of the file opened for \<open>swap_fd\<close>.
\<close>

record configuration =
  cf_pid_file :: "string option"
  cf_netif :: "string option"
  cf_node :: string
  cf_swap_file :: "string option"
  cf_skip_checksum :: bool
  cf_daemon_mode :: int
  cf_master :: amqp_master
  cf_hostname :: "string list"
  cf_hostport :: "u16 list"
  cf_hostip :: "(u32 \<times> u32) list"
  cf_catch_code :: "u32 list"
  cf_catch_req_head :: "string list"
  cf_catch_rsp_head :: "string list"
  cf_catch_cookie :: "string list"
  cf_catch_get :: "string list"
  cf_catch_post :: "string list"

text \<open>\<open>bzero\<close> in \<open>main\<close>, and the defaults of \<open>loadconfig\<close>.\<close>

definition empty_config :: configuration where
  "empty_config =
     \<lparr>cf_pid_file = None, cf_netif = None, cf_node = [], cf_swap_file = None,
      cf_skip_checksum = False, cf_daemon_mode = 0,
      cf_master = \<lparr>am_host = [], am_user = [], am_password = [], am_vhost = [], am_exchange = [],
        am_port = 0\<rparr>,
      cf_hostname = [], cf_hostport = [], cf_hostip = [], cf_catch_code = replicate 1000 0,
      cf_catch_req_head = [], cf_catch_rsp_head = [], cf_catch_cookie = [], cf_catch_get = [],
      cf_catch_post = []\<rparr>"

definition default_config :: "configuration \<Rightarrow> configuration" where
  "default_config c = c\<lparr>cf_node := ''unnamed'',
     cf_master := \<lparr>am_host = ''localhost'', am_user = ''guest'', am_password = ''guest'',
       am_vhost = ''/'', am_exchange = ''http-scope'', am_port = 5672\<rparr>\<rparr>"

section \<open>\<open>prepare_catch_code\<close>\<close>

definition char_at :: "string \<Rightarrow> nat \<Rightarrow> char" where
  "char_at s i = (if i < length s then s ! i else NUL)"

definition code_char :: "char \<Rightarrow> bool" where
  "code_char n \<longleftrightarrow> (schar n \<ge> schar (CHR ''0'') \<and> schar n \<le> schar (CHR ''9'')) \<or> n = CHR ''x''"

definition code_match :: "char \<Rightarrow> nat \<Rightarrow> bool" where
  "code_match c i \<longleftrightarrow> int i = schar c - schar (CHR ''0'') \<or> c = CHR ''x''"

definition prepare_catch_code :: "string \<Rightarrow> u32 list \<Rightarrow> u32 list" where
  "prepare_catch_code p codes =
     (if code_char (char_at p 0) \<and> code_char (char_at p 1) \<and> code_char (char_at p 2) then
        fold (\<lambda>i. fold (\<lambda>j. fold (\<lambda>k codes.
            if code_match (char_at p 0) i \<and> code_match (char_at p 1) j \<and> code_match (char_at p 2) k
            then codes[i * 100 + j * 10 + k := 1] else codes)
          [0..<10]) [0..<10]) [0..<10] codes
      else codes)"

section \<open>\<open>ip_parse\<close>\<close>

text \<open>
  What can go wrong: a bad address ends the program, a shift by a negative count or by 32 and
  more is undefined, as is writing behind the end of an array of 255 entries.
\<close>

datatype cfg_error = BadAddress string | UndefinedShift int | ArrayOverflow

fun ip_octets :: "nat \<Rightarrow> u32 \<Rightarrow> string \<Rightarrow> (u32 \<times> string) option" where
  "ip_octets 0 ip s = Some (ip, s)"
| "ip_octets (Suc i) ip s =
     (case cut_at (CHR ''.'') s of
        (a, None) \<Rightarrow> None
      | (a, Some r) \<Rightarrow> ip_octets i (ip + push_bit (8 * Suc i) (of_int (c_atoi a))) r)"

definition ip_mask :: "int \<Rightarrow> cfg_error + u32" where
  "ip_mask bits =
     (if bits = 0 then Inr 0
      else if 0 \<le> 32 - bits \<and> 32 - bits < 32 then Inr (push_bit (nat (32 - bits)) 0xffffffff)
      else Inl (UndefinedShift (32 - bits)))"

text \<open>The entry for \<open>hostip\<close>: the masked address and the mask.\<close>

definition ip_parse :: "string \<Rightarrow> cfg_error + (u32 \<times> u32)" where
  "ip_parse str =
     (case ip_octets 3 0 str of
        None \<Rightarrow> Inl (BadAddress str)
      | Some (ip, s) \<Rightarrow>
          (case cut_at (CHR ''/'') s of (a, m) \<Rightarrow>
            (case (case m of None \<Rightarrow> Inr 0xffffffff | Some b \<Rightarrow> ip_mask (c_atoi b)) of
               Inl e \<Rightarrow> Inl e
             | Inr msk \<Rightarrow> Inr ((ip + of_int (c_atoi a)) AND msk, msk))))"

section \<open>\<open>split_list\<close>\<close>

datatype cfg_list = CFG_HOST_NAME | CFG_HOST_PORT | CFG_HOST_IP | CFG_CATCH_CODE
  | CFG_CATCH_REQ_HEAD | CFG_CATCH_RSP_HEAD | CFG_CATCH_COOKIE | CFG_CATCH_GET | CFG_CATCH_POST

definition append_entry :: "'a list \<Rightarrow> 'a \<Rightarrow> cfg_error + 'a list" where
  "append_entry xs x = (if length xs < 255 then Inr (xs @ [x]) else Inl ArrayOverflow)"

definition set_list :: "('a list \<Rightarrow> configuration) \<Rightarrow> cfg_error + 'a list \<Rightarrow> cfg_error + configuration" where
  "set_list f r = (case r of Inl e \<Rightarrow> Inl e | Inr xs \<Rightarrow> Inr (f xs))"

primrec add_item :: "cfg_list \<Rightarrow> string \<Rightarrow> configuration \<Rightarrow> cfg_error + configuration" where
  "add_item CFG_HOST_NAME p c =
     set_list (\<lambda>x. c\<lparr>cf_hostname := x\<rparr>) (append_entry (cf_hostname c) p)"
| "add_item CFG_HOST_PORT p c =
     set_list (\<lambda>x. c\<lparr>cf_hostport := x\<rparr>) (append_entry (cf_hostport c) (of_int (c_atoi p)))"
| "add_item CFG_CATCH_REQ_HEAD p c =
     set_list (\<lambda>x. c\<lparr>cf_catch_req_head := x\<rparr>) (append_entry (cf_catch_req_head c) p)"
| "add_item CFG_CATCH_RSP_HEAD p c =
     set_list (\<lambda>x. c\<lparr>cf_catch_rsp_head := x\<rparr>) (append_entry (cf_catch_rsp_head c) p)"
| "add_item CFG_CATCH_COOKIE p c =
     set_list (\<lambda>x. c\<lparr>cf_catch_cookie := x\<rparr>) (append_entry (cf_catch_cookie c) p)"
| "add_item CFG_CATCH_GET p c =
     set_list (\<lambda>x. c\<lparr>cf_catch_get := x\<rparr>) (append_entry (cf_catch_get c) p)"
| "add_item CFG_CATCH_POST p c =
     set_list (\<lambda>x. c\<lparr>cf_catch_post := x\<rparr>) (append_entry (cf_catch_post c) p)"
| "add_item CFG_HOST_IP p c =
     (case ip_parse p of
        Inl e \<Rightarrow> Inl e
      | Inr ip \<Rightarrow> set_list (\<lambda>x. c\<lparr>cf_hostip := x\<rparr>) (append_entry (cf_hostip c) ip))"
| "add_item CFG_CATCH_CODE p c =
     Inr (c\<lparr>cf_catch_code := prepare_catch_code p (cf_catch_code c)\<rparr>)"

fun add_items :: "cfg_list \<Rightarrow> string list \<Rightarrow> configuration \<Rightarrow> cfg_error + configuration" where
  "add_items ty [] c = Inr c"
| "add_items ty (p # ps) c = (case add_item ty p c of Inl e \<Rightarrow> Inl e | Inr c' \<Rightarrow> add_items ty ps c')"

definition list_sep :: "char \<Rightarrow> bool" where
  "list_sep c \<longleftrightarrow> c = CHR '','' \<or> c = SP"

definition split_list :: "string \<Rightarrow> cfg_list \<Rightarrow> configuration \<Rightarrow> cfg_error + configuration" where
  "split_list val ty c = add_items ty (strtok_all list_sep val) c"

section \<open>\<open>handler_config\<close>\<close>

text \<open>The result 0 for an unknown name leaves the configuration alone.\<close>

definition upd_master :: "(amqp_master \<Rightarrow> amqp_master) \<Rightarrow> configuration \<Rightarrow> configuration" where
  "upd_master f c = c\<lparr>cf_master := f (cf_master c)\<rparr>"

definition handled :: "configuration \<Rightarrow> cfg_error + (bool \<times> configuration)" where
  "handled c = Inr (True, c)"

definition from_list :: "cfg_error + configuration \<Rightarrow> cfg_error + (bool \<times> configuration)" where
  "from_list r = (case r of Inl e \<Rightarrow> Inl e | Inr c \<Rightarrow> Inr (True, c))"

definition handler_config ::
  "string \<Rightarrow> string \<Rightarrow> string \<Rightarrow> configuration \<Rightarrow> cfg_error + (bool \<times> configuration)" where
  "handler_config section_name name val c =
     (let MATCH = (\<lambda>s n. strcasecmp section_name s = 0 \<and> strcasecmp name n = 0) in
      if MATCH ''master'' ''host'' then handled (upd_master (\<lambda>m. m\<lparr>am_host := val\<rparr>) c)
      else if MATCH ''master'' ''user'' then handled (upd_master (\<lambda>m. m\<lparr>am_user := val\<rparr>) c)
      else if MATCH ''master'' ''password'' then handled (upd_master (\<lambda>m. m\<lparr>am_password := val\<rparr>) c)
      else if MATCH ''master'' ''vhost'' then handled (upd_master (\<lambda>m. m\<lparr>am_vhost := val\<rparr>) c)
      else if MATCH ''master'' ''exchange'' then handled (upd_master (\<lambda>m. m\<lparr>am_exchange := val\<rparr>) c)
      else if MATCH ''master'' ''port'' then handled (upd_master (\<lambda>m. m\<lparr>am_port := c_atoi val\<rparr>) c)
      else if MATCH ''master'' ''swap_file'' then handled (c\<lparr>cf_swap_file := Some val\<rparr>)
      else if MATCH ''http-scope'' ''node-name'' then handled (c\<lparr>cf_node := val\<rparr>)
      else if MATCH ''http-scope'' ''host-name'' then from_list (split_list val CFG_HOST_NAME c)
      else if MATCH ''http-scope'' ''catch-content-by-code'' then
        from_list (split_list val CFG_CATCH_CODE c)
      else if MATCH ''http-scope'' ''catch-request-header'' then
        from_list (split_list val CFG_CATCH_REQ_HEAD c)
      else if MATCH ''http-scope'' ''catch-response-header'' then
        from_list (split_list val CFG_CATCH_RSP_HEAD c)
      else if MATCH ''http-scope'' ''catch-cookie'' then from_list (split_list val CFG_CATCH_COOKIE c)
      else if MATCH ''http-scope'' ''catch-get'' then from_list (split_list val CFG_CATCH_GET c)
      else if MATCH ''http-scope'' ''catch-post'' then from_list (split_list val CFG_CATCH_POST c)
      else if MATCH ''http-scope'' ''host-ip'' then from_list (split_list val CFG_HOST_IP c)
      else if MATCH ''http-scope'' ''host-port'' then from_list (split_list val CFG_HOST_PORT c)
      else if MATCH ''http-scope'' ''daemon-mode'' then
        handled (if cf_daemon_mode c = 0
              then c\<lparr>cf_daemon_mode := if val = ''yes'' then 1 else - 1\<rparr> else c)
      else if MATCH ''http-scope'' ''packet-checksum'' then
        handled (c\<lparr>cf_skip_checksum := val \<noteq> ''yes''\<rparr>)
      else if MATCH ''http-scope'' ''pid-file'' then
        handled (if cf_pid_file c = None then c\<lparr>cf_pid_file := Some val\<rparr> else c)
      else if MATCH ''http-scope'' ''network_interface'' then
        handled (if cf_netif c = None then c\<lparr>cf_netif := Some val\<rparr> else c)
      else Inr (False, c))"

section \<open>\<open>test_in_service\<close>\<close>

text \<open>
  \<open>struct tuple4\<close>: the ports in host order, the addresses in network order, which
  \<open>ntohl\<close> swaps on the little endian machines the program runs on.
\<close>

record tuple4 =
  t4_source :: u16
  t4_dest :: u16
  t4_saddr :: u32
  t4_daddr :: u32

definition ntohl :: "u32 \<Rightarrow> u32" where
  "ntohl x = push_bit 24 (x AND 0xff) OR push_bit 8 (x AND 0xff00) OR
     (drop_bit 8 x AND 0xff00) OR drop_bit 24 x"

fun in_ports :: "u16 list \<Rightarrow> u16 \<Rightarrow> bool" where
  "in_ports [] d = False"
| "in_ports (p # ps) d = (if p = d then True else in_ports ps d)"

fun in_service_loop :: "(u32 \<times> u32) list \<Rightarrow> u16 list \<Rightarrow> tuple4 \<Rightarrow> bool" where
  "in_service_loop [] ports addr = False"
| "in_service_loop ((ip, msk) # ips) ports addr =
     (if ntohl (t4_daddr addr) AND msk = ip \<and> in_ports ports (t4_dest addr) then True
      else in_service_loop ips ports addr)"

definition test_in_service :: "configuration \<Rightarrow> tuple4 \<Rightarrow> bool" where
  "test_in_service c addr = in_service_loop (cf_hostip c) (cf_hostport c) addr"


section \<open>Printed numbers\<close>

text \<open>Decimal notation, as \<open>printf\<close> writes it.\<close>

fun show_nat :: "nat \<Rightarrow> string" where
  "show_nat n = (if n < 10 then [char_of (48 + n)] else show_nat (n div 10) @ [char_of (48 + n mod 10)])"

declare show_nat.simps [simp del]

lemma uchar_char_of [simp]: "uchar (char_of n) = n mod 256"
  by (simp add: uchar_def)

lemma show_nat_dec: "\<forall>c \<in> set (show_nat n). is_dec c"
proof (induction n rule: show_nat.induct)
  case (1 n)
  then show ?case using show_nat.simps [of n] by (auto simp: is_dec_def)
qed

lemma show_nat_ne: "show_nat n \<noteq> []"
  by (subst show_nat.simps) simp

lemma dec_value_show: "dec_value (show_nat n) = n"
proof (induction n rule: show_nat.induct)
  case (1 n)
  then show ?case using show_nat.simps [of n] by (auto simp: dec_value_def)
qed

lemma is_dec_not: "is_dec c \<Longrightarrow> \<not> c_isspace c \<and> c \<noteq> CHR ''-'' \<and> c \<noteq> CHR ''+'' \<and> c \<noteq> CHR ''.'' \<and>
    c \<noteq> CHR ''/'' \<and> \<not> list_sep c \<and> c \<noteq> NUL"
  by (auto simp: is_dec_def c_isspace_def list_sep_def uchar_def)

lemma sint_small: "n < 2 ^ 31 \<Longrightarrow> sint (of_nat n :: u32) = int n"
  by (simp add: signed_of_nat signed_take_bit_int_eq_self)

lemma c_atoi_show:
  assumes "n < 2 ^ 31" "r = [] \<or> \<not> is_dec (hd r)"
  shows "c_atoi (show_nat n @ r) = int n"
proof -
  obtain c cs where c: "show_nat n = c # cs" using show_nat_ne [of n] by (cases "show_nat n") auto
  then have d: "is_dec c" using show_nat_dec [of n] by simp
  note nd = is_dec_not [OF d]
  have "dropWhile c_isspace (show_nat n @ r) = show_nat n @ r" using c nd by simp
  moreover have "first_char (show_nat n @ r) = c" using c by (simp add: first_char_def)
  moreover have "takeWhile is_dec (show_nat n @ r) = show_nat n"
    using assms(2) show_nat_dec [of n] by (cases r) (auto simp: takeWhile_append2)
  ultimately show ?thesis
    using nd assms(1) by (simp add: c_atoi_def Let_def dec_value_show sint_small)
qed

lemma cut_at_sep: "c \<notin> set a \<Longrightarrow> cut_at c (a @ c # r) = (a, Some r)"
proof -
  assume "c \<notin> set a"
  then have "takeWhile (\<lambda>d. d \<noteq> c) (a @ c # r) = a" by (auto simp: takeWhile_append)
  then show ?thesis by (simp add: cut_at_def)
qed

lemma takeWhile_all: "\<forall>x \<in> set xs. P x \<Longrightarrow> takeWhile P xs = xs"
  by (induction xs) auto

lemma cut_at_none: "c \<notin> set a \<Longrightarrow> cut_at c a = (a, None)"
proof -
  assume "c \<notin> set a"
  then have "\<forall>d \<in> set a. d \<noteq> c" by auto
  from takeWhile_all [OF this] show ?thesis by (simp add: cut_at_def Let_def del: takeWhile_eq_all_conv)
qed

section \<open>Addresses and ports\<close>

text \<open>An address with the length of its prefix, as it is written in the configuration.\<close>

definition show_prefix :: "nat \<Rightarrow> nat \<Rightarrow> nat \<Rightarrow> nat \<Rightarrow> nat \<Rightarrow> string" where
  "show_prefix a b c d m = show_nat a @ CHR ''.'' # show_nat b @ CHR ''.'' # show_nat c @
     CHR ''.'' # show_nat d @ CHR ''/'' # show_nat m"

definition address :: "nat \<Rightarrow> nat \<Rightarrow> nat \<Rightarrow> nat \<Rightarrow> u32" where
  "address a b c d = push_bit 24 (of_nat a) + push_bit 16 (of_nat b) + push_bit 8 (of_nat c) + of_nat d"

lemma dec_not_in: "\<not> is_dec c \<Longrightarrow> c \<notin> set (show_nat n)"
  using show_nat_dec [of n] by auto

lemma ip_octets_show:
  assumes "a < 256" "b < 256" "c < 256"
  shows "ip_octets 3 0 (show_nat a @ CHR ''.'' # show_nat b @ CHR ''.'' # show_nat c @ CHR ''.'' # r) =
    Some (push_bit 24 (of_nat a) + push_bit 16 (of_nat b) + push_bit 8 (of_nat c), r)"
proof -
  have dot: "CHR ''.'' \<notin> set (show_nat n)" for n by (rule dec_not_in) (simp add: is_dec_def uchar_def)
  have atoi: "n < 256 \<Longrightarrow> c_atoi (show_nat n) = int n" for n using c_atoi_show [of n "[]"] by simp
  show ?thesis using assms by (simp add: eval_nat_numeral cut_at_sep [OF dot] atoi)
qed

lemma ip_mask_prefix: "m \<le> 32 \<Longrightarrow> ip_mask (int m) = Inr (push_bit (32 - m) (- 1))"
proof (cases "m = 0")
  case False
  assume "m \<le> 32"
  moreover have eq: "(0xffffffff :: u32) = - 1" by simp
  moreover have "nat (32 - int m) = 32 - m" by simp
  ultimately show ?thesis using False unfolding ip_mask_def eq by auto
next
  case True
  have "push_bit 32 (- 1 :: u32) = 0" by (rule bit_word_eqI) (simp add: bit_simps)
  with True show ?thesis by (simp add: ip_mask_def del: push_bit_minus_one)
qed

lemma ip_parse_show:
  assumes "a < 256" "b < 256" "c < 256" "d < 256" "m \<le> 32"
  shows "ip_parse (show_prefix a b c d m) =
    Inr (address a b c d AND push_bit (32 - m) (- 1), push_bit (32 - m) (- 1))"
proof -
  have slash: "CHR ''/'' \<notin> set (show_nat n)" for n by (rule dec_not_in) (simp add: is_dec_def uchar_def)
  have atoi: "n < 256 \<Longrightarrow> c_atoi (show_nat n) = int n" for n using c_atoi_show [of n "[]"] by simp
  show ?thesis using assms
    by (simp add: ip_parse_def show_prefix_def ip_octets_show cut_at_sep [OF slash] atoi
        ip_mask_prefix address_def)
qed

lemma and_prefix: "(x :: u32) AND push_bit k (- 1) = push_bit k (drop_bit k x)"
  by (rule bit_word_eqI) (auto simp: bit_simps)

lemma prefix_eq: "k \<le> 32 \<Longrightarrow> (x :: u32) AND push_bit k (- 1) = y AND push_bit k (- 1) \<longleftrightarrow> drop_bit k x = drop_bit k y"
proof -
  assume "k \<le> 32"
  have "drop_bit k (push_bit k (drop_bit k z)) = drop_bit k z" for z :: u32
    by (rule bit_word_eqI) (auto simp: bit_simps dest: bit_imp_le_length)
  then show ?thesis unfolding and_prefix by metis
qed

lemma in_ports_iff: "in_ports ps d \<longleftrightarrow> d \<in> set ps"
  by (induction ps) auto

lemma test_in_service_iff:
  "test_in_service c addr \<longleftrightarrow> t4_dest addr \<in> set (cf_hostport c) \<and>
     (\<exists>(ip, m) \<in> set (cf_hostip c). ntohl (t4_daddr addr) AND m = ip)"
proof -
  have "in_service_loop ips ports addr \<longleftrightarrow> t4_dest addr \<in> set ports \<and>
     (\<exists>(ip, m) \<in> set ips. ntohl (t4_daddr addr) AND m = ip)" for ips ports
    by (induction ips ports addr rule: in_service_loop.induct) (auto simp: in_ports_iff)
  then show ?thesis by (simp add: test_in_service_def)
qed

lemma strtok_all_one:
  assumes "s \<noteq> []" "\<forall>c \<in> set s. \<not> sep c"
  shows "strtok_all sep s = [s]"
proof -
  have "dropWhile sep s = s" using assms by (cases s) auto
  moreover have "takeWhile (\<lambda>c. \<not> sep c) s = s" using assms(2) by (intro takeWhile_all)
  moreover have "dropWhile (\<lambda>c. \<not> sep c) s = []" using assms(2) by auto
  moreover have "strtok_all sep [] = []" by (simp add: strtok_all.simps)
  ultimately have eqs: "dropWhile sep s = s" "takeWhile (\<lambda>c. \<not> sep c) s = s"
    "dropWhile (\<lambda>c. \<not> sep c) s = []" "strtok_all sep [] = []" by blast+
  show ?thesis using assms(1) by (subst strtok_all.simps) (simp add: eqs Let_def)
qed


section \<open>Status codes\<close>

text \<open>A function that writes 1 at the indices of a set and nothing else.\<close>

definition writes :: "nat set \<Rightarrow> (u32 list \<Rightarrow> u32 list) \<Rightarrow> bool" where
  "writes S h \<longleftrightarrow> (\<forall>codes. length (h codes) = length codes \<and>
     (\<forall>n < length codes. h codes ! n = (if n \<in> S then 1 else codes ! n)))"

lemma writes_if: "writes (if b then {i} else {}) (\<lambda>codes. if b then codes[i := 1] else codes)"
  by (auto simp: writes_def nth_list_update)

lemma writes_fold: "(\<And>x. writes (S x) (h x)) \<Longrightarrow> writes (\<Union>x \<in> set xs. S x) (fold h xs)"
proof (induction xs)
  case Nil
  then show ?case by (simp add: writes_def)
next
  case (Cons x xs)
  then have "writes (S x) (h x)" "writes (\<Union>x \<in> set xs. S x) (fold h xs)" by simp_all
  then show ?case by (simp add: writes_def)
qed

definition code_hits :: "string \<Rightarrow> nat set" where
  "code_hits p = (\<Union>i \<in> set [0..<10]. \<Union>j \<in> set [0..<10]. \<Union>k \<in> set [0..<10].
      if code_match (char_at p 0) i \<and> code_match (char_at p 1) j \<and> code_match (char_at p 2) k
      then {i * 100 + j * 10 + k} else {})"

lemma prepare_catch_code_writes:
  assumes "code_char (char_at p 0)" "code_char (char_at p 1)" "code_char (char_at p 2)"
  shows "writes (code_hits p) (prepare_catch_code p)"
proof -
  let ?b = "\<lambda>i j k. code_match (char_at p 0) i \<and> code_match (char_at p 1) j \<and> code_match (char_at p 2) k"
  have "writes (code_hits p)
    (fold (\<lambda>i. fold (\<lambda>j. fold (\<lambda>k codes. if ?b i j k then codes[i * 100 + j * 10 + k := 1] else codes)
          [0..<10]) [0..<10]) [0..<10])"
    unfolding code_hits_def by (intro writes_fold writes_if)
  moreover have "prepare_catch_code p =
    fold (\<lambda>i. fold (\<lambda>j. fold (\<lambda>k codes. if ?b i j k then codes[i * 100 + j * 10 + k := 1] else codes)
          [0..<10]) [0..<10]) [0..<10]"
    using assms by (intro ext) (simp add: prepare_catch_code_def)
  ultimately show ?thesis by simp
qed

lemma three_digits:
  assumes "i < 10" "j < 10" "k < (10::nat)"
  shows "(i * 100 + j * 10 + k) div 100 = i" "(i * 100 + j * 10 + k) div 10 mod 10 = j"
    "(i * 100 + j * 10 + k) mod 10 = k"
proof -
  have e: "i * 100 + j * 10 + k = k + (i * 10 + j) * 10" by simp
  show "(i * 100 + j * 10 + k) mod 10 = k"
    unfolding e mod_mult_self1 using assms(3) by simp
  have d: "(i * 100 + j * 10 + k) div 10 = j + i * 10"
    unfolding e using div_mult_self1 [of "10::nat" k "i * 10 + j"] assms(3) by simp
  show "(i * 100 + j * 10 + k) div 10 mod 10 = j"
    unfolding d mod_mult_self1 using assms(2) by simp
  have "(i * 100 + j * 10 + k) div 100 = (i * 100 + j * 10 + k) div 10 div 10"
    by (simp flip: div_mult2_eq)
  also have "\<dots> = i" unfolding d using div_mult_self1 [of "10::nat" j i] assms(2) by simp
  finally show "(i * 100 + j * 10 + k) div 100 = i" .
qed

lemma code_hits_iff:
  assumes "n < 1000"
  shows "n \<in> code_hits p \<longleftrightarrow> code_match (char_at p 0) (n div 100) \<and>
    code_match (char_at p 1) (n div 10 mod 10) \<and> code_match (char_at p 2) (n mod 10)"
    (is "_ \<longleftrightarrow> ?b (n div 100) (n div 10 mod 10) (n mod 10)")
proof
  assume "n \<in> code_hits p"
  then obtain i j k where mem: "i \<in> set [0..<10]" "j \<in> set [0..<10]" "k \<in> set [0..<10]"
    "n \<in> (if ?b i j k then {i * 100 + j * 10 + k} else {})"
    unfolding code_hits_def UN_iff by blast
  then have lt: "i < 10" "j < 10" "k < 10" by simp_all
  have bn: "?b i j k \<and> n = i * 100 + j * 10 + k"
    using mem(4) by (cases "?b i j k") (simp_all only: if_True if_False singleton_iff empty_iff simp_thms)
  then have b: "?b i j k" and n: "n = i * 100 + j * 10 + k" by blast+
  show "?b (n div 100) (n div 10 mod 10) (n mod 10)" unfolding n three_digits [OF lt] by (rule b)
next
  assume b: "?b (n div 100) (n div 10 mod 10) (n mod 10)"
  have n: "n = n div 100 * 100 + n div 10 mod 10 * 10 + n mod 10"
  proof -
    have "n = n div 10 * 10 + n mod 10" by simp
    moreover have "n div 10 = n div 10 div 10 * 10 + n div 10 mod 10" by simp
    moreover have "n div 10 div 10 = n div 100" by (simp flip: div_mult2_eq)
    ultimately show ?thesis by linarith
  qed
  have "n div 100 \<in> set [0..<10]" "n div 10 mod 10 \<in> set [0..<10]" "n mod 10 \<in> set [0..<10]"
    unfolding set_upt atLeastLessThan_iff using assms by (simp_all add: less_mult_imp_div_less)
  moreover have "n \<in> (if ?b (n div 100) (n div 10 mod 10) (n mod 10)
      then {n div 100 * 100 + n div 10 mod 10 * 10 + n mod 10} else {})"
    using b n by (simp only: if_True singleton_iff simp_thms)
  ultimately show "n \<in> code_hits p" unfolding code_hits_def UN_iff by (intro bexI)
qed

lemma prepare_catch_code_length [simp]: "length (prepare_catch_code p codes) = length codes"
proof (cases "code_char (char_at p 0) \<and> code_char (char_at p 1) \<and> code_char (char_at p 2)")
  case True
  then show ?thesis using prepare_catch_code_writes [of p] by (simp add: writes_def)
next
  case False
  then show ?thesis by (auto simp: prepare_catch_code_def)
qed

section \<open>Properties\<close>

text \<open>
  C29: the codes a pattern selects. A pattern of three characters, each a digit or an x, marks
  exactly the status codes whose three digits it fits, keeps every other entry of the table of
  1000 codes, and never writes outside of it.
\<close>

theorem catch_code_pattern:
  assumes "code_char (char_at p 0)" "code_char (char_at p 1)" "code_char (char_at p 2)"
    and "length codes = 1000" "n < 1000"
  shows "length (prepare_catch_code p codes) = 1000 \<and> prepare_catch_code p codes ! n =
    (if code_match (char_at p 0) (n div 100) \<and> code_match (char_at p 1) (n div 10 mod 10) \<and>
        code_match (char_at p 2) (n mod 10) then 1 else codes ! n)"
  using prepare_catch_code_writes [OF assms(1-3)] code_hits_iff [OF assms(5), of p] assms(4,5)
  by (simp add: writes_def)

theorem catch_code_pattern_witness:
  "length (prepare_catch_code ''5x0'' (replicate 1000 0)) = 1000 \<and>
    prepare_catch_code ''5x0'' (replicate 1000 0) ! 530 =
    (if code_match (char_at ''5x0'' 0) (530 div 100) \<and> code_match (char_at ''5x0'' 1) (530 div 10 mod 10) \<and>
        code_match (char_at ''5x0'' 2) (530 mod 10) then 1 else replicate 1000 0 ! 530)"
  by (rule catch_code_pattern) (simp_all add: code_char_def char_at_def schar_def uchar_def)

lemma match_host_ip:
  "strcasecmp ''http-scope'' ''master'' \<noteq> 0" "strcasecmp ''http-scope'' ''http-scope'' = 0"
  "strcasecmp ''host-ip'' ''node-name'' \<noteq> 0" "strcasecmp ''host-ip'' ''host-name'' \<noteq> 0"
  "strcasecmp ''host-ip'' ''catch-content-by-code'' \<noteq> 0"
  "strcasecmp ''host-ip'' ''catch-request-header'' \<noteq> 0"
  "strcasecmp ''host-ip'' ''catch-response-header'' \<noteq> 0"
  "strcasecmp ''host-ip'' ''catch-cookie'' \<noteq> 0" "strcasecmp ''host-ip'' ''catch-get'' \<noteq> 0"
  "strcasecmp ''host-ip'' ''catch-post'' \<noteq> 0" "strcasecmp ''host-ip'' ''host-ip'' = 0"
  by code_simp+

text \<open>
  C30: address prefixes. The line \<open>host-ip = a.b.c.d/m\<close> makes the monitor serve, besides what
  it served before, exactly the connections to a served port whose destination address agrees
  with \<open>a.b.c.d\<close> in the first \<open>m\<close> bits (for \<open>m = 0\<close>, all).
\<close>

theorem host_ip_prefix:
  assumes "a < 256" "b < 256" "c < 256" "d < 256" "m \<le> 32" "length (cf_hostip cfg) < 255"
  shows "\<exists>cfg'. handler_config ''http-scope'' ''host-ip'' (show_prefix a b c d m) cfg = Inr (True, cfg') \<and>
    (\<forall>addr. test_in_service cfg' addr \<longleftrightarrow> test_in_service cfg addr \<or>
      (t4_dest addr \<in> set (cf_hostport cfg) \<and>
       drop_bit (32 - m) (ntohl (t4_daddr addr)) = drop_bit (32 - m) (address a b c d)))"
proof -
  let ?s = "show_prefix a b c d m"
  let ?cfg = "cfg\<lparr>cf_hostip := cf_hostip cfg @
    [(address a b c d AND push_bit (32 - m) (- 1), push_bit (32 - m) (- 1))]\<rparr>"
  have "\<forall>x \<in> set ?s. \<not> list_sep x"
    using show_nat_dec is_dec_not
    by (auto simp: show_prefix_def) (auto simp: list_sep_def)
  then have "split_list ?s CFG_HOST_IP cfg = add_items CFG_HOST_IP [?s] cfg"
    by (simp add: split_list_def strtok_all_one show_prefix_def)
  also have "\<dots> = Inr ?cfg"
    using assms(6) by (simp add: ip_parse_show [OF assms(1-5)] append_entry_def set_list_def)
  finally have h: "handler_config ''http-scope'' ''host-ip'' ?s cfg = Inr (True, ?cfg)"
    by (simp add: handler_config_def from_list_def match_host_ip)
  have "test_in_service ?cfg addr \<longleftrightarrow> test_in_service cfg addr \<or>
      (t4_dest addr \<in> set (cf_hostport cfg) \<and>
       drop_bit (32 - m) (ntohl (t4_daddr addr)) = drop_bit (32 - m) (address a b c d))" for addr
    using prefix_eq [of "32 - m" "ntohl (t4_daddr addr)" "address a b c d"]
    by (auto simp: test_in_service_iff)
  with h show ?thesis by blast
qed

theorem host_ip_prefix_witness:
  "\<exists>cfg'. handler_config ''http-scope'' ''host-ip'' (show_prefix 10 0 0 0 8) empty_config = Inr (True, cfg') \<and>
    (\<forall>addr. test_in_service cfg' addr \<longleftrightarrow> test_in_service empty_config addr \<or>
      (t4_dest addr \<in> set (cf_hostport empty_config) \<and>
       drop_bit (32 - 8) (ntohl (t4_daddr addr)) = drop_bit (32 - 8) (address 10 0 0 0)))"
  by (rule host_ip_prefix) (simp_all add: empty_config_def)

end
