(* ===== verification/Status.thy ===== *)
theory Status
  imports Config "HOL-Library.Signed_Division"
begin

text \<open>
  The shared memory block of src/src/status.c: the request counters and the log, a ring of
  length prefixed records that the worker writes (\<open>status_logpush\<close>) and another process
  reads (\<open>show_log\<close>).
\<close>

section \<open>The block\<close>

definition SHMEM_SIZE :: nat where "SHMEM_SIZE = 8 * 1024 * 1024"
definition RPS_N :: nat where "RPS_N = 600"
definition LOG_BUF_SIZE :: nat where "LOG_BUF_SIZE = 8192"

text \<open>
  The offset of the member \<open>data\<close>: 4 + 4 bytes, 600 pairs of 16 bytes, 4 bytes, 2 bytes. What
  follows up to the end of the mapping is the log; \<open>st_data\<close> maps an offset from \<open>data\<close> to
  the byte there.
\<close>

definition DATA_OFFSET :: nat where "DATA_OFFSET = 4 + 4 + 16 * RPS_N + 4 + 2"

definition DATA_SIZE :: nat where "DATA_SIZE = SHMEM_SIZE - DATA_OFFSET"

record status =
  st_pid :: int
  st_conn :: u32
  st_rps :: "(int \<times> u32) list"
  st_p :: u32
  st_alive :: bool
  st_life :: int
  st_data :: "nat \<Rightarrow> char"

text \<open>\<open>status_init\<close> with \<open>create\<close>: the block is zeroed, then \<open>pid\<close> and \<open>alive\<close> are set.\<close>

definition status_init :: "int \<Rightarrow> status" where
  "status_init pid = \<lparr>st_pid = pid, st_conn = 0, st_rps = replicate RPS_N (0, 0), st_p = 0,
     st_alive = True, st_life = 0, st_data = (\<lambda>_. NUL)\<rparr>"

text \<open>\<open>status_shutdown\<close> of the master.\<close>

definition status_shutdown :: "status \<Rightarrow> status" where
  "status_shutdown s = s\<lparr>st_alive := False\<rparr>"

text \<open>The name of the shared memory object: a hash of the path of the pid file.\<close>

definition shm_hash :: "string \<Rightarrow> u32" where
  "shm_hash s = foldl (\<lambda>h c. h * 33 + of_int (schar c)) 0 s"

definition shm_id :: "string \<Rightarrow> string" where
  "shm_id pid_file = ''bscope.'' @ show_nat (unat (shm_hash pid_file mod 65535))"

section \<open>Requests per second\<close>

text \<open>The counter part of \<open>request_begin\<close> in callback.c; \<open>now\<close> is not negative.\<close>

definition rps_index :: "int \<Rightarrow> nat" where
  "rps_index now = nat (now mod int RPS_N)"

definition rps_count :: "int \<Rightarrow> (int \<times> u32) list \<Rightarrow> (int \<times> u32) list" where
  "rps_count now rps =
     (let i = rps_index now in
      if fst (rps ! i) = now then rps[i := (now, snd (rps ! i) + 1)]
      else rps[i := (now, 1)])"

text \<open>
  The sums of \<open>status_mon\<close>: the last second, and the totals over the last 60 and the last
  599 seconds, which it prints divided by 60 and by \<open>RPS_N\<close>. \<open>ctime - i\<close> is an
  \<open>unsigned int\<close>.
\<close>

definition rps_value :: "(int \<times> u32) list \<Rightarrow> int \<Rightarrow> u32" where
  "rps_value rps t =
     (let t2 = uint (of_int t :: u32) in
      if fst (rps ! rps_index t2) = t2 then snd (rps ! rps_index t2) else 0)"

definition status_mon :: "status \<Rightarrow> int \<Rightarrow> u32 \<times> u32 \<times> u32 \<times> u32" where
  "status_mon s ctime =
     (st_conn s, snd (st_rps s ! rps_index (ctime - 1)),
      sum_list (map (\<lambda>i. rps_value (st_rps s) (ctime - int i)) [1..<61]),
      sum_list (map (\<lambda>i. rps_value (st_rps s) (ctime - int i)) [1..<RPS_N]))"

section \<open>The log\<close>

definition mem_write :: "nat \<Rightarrow> string \<Rightarrow> (nat \<Rightarrow> char) \<Rightarrow> nat \<Rightarrow> char" where
  "mem_write off bs m i = (if off \<le> i \<and> i < off + length bs then bs ! (i - off) else m i)"

definition u16_bytes :: "u16 \<Rightarrow> string" where
  "u16_bytes n = [char_of (unat (n AND 0xff)), char_of (unat (drop_bit 8 n))]"

definition read_u16 :: "(nat \<Rightarrow> char) \<Rightarrow> nat \<Rightarrow> u16" where
  "read_u16 m off = of_nat (uchar (m off)) OR push_bit 8 (of_nat (uchar (m (off + 1))))"

text \<open>\<open>push_data\<close>: \<open>off\<close> is the offset of the pointer it is given.\<close>

definition push_data :: "nat \<Rightarrow> string \<Rightarrow> u16 \<Rightarrow> status \<Rightarrow> status" where
  "push_data off bytes n s =
     s\<lparr>st_data := mem_write (off + 2) (take (unat n) bytes) (mem_write off (u16_bytes n) (st_data s)),
       st_p := st_p s + ucast n + 2\<rparr>"

text \<open>\<open>life\<close> is a signed \<open>char\<close>: the remainder is that of C, the result is cast to a byte.\<close>

definition next_life :: "int \<Rightarrow> int" where
  "next_life l = sint (of_int ((l + 1) smod 255) :: u8)"

text \<open>The message comes with the NUL that ends it; \<open>size\<close> is its length without it.\<close>

definition status_logpush :: "string \<Rightarrow> status \<Rightarrow> status" where
  "status_logpush msg s =
     (let sz = of_nat (length msg) :: u16; bytes = msg @ [NUL] in
      if ucast sz + st_p s + 4 \<ge> of_nat SHMEM_SIZE - (of_nat DATA_OFFSET :: u32) then
        push_data 0 bytes (sz + 1)
          (s\<lparr>st_data := mem_write (unat (st_p s)) (u16_bytes 65535) (st_data s),
             st_p := 0, st_life := next_life (st_life s)\<rparr>)
      else push_data (unat (st_p s)) bytes (sz + 1) s)"

text \<open>
  One call of \<open>show_log\<close> on what the block holds: at the end it waits, a record that cannot be
  read or was overwritten sends it to the start of the ring, otherwise a record is printed.
\<close>

datatype log_step = AtEnd | Restart int | Show string u32

function c_string_at :: "nat \<Rightarrow> (nat \<Rightarrow> char) \<Rightarrow> nat \<Rightarrow> string" where
  "c_string_at fuel m off =
     (if fuel = 0 \<or> m off = NUL then [] else m off # c_string_at (fuel - 1) m (off + 1))"
  by pat_completeness auto
termination by (relation "measure (\<lambda>(fuel, m, off). fuel)") auto

declare c_string_at.simps [simp del]

definition show_log_step :: "status \<Rightarrow> int \<Rightarrow> u32 \<Rightarrow> log_step" where
  "show_log_step s i p =
     (if i = st_life s \<and> p = st_p s then AtEnd
      else let l = read_u16 (st_data s) (unat p) in
        if unat l > LOG_BUF_SIZE \<or> (i \<noteq> st_life s \<and> st_p s > p) then Restart (st_life s)
        else Show (c_string_at DATA_SIZE (st_data s) (unat p + 2)) (p + 2 + ucast l))"

text \<open>What the reader prints until it waits, with fuel for the calls.\<close>

fun show_log :: "nat \<Rightarrow> status \<Rightarrow> int \<Rightarrow> u32 \<Rightarrow> string list option" where
  "show_log 0 s i p = None"
| "show_log (Suc n) s i p =
     (case show_log_step s i p of
        AtEnd \<Rightarrow> Some []
      | Restart i' \<Rightarrow> show_log n s i' 0
      | Show msg p' \<Rightarrow> map_option ((#) msg) (show_log n s i p'))"


section \<open>Records in memory\<close>

lemma DATA_SIZE_val: "DATA_SIZE = 8378994"
  by (simp add: DATA_SIZE_def SHMEM_SIZE_def DATA_OFFSET_def RPS_N_def)

lemma unat_u16: "n \<le> 8192 \<Longrightarrow> unat (of_nat n :: u16) = n"
  by (simp add: unat_of_nat take_bit_nat_eq_self)

lemma ucast_u16: "n \<le> 8192 \<Longrightarrow> (ucast (of_nat n :: u16) :: u32) = of_nat n"
  by (rule word_unat_eq_iff [THEN iffD2])
    (simp add: unsigned_ucast_eq unat_of_nat take_bit_nat_eq_self)

lemma unat_u32: "n \<le> 9000000 \<Longrightarrow> unat (of_nat n :: u32) = n"
  by (simp add: unat_of_nat take_bit_nat_eq_self)

lemma mem_write_out: "i < off \<or> off + length bs \<le> i \<Longrightarrow> mem_write off bs m i = m i"
  by (auto simp: mem_write_def)

lemma mem_write_in: "k < length bs \<Longrightarrow> mem_write off bs m (off + k) = bs ! k"
  by (simp add: mem_write_def)

lemma read_u16_write: "read_u16 (mem_write off (u16_bytes n) m) off = n"
proof -
  have lo: "unat (n AND 0xff) < 256"
  proof -
    have "n AND 0xff \<le> 0xff" by (rule word_and_le1)
    then show ?thesis by (simp add: word_le_nat_alt)
  qed
  have n: "unat n < 2 ^ LENGTH(16)" by (rule unsigned_less)
  then have tk: "take_bit LENGTH(16) (unat n) = unat n" by (simp only: take_bit_nat_eq_self)
  have "unat (drop_bit 8 n) = drop_bit 8 (take_bit LENGTH(16) (unat n))" by (rule unsigned_drop_bit_eq)
  also have "\<dots> = unat n div 2 ^ 8" by (simp only: tk drop_bit_eq_div)
  finally have hi: "unat (drop_bit 8 n) < 256" using n by (simp del: drop_bit_numeral_bit0)
  have "n = (n AND 0xff) OR push_bit 8 (drop_bit 8 n)"
  proof -
    have eq: "(0xff :: u16) = mask 8" by (simp add: mask_eq_exp_minus_1)
    show ?thesis unfolding eq
      by (rule bit_word_eqI, simp only: bit_or_iff bit_and_iff bit_mask_iff bit_push_bit_iff
          bit_drop_bit_eq o_def possible_bit_word) (auto, metis le_add_diff_inverse not_le)
  qed
  with lo hi show ?thesis
    by (simp add: read_u16_def mem_write_def u16_bytes_def)
qed

definition record_at :: "(nat \<Rightarrow> char) \<Rightarrow> nat \<Rightarrow> string \<Rightarrow> bool" where
  "record_at m off msg \<longleftrightarrow> read_u16 m off = of_nat (length msg + 1) \<and>
     (\<forall>k \<le> length msg. m (off + 2 + k) = (msg @ [NUL]) ! k)"

lemma c_string_at_record:
  assumes "\<forall>k \<le> length msg. m (off + k) = (msg @ [NUL]) ! k" "NUL \<notin> set msg" "length msg < fuel"
  shows "c_string_at fuel m off = msg"
  using assms
proof (induction msg arbitrary: off fuel)
  case Nil
  then show ?case by (simp add: c_string_at.simps [of fuel])
next
  case (Cons c cs)
  have "m off = c" using Cons.prems(1) [rule_format, of 0] by simp
  moreover have "\<forall>k \<le> length cs. m (off + 1 + k) = (cs @ [NUL]) ! k"
  proof (intro allI impI)
    fix k assume "k \<le> length cs"
    then show "m (off + 1 + k) = (cs @ [NUL]) ! k" using Cons.prems(1) [rule_format, of "Suc k"] by simp
  qed
  ultimately show ?case using Cons.IH [of "off + 1" "fuel - 1"] Cons.prems
    by (subst c_string_at.simps) auto
qed

definition ring_ok :: "status \<Rightarrow> bool" where
  "ring_ok s \<longleftrightarrow> unat (st_p s) + 2 \<le> DATA_SIZE \<and> - 128 \<le> st_life s \<and> st_life s \<le> 127"

definition log_msg :: "string \<Rightarrow> bool" where
  "log_msg msg \<longleftrightarrow> length msg < LOG_BUF_SIZE \<and> NUL \<notin> set msg"

lemma log_msg_len: "log_msg msg \<Longrightarrow> length msg \<le> 8191 \<and> NUL \<notin> set msg"
  by (simp add: log_msg_def LOG_BUF_SIZE_def)

lemma push_record:
  fixes old off
  assumes "log_msg msg"
  defines "m \<equiv> mem_write (off + 2) (msg @ [NUL]) (mem_write off (u16_bytes (of_nat (length msg + 1))) old)"
  shows "record_at m off msg" "\<And>i. i < off \<or> off + length msg + 3 \<le> i \<Longrightarrow> m i = old i"
proof -
  have "m i = mem_write off (u16_bytes (of_nat (length msg + 1))) old i" if "i < off + 2" for i
    unfolding m_def using that by (intro mem_write_out) simp
  then have "read_u16 m off = of_nat (length msg + 1)"
    using read_u16_write [of off "of_nat (length msg + 1)" old] by (simp add: read_u16_def)
  moreover have "m (off + 2 + k) = (msg @ [NUL]) ! k" if "k \<le> length msg" for k
    unfolding m_def using that by (intro mem_write_in) simp
  ultimately show "record_at m off msg" by (simp add: record_at_def)
  show "m i = old i" if "i < off \<or> off + length msg + 3 \<le> i" for i
    using that by (auto simp: m_def mem_write_out u16_bytes_def)
qed

lemma room_cond:
  assumes "n \<le> 8192" "unat p + 2 \<le> DATA_SIZE"
  shows "(ucast (of_nat n :: u16) + p + 4 \<ge> of_nat SHMEM_SIZE - (of_nat DATA_OFFSET :: u32)) \<longleftrightarrow>
    DATA_SIZE \<le> n + unat p + 4"
proof -
  have p: "unat p \<le> 8378992" using assms(2) by (simp add: DATA_SIZE_val)
  have "unat (ucast (of_nat n :: u16) + p + 4 :: u32) = n + unat p + 4"
    using assms(1) p unat_u32 [of n] by (simp add: ucast_u16 unat_word_ariths)
  moreover have "unat (of_nat SHMEM_SIZE - (of_nat DATA_OFFSET :: u32)) = DATA_SIZE"
    by (simp add: SHMEM_SIZE_def DATA_OFFSET_def RPS_N_def DATA_SIZE_val)
  ultimately show ?thesis by (simp add: word_le_nat_alt)
qed

lemma logpush_room:
  assumes "log_msg msg" "ring_ok s" "unat (st_p s) + length msg + 4 < DATA_SIZE"
  shows "unat (st_p (status_logpush msg s)) = unat (st_p s) + length msg + 3"
    "st_life (status_logpush msg s) = st_life s"
    "record_at (st_data (status_logpush msg s)) (unat (st_p s)) msg"
    "\<And>i. i < unat (st_p s) \<or> unat (st_p s) + length msg + 3 \<le> i \<Longrightarrow>
       st_data (status_logpush msg s) i = st_data s i"
proof -
  have len: "length msg \<le> 8191" using assms(1) by (simp add: log_msg_len)
  have sz: "(of_nat (length msg) :: u16) + 1 = of_nat (length msg + 1)" by simp
  have eq: "status_logpush msg s = push_data (unat (st_p s)) (msg @ [NUL]) (of_nat (length msg + 1)) s"
    using room_cond [of "length msg" "st_p s"] len assms(2,3)
    by (simp add: status_logpush_def Let_def ring_ok_def add.commute)
  have tk: "take (unat (of_nat (length msg + 1) :: u16)) (msg @ [NUL]) = msg @ [NUL]"
    using len unat_u16 [of "length msg + 1"] by simp
  have p: "unat (st_p s) \<le> 8378992" using assms(3) by (simp add: DATA_SIZE_val)
  show "unat (st_p (status_logpush msg s)) = unat (st_p s) + length msg + 3"
    unfolding eq push_data_def using len p ucast_u16 [of "length msg + 1"] unat_u32 [of "length msg"]
    by (simp add: unat_word_ariths)
  show "st_life (status_logpush msg s) = st_life s" by (simp add: eq push_data_def)
  have d: "st_data (status_logpush msg s) = mem_write (unat (st_p s) + 2) (msg @ [NUL])
      (mem_write (unat (st_p s)) (u16_bytes (of_nat (length msg + 1))) (st_data s))"
    unfolding eq push_data_def tk by simp
  show "record_at (st_data (status_logpush msg s)) (unat (st_p s)) msg"
    "\<And>i. i < unat (st_p s) \<or> unat (st_p s) + length msg + 3 \<le> i \<Longrightarrow>
       st_data (status_logpush msg s) i = st_data s i"
    unfolding d using push_record [OF assms(1)] by blast+
qed

lemma logpush_full:
  assumes "log_msg msg" "ring_ok s" "DATA_SIZE \<le> unat (st_p s) + length msg + 4"
  shows "unat (st_p (status_logpush msg s)) = length msg + 3"
    "st_life (status_logpush msg s) = next_life (st_life s)"
    "record_at (st_data (status_logpush msg s)) 0 msg"
    "read_u16 (st_data (status_logpush msg s)) (unat (st_p s)) = 65535"
    "\<And>i. DATA_SIZE \<le> i \<Longrightarrow> st_data (status_logpush msg s) i = st_data s i"
proof -
  have len: "length msg \<le> 8191" using assms(1) by (simp add: log_msg_len)
  let ?s = "s\<lparr>st_data := mem_write (unat (st_p s)) (u16_bytes 65535) (st_data s),
             st_p := 0, st_life := next_life (st_life s)\<rparr>"
  have eq: "status_logpush msg s = push_data 0 (msg @ [NUL]) (of_nat (length msg + 1)) ?s"
    using room_cond [of "length msg" "st_p s"] len assms(2,3)
    by (simp add: status_logpush_def Let_def ring_ok_def add.commute)
  have tk: "take (unat (of_nat (length msg + 1) :: u16)) (msg @ [NUL]) = msg @ [NUL]"
    using len unat_u16 [of "length msg + 1"] by simp
  have p: "8370000 \<le> unat (st_p s)" "unat (st_p s) + 2 \<le> DATA_SIZE"
    using assms(2,3) len by (simp_all add: DATA_SIZE_val ring_ok_def)
  show "unat (st_p (status_logpush msg s)) = length msg + 3"
    unfolding eq push_data_def using len ucast_u16 [of "length msg + 1"] unat_u32 [of "length msg"]
    by (simp add: unat_word_ariths)
  show "st_life (status_logpush msg s) = next_life (st_life s)" by (simp add: eq push_data_def)
  have d: "st_data (status_logpush msg s) = mem_write (0 + 2) (msg @ [NUL])
      (mem_write 0 (u16_bytes (of_nat (length msg + 1)))
        (mem_write (unat (st_p s)) (u16_bytes 65535) (st_data s)))"
    unfolding eq push_data_def tk by simp
  note pr = push_record [OF assms(1), where off = 0 and
      old = "mem_write (unat (st_p s)) (u16_bytes 65535) (st_data s)"]
  show "record_at (st_data (status_logpush msg s)) 0 msg" unfolding d by (rule pr(1))
  have keep: "st_data (status_logpush msg s) i = mem_write (unat (st_p s)) (u16_bytes 65535) (st_data s) i"
    if "8194 \<le> i" for i unfolding d using that len by (intro pr(2)) simp
  then show "read_u16 (st_data (status_logpush msg s)) (unat (st_p s)) = 65535"
    using read_u16_write [of "unat (st_p s)" 65535 "st_data s"] p by (simp add: read_u16_def)
  show "st_data (status_logpush msg s) i = st_data s i" if "DATA_SIZE \<le> i" for i
    using that p keep [of i] by (simp add: mem_write_out u16_bytes_def DATA_SIZE_val)
qed


section \<open>Reading the log\<close>

lemma record_at_cong: "record_at m off msg \<Longrightarrow> (\<And>i. off \<le> i \<Longrightarrow> i < off + length msg + 3 \<Longrightarrow> m' i = m i) \<Longrightarrow>
    record_at m' off msg"
  by (auto simp: record_at_def read_u16_def)

lemma show_record:
  assumes "record_at (st_data s) (unat p) msg" "log_msg msg" "p \<noteq> st_p s"
    and "i = st_life s \<or> st_p s \<le> p"
  shows "show_log_step s i p = Show msg (of_nat (unat p + length msg + 3))"
proof -
  have len: "length msg \<le> 8191" using assms(2) by (simp add: log_msg_len)
  have l: "read_u16 (st_data s) (unat p) = of_nat (length msg + 1)"
    and r: "\<forall>k \<le> length msg. st_data s (unat p + 2 + k) = (msg @ [NUL]) ! k"
    using assms(1) by (simp_all add: record_at_def)
  have "c_string_at DATA_SIZE (st_data s) (unat p + 2) = msg"
    by (rule c_string_at_record [OF r]) (use assms(2) len in \<open>simp_all add: log_msg_def DATA_SIZE_val\<close>)
  moreover have "p + 2 + ucast (of_nat (length msg + 1) :: u16) = of_nat (unat p + length msg + 3)"
    using ucast_u16 [of "length msg + 1"] len by simp
  ultimately show ?thesis
    using assms(3,4) len unat_u16 [of "length msg + 1"]
    by (auto simp: show_log_step_def Let_def l LOG_BUF_SIZE_def)
qed

lemma next_life_neq: "- 128 \<le> l \<Longrightarrow> l \<le> 127 \<Longrightarrow> next_life l \<noteq> l \<and> - 128 \<le> next_life l \<and> next_life l \<le> 127"
proof -
  assume l: "- 128 \<le> l" "l \<le> 127"
  then have "\<bar>l + 1\<bar> mod 255 = \<bar>l + 1\<bar>" by (intro mod_pos_pos_trivial) auto
  then have "(l + 1) smod 255 = l + 1" by (simp add: smod_int_alt_def sgn_mult_abs)
  then have eq: "next_life l = sint (of_int (l + 1) :: u8)" by (simp add: next_life_def)
  show ?thesis
  proof (cases "l = 127")
    case True
    have "next_life 127 = - 128" by (simp add: next_life_def smod_int_alt_def)
    with True show ?thesis by simp
  next
    case False
    with l have "sint (of_int (l + 1) :: u8) = l + 1"
      by (simp add: signed_of_int signed_take_bit_int_eq_self del: of_int_add)
    with l show ?thesis using False by (simp add: eq)
  qed
qed

lemma logpush_ring:
  assumes "log_msg msg" "ring_ok s"
  shows "ring_ok (status_logpush msg s)"
proof (cases "unat (st_p s) + length msg + 4 < DATA_SIZE")
  case True
  then show ?thesis using logpush_room [OF assms True] assms by (simp add: ring_ok_def)
next
  case False
  then show ?thesis using logpush_full [OF assms] assms log_msg_len [OF assms(1)] next_life_neq
    by (simp add: ring_ok_def DATA_SIZE_val)
qed

lemma p_less: "unat p = n \<Longrightarrow> unat q = n + k \<Longrightarrow> 0 < k \<Longrightarrow> p \<noteq> q"
  by auto

lemma show_log_last:
  assumes "ring_ok s" "log_msg msg"
  shows "show_log 3 (status_logpush msg s) (st_life s) (st_p s) = Some [msg]"
proof (cases "unat (st_p s) + length msg + 4 < DATA_SIZE")
  case True
  let ?t = "status_logpush msg s"
  note r = logpush_room [OF assms(2,1) True]
  have ne: "st_p s \<noteq> st_p ?t" using r(1) by auto
  have "of_nat (unat (st_p s) + length msg + 3) = st_p ?t" unfolding r(1) [symmetric] by simp
  with show_record [OF r(3) assms(2) ne, of "st_life s"] r(2)
  show ?thesis by (simp add: eval_nat_numeral) (simp add: show_log_step_def)
next
  case False
  let ?t = "status_logpush msg s"
  note r = logpush_full [OF assms(2,1)]
  have full: "DATA_SIZE \<le> unat (st_p s) + length msg + 4" using False by simp
  note r = logpush_full [OF assms(2,1) full]
  have life: "next_life (st_life s) \<noteq> st_life s" using assms(1) next_life_neq by (simp add: ring_ok_def)
  then have "show_log_step ?t (st_life s) (st_p s) = Restart (st_life ?t)"
    using r(2,4) by (simp add: show_log_step_def Let_def LOG_BUF_SIZE_def)
  moreover have ne: "0 \<noteq> st_p ?t" using r(1) by auto
  have "show_log_step ?t (st_life ?t) 0 = Show msg (of_nat (length msg + 3))"
    using show_record [of ?t 0 msg "st_life ?t"] r(3) assms(2) ne by simp
  moreover have "of_nat (length msg + 3) = st_p ?t" unfolding r(1) [symmetric] by simp
  ultimately show ?thesis by (simp add: eval_nat_numeral) (simp add: show_log_step_def)
qed

definition log_size :: "string list \<Rightarrow> nat" where
  "log_size msgs = sum_list (map (\<lambda>m. length m + 3) msgs)"

lemma logpush_all_keep:
  assumes "\<forall>m \<in> set msgs. log_msg m" "ring_ok s" "unat (st_p s) + log_size msgs + 1 < DATA_SIZE"
    "i < unat (st_p s)"
  shows "st_data (fold status_logpush msgs s) i = st_data s i"
  using assms
proof (induction msgs arbitrary: s)
  case (Cons m ms)
  have room: "unat (st_p s) + length m + 4 < DATA_SIZE" using Cons.prems(3) by (simp add: log_size_def)
  note r = logpush_room [OF _ Cons.prems(2) room]
  show ?case
    using Cons.prems r logpush_ring [of m s]
    by (simp add: log_size_def Cons.IH add.assoc)
qed simp

lemma show_log_all:
  assumes "\<forall>m \<in> set msgs. log_msg m" "ring_ok s" "unat (st_p s) + log_size msgs + 1 < DATA_SIZE"
  shows "show_log (Suc (length msgs)) (fold status_logpush msgs s) (st_life s) (st_p s) = Some msgs \<and>
    st_life (fold status_logpush msgs s) = st_life s \<and>
    unat (st_p (fold status_logpush msgs s)) = unat (st_p s) + log_size msgs"
  using assms
proof (induction msgs arbitrary: s)
  case Nil
  then show ?case by (simp add: show_log_step_def log_size_def)
next
  case (Cons m ms)
  let ?s = "status_logpush m s" and ?t = "fold status_logpush ms (status_logpush m s)"
  have room: "unat (st_p s) + length m + 4 < DATA_SIZE" using Cons.prems(3) by (simp add: log_size_def)
  have m: "log_msg m" using Cons.prems(1) by simp
  note r = logpush_room [OF m Cons.prems(2) room]
  have fits: "unat (st_p ?s) + log_size ms + 1 < DATA_SIZE"
    using Cons.prems(3) r(1) by (simp add: log_size_def)
  have ring: "ring_ok ?s" using m Cons.prems(2) by (rule logpush_ring)
  have IH: "show_log (Suc (length ms)) ?t (st_life ?s) (st_p ?s) = Some ms" "st_life ?t = st_life ?s"
    "unat (st_p ?t) = unat (st_p ?s) + log_size ms"
    using Cons.IH [OF _ ring fits] Cons.prems(1) by simp_all
  have "record_at (st_data ?t) (unat (st_p s)) m"
    using Cons.prems(1) r(1)
    by (intro record_at_cong [OF r(3)] logpush_all_keep [OF _ ring fits]) simp_all
  moreover have "st_p s \<noteq> st_p ?t" using IH(3) r(1) by auto
  moreover have "of_nat (unat (st_p s) + length m + 3) = st_p ?s" unfolding r(1) [symmetric] by simp
  ultimately have "show_log_step ?t (st_life s) (st_p s) = Show m (st_p ?s)"
    using show_record [of ?t "st_p s" m "st_life s"] m IH(2) r(2) by simp
  then show ?case using IH r(1,2) by (simp add: log_size_def)
qed


section \<open>The request counters\<close>

text \<open>
  The table after a history of requests, the last one first: the entry of a second \<open>t\<close> of the
  last \<open>RPS_N\<close> holds the number of requests in \<open>t\<close>.
\<close>

definition rps_after :: "int list \<Rightarrow> (int \<times> u32) list \<Rightarrow> (int \<times> u32) list" where
  "rps_after ts rps = foldr rps_count ts rps"

definition requests_in :: "int \<Rightarrow> int list \<Rightarrow> nat" where
  "requests_in t ts = length (filter (\<lambda>x. x = t) ts)"

lemma rps_index_less: "rps_index t < RPS_N"
  by (simp add: rps_index_def RPS_N_def nat_less_iff)

lemma rps_index_eq:
  assumes "rps_index s = rps_index t" "\<bar>s - t\<bar> < int RPS_N"
  shows "s = t"
proof -
  have "s mod int RPS_N = t mod int RPS_N" using assms(1) by (simp add: rps_index_def RPS_N_def nat_eq_iff)
  then have "int RPS_N dvd s - t" by (simp add: mod_eq_dvd_iff)
  with assms(2) show ?thesis using dvd_imp_le_int [of "s - t" "int RPS_N"] by fastforce
qed

lemma rps_count_other:
  "rps_index t \<noteq> rps_index now \<Longrightarrow> rps_count now rps ! rps_index t = rps ! rps_index t"
  by (simp add: rps_count_def Let_def)

lemma rps_count_same:
  "length rps = RPS_N \<Longrightarrow> rps_count t rps ! rps_index t =
    (t, if fst (rps ! rps_index t) = t then snd (rps ! rps_index t) + 1 else 1)"
  using rps_index_less [of t] by (simp add: rps_count_def Let_def)

lemma rps_after_length [simp]: "length (rps_after ts rps) = length rps"
  by (induction ts) (simp_all add: rps_after_def rps_count_def Let_def)

lemma rps_after_entry:
  assumes "length rps = RPS_N" "sorted (rev (now # ts))" "\<forall>x \<in> set ts. 0 < x"
    "now - int RPS_N < t" "t \<le> now" "0 < t" "\<forall>e \<in> set rps. fst e = 0"
  shows "(if fst (rps_after ts rps ! rps_index t) = t then snd (rps_after ts rps ! rps_index t) else 0) =
    of_nat (requests_in t ts)"
  using assms(2-6)
proof (induction ts arbitrary: now)
  case Nil
  have "rps ! rps_index t \<in> set rps" using rps_index_less [of t] assms(1) by simp
  then have "fst (rps ! rps_index t) = 0" using assms(7) by blast
  with Nil show ?case by (simp add: rps_after_def requests_in_def)
next
  case (Cons x ts)
  have x: "x \<le> now" using Cons.prems(1) by (simp add: sorted_append)
  have sorted: "sorted (rev (x # ts))" using Cons.prems(1) by (simp add: sorted_append)
  have step: "rps_after (x # ts) rps = rps_count x (rps_after ts rps)" by (simp add: rps_after_def)
  show ?case
  proof (cases "t = x")
    case True
    have "x - int RPS_N < t" "t \<le> x" using True by (simp_all add: RPS_N_def)
    with Cons.IH [OF sorted] Cons.prems(2,5) have
      "(if fst (rps_after ts rps ! rps_index t) = t then snd (rps_after ts rps ! rps_index t) else 0) =
        of_nat (requests_in t ts)" by simp
    then show ?thesis using assms(1)
      by (simp add: step [folded True] True [symmetric] rps_count_same requests_in_def split: if_splits)
  next
    case False
    show ?thesis
    proof (cases "rps_index t = rps_index x")
      case True
      with False have far: "\<not> \<bar>t - x\<bar> < int RPS_N" using rps_index_eq by blast
      have "requests_in t (x # ts) = 0"
      proof -
        have "\<forall>y \<in> set ts. y \<le> x" using sorted by (simp add: sorted_append)
        moreover have "x < t" using far Cons.prems(3,4) x by linarith
        ultimately show ?thesis using False by (auto simp: requests_in_def filter_empty_conv)
      qed
      then show ?thesis using assms(1) True False by (simp add: step rps_count_same)
    next
      case False
      have "(if fst (rps_after ts rps ! rps_index t) = t then snd (rps_after ts rps ! rps_index t) else 0) =
        of_nat (requests_in t ts)"
      proof (cases "t \<le> x")
        case True
        with Cons.IH [OF sorted] Cons.prems x show ?thesis by auto
      next
        case False
        have "sorted (rev (now # ts))" using Cons.prems(1) by (simp add: sorted_append)
        with Cons.IH [of now] Cons.prems show ?thesis by auto
      qed
      moreover have "requests_in t (x # ts) = requests_in t ts" using \<open>t \<noteq> x\<close> by (simp add: requests_in_def)
      ultimately show ?thesis using False by (simp add: step rps_count_other split: if_splits)
    qed
  qed
qed

section \<open>Properties\<close>

text \<open>
  C31: the log round trip. A reader that has read up to the end of the log prints exactly the
  messages that are pushed from there on, in order, as long as the ring is not full.
\<close>

theorem log_round_trip:
  assumes "ring_ok s" "\<forall>m \<in> set msgs. log_msg m" "unat (st_p s) + log_size msgs + 1 < DATA_SIZE"
  shows "show_log (Suc (length msgs)) (fold status_logpush msgs s) (st_life s) (st_p s) = Some msgs"
  using show_log_all [OF assms(2,1,3)] by blast

theorem log_round_trip_witness:
  "show_log (Suc (length [''a'', ''bc''])) (fold status_logpush [''a'', ''bc''] (status_init 1))
     (st_life (status_init 1)) (st_p (status_init 1)) = Some [''a'', ''bc'']"
  by (rule log_round_trip)
    (simp_all add: ring_ok_def status_init_def log_msg_def LOG_BUF_SIZE_def log_size_def DATA_SIZE_val)

text \<open>
  C32: the ring goes round. Whatever the state of the ring, a reader at its end reads the next
  message, also when the ring is full and the message is written at its start: the reader
  then finds the marker, sees that the life count has changed, and starts over.
\<close>

theorem log_next_message:
  assumes "ring_ok s" "log_msg msg"
  shows "show_log 3 (status_logpush msg s) (st_life s) (st_p s) = Some [msg] \<and>
    ring_ok (status_logpush msg s)"
  using show_log_last [OF assms] logpush_ring [OF assms(2,1)] by blast

theorem log_next_message_witness:
  "show_log 3 (status_logpush ''x'' ((status_init 1)\<lparr>st_p := 8378991, st_life := 127\<rparr>)) 127 8378991 = Some [''x''] \<and>
    ring_ok (status_logpush ''x'' ((status_init 1)\<lparr>st_p := 8378991, st_life := 127\<rparr>))"
  using log_next_message [of "(status_init 1)\<lparr>st_p := 8378991, st_life := 127\<rparr>" "''x''"]
  by (simp add: ring_ok_def DATA_SIZE_val log_msg_def LOG_BUF_SIZE_def)

text \<open>C33: a push never writes outside of the mapped memory.\<close>

theorem logpush_in_mapping:
  assumes "ring_ok s" "log_msg msg" "DATA_SIZE \<le> i"
  shows "st_data (status_logpush msg s) i = st_data s i"
proof (cases "unat (st_p s) + length msg + 4 < DATA_SIZE")
  case True
  then show ?thesis using logpush_room(4) [OF assms(2,1) True, of i] assms(3) by simp
next
  case False
  then show ?thesis using logpush_full(5) [OF assms(2,1) _ assms(3)] by simp
qed

theorem logpush_in_mapping_witness:
  "st_data (status_logpush ''GET /'' (status_init 1)) 8378994 = st_data (status_init 1) 8378994"
  by (rule logpush_in_mapping)
    (simp_all add: ring_ok_def status_init_def log_msg_def LOG_BUF_SIZE_def DATA_SIZE_val)

lemma rps_value_entry:
  "0 \<le> t \<Longrightarrow> t < 2 ^ 32 \<Longrightarrow> rps_value rps t =
    (if fst (rps ! rps_index t) = t then snd (rps ! rps_index t) else 0)"
  by (simp add: rps_value_def Let_def uint_word_of_int_eq take_bit_int_eq_self)

text \<open>
  C34: the request counters. After any history of requests, the sums that \<open>status_mon\<close> prints
  are the numbers of requests (modulo \<open>2 ^ 32\<close>) in the last 60 and the last 599 seconds: the
  table of 600 entries, in which a second overwrites the one 600 seconds before, loses nothing
  of them.
\<close>

theorem status_mon_counts:
  assumes "sorted (rev (now # ts))" "\<forall>x \<in> set ts. 0 < x" "int RPS_N < now" "now < 2 ^ 32"
    and "st_rps s = rps_after ts (replicate RPS_N (0, 0))"
  shows "\<exists>last. status_mon s now = (st_conn s, last,
     (\<Sum>i \<leftarrow> [1..<61]. of_nat (requests_in (now - int i) ts)),
     (\<Sum>i \<leftarrow> [1..<600]. of_nat (requests_in (now - int i) ts)))"
proof -
  have v: "rps_value (st_rps s) (now - int i) = of_nat (requests_in (now - int i) ts)"
    if "i < 600" for i
  proof -
    have "0 < now - int i" "now - int i < 2 ^ 32" "now - int RPS_N < now - int i"
      using that assms(3,4) by (simp_all add: RPS_N_def)
    then show ?thesis
      using rps_after_entry [OF _ assms(1,2), of "replicate RPS_N (0, 0)" "now - int i"]
      by (simp add: rps_value_entry assms(5))
  qed
  have eq: "map (\<lambda>i. rps_value (st_rps s) (now - int i)) [1..<n] =
      map (\<lambda>i. of_nat (requests_in (now - int i) ts)) [1..<n]" if "n \<le> 600" for n
    using that v by (intro map_cong refl) simp
  show ?thesis using eq [of 61] eq [of 600] by (simp only: status_mon_def RPS_N_def) auto
qed

theorem status_mon_counts_witness:
  "\<exists>last. status_mon ((status_init 1)\<lparr>st_rps := rps_after [2000, 1990, 1990] (replicate RPS_N (0, 0))\<rparr>) 2000 =
    (st_conn ((status_init 1)\<lparr>st_rps := rps_after [2000, 1990, 1990] (replicate RPS_N (0, 0))\<rparr>), last,
     (\<Sum>i \<leftarrow> [1..<61]. of_nat (requests_in (2000 - int i) [2000, 1990, 1990])),
     (\<Sum>i \<leftarrow> [1..<600]. of_nat (requests_in (2000 - int i) [2000, 1990, 1990])))"
  by (rule status_mon_counts) (simp_all add: RPS_N_def)

end
