(* ===== verification/ParseString.thy ===== *)
theory ParseString
  imports Config
begin

text \<open>
  \<open>parse_string\<close> of src/src/callback.c: the scanner that picks the values of given names out
  of cookies, query strings and form bodies.
\<close>

section \<open>The scanner\<close>

datatype kv_type = T_REQUEST_HEADER | T_RESPONSE_HEADER | T_COOKIE | T_GET | T_POST

record kv =
  kv_key :: string
  kv_value :: string
  kv_type :: kv_type

datatype scan_state = in_ready | in_key | in_value_ignore | in_value

text \<open>
  The local variables; pointers into the data are offsets. \<open>sc_items\<close> are the items put in
  front of \<open>proplist\<close>, the newest first.
\<close>

record scan =
  sc_i :: nat
  sc_j :: nat
  sc_kl :: nat
  sc_k :: scan_state
  sc_ks :: "nat option"
  sc_items :: "kv list"

definition scan_start :: scan where
  "scan_start = \<lparr>sc_i = 0, sc_j = 0, sc_kl = 0, sc_k = in_ready, sc_ks = None, sc_items = []\<rparr>"

text \<open>\<open>strndup\<close> ends the copy at the first NUL.\<close>

definition strndup :: "string \<Rightarrow> nat \<Rightarrow> string" where
  "strndup p n = c_string (take n p)"

definition scan_item :: "string \<Rightarrow> kv_type \<Rightarrow> nat \<Rightarrow> scan \<Rightarrow> kv" where
  "scan_item p ty i s =
     \<lparr>kv_key = strtolower (strndup (drop (case sc_ks s of None \<Rightarrow> 0 | Some k \<Rightarrow> k) p) (sc_kl s)),
      kv_value = strndup (drop (sc_j s) p) (i - sc_j s), kv_type = ty\<rparr>"

definition scan_ready :: "char \<Rightarrow> scan \<Rightarrow> scan" where
  "scan_ready c s =
     (if schar c > schar (CHR ''A'')
      then s\<lparr>sc_k := in_key, sc_j := sc_i s, sc_ks := Some (sc_i s)\<rparr> else s)"

definition scan_key :: "char \<Rightarrow> string \<Rightarrow> string list \<Rightarrow> char \<Rightarrow> scan \<Rightarrow> scan" where
  "scan_key split p tester c s =
     (if c = CHR ''='' then
        (if is_in_list (drop (sc_j s) p) (sc_i s - sc_j s) tester
         then s\<lparr>sc_k := in_value, sc_kl := sc_i s - sc_j s, sc_j := sc_i s + 1\<rparr>
         else s\<lparr>sc_k := in_value_ignore, sc_j := sc_i s + 1\<rparr>)
      else if c = split then s\<lparr>sc_k := in_ready\<rparr> else s)"

text \<open>
  The end of a value. In the condition \<open>i==(l-1) && catch_end && i++\<close> the increment happens as
  soon as the first two hold; the value of \<open>i++\<close> is the old one. \<open>True\<close> is \<open>return 0\<close>.
\<close>

definition scan_value ::
  "char \<Rightarrow> string \<Rightarrow> nat \<Rightarrow> kv_type \<Rightarrow> bool \<Rightarrow> scan \<Rightarrow> bool \<times> scan" where
  "scan_value split p l ty catch_end s =
     (let last = (sc_i s = l - 1 \<and> catch_end);
          i = (if last then sc_i s + 1 else sc_i s);
          s1 = s\<lparr>sc_i := i\<rparr> in
      if last \<and> sc_i s \<noteq> 0 \<or> char_at p i = split \<or> char_at p i = NUL then
        (let s2 = (if sc_k s = in_value
                   then s1\<lparr>sc_items := scan_item p ty i s1 # sc_items s1\<rparr> else s1) in
         if i < l \<and> char_at p i = NUL then (True, s2) else (False, s2\<lparr>sc_k := in_ready\<rparr>))
      else (False, s1))"

definition scan_switch ::
  "char \<Rightarrow> string \<Rightarrow> nat \<Rightarrow> kv_type \<Rightarrow> string list \<Rightarrow> bool \<Rightarrow> scan \<Rightarrow> bool \<times> scan" where
  "scan_switch split p l ty tester catch_end s =
     (case sc_k s of
        in_ready \<Rightarrow> (False, scan_ready (char_at p (sc_i s)) s)
      | in_key \<Rightarrow> (False, scan_key split p tester (char_at p (sc_i s)) s)
      | _ \<Rightarrow> scan_value split p l ty catch_end s)"

lemma scan_switch_i: "sc_i s \<le> sc_i (snd (scan_switch split p l ty tester catch_end s))"
  by (simp add: scan_switch_def scan_ready_def scan_key_def scan_value_def Let_def split: scan_state.split)

lemma scan_switch_mono:
  "(b, s') = scan_switch split p l ty tester catch_end s \<Longrightarrow> sc_i s \<le> sc_i s'"
  using scan_switch_i [of s split p l ty tester catch_end] by (metis snd_conv)

text \<open>The loop: the result is the offset of the pointer returned, \<open>None\<close> for NULL.\<close>

function scan_loop ::
  "char \<Rightarrow> string \<Rightarrow> nat \<Rightarrow> kv_type \<Rightarrow> string list \<Rightarrow> bool \<Rightarrow> scan \<Rightarrow> nat option \<times> kv list" where
  "scan_loop split p l ty tester catch_end s =
     (if sc_i s < l then
        (case scan_switch split p l ty tester catch_end s of
           (True, s') \<Rightarrow> (None, sc_items s')
         | (False, s') \<Rightarrow>
             if sc_i s' < l \<and> char_at p (sc_i s') = NUL then (None, sc_items s')
             else if sc_i s' = l - 1 then (sc_ks s', sc_items s')
             else scan_loop split p l ty tester catch_end (s'\<lparr>sc_i := sc_i s' + 1\<rparr>))
      else (None, sc_items s))"
  by pat_completeness auto
termination
  by (relation "measure (\<lambda>(split, p, l, ty, tester, catch_end, s). l - sc_i s)")
    (auto dest!: scan_switch_mono)

declare scan_loop.simps [simp del]

definition parse_string ::
  "char \<Rightarrow> string \<Rightarrow> nat \<Rightarrow> kv_type \<Rightarrow> string list \<Rightarrow> bool \<Rightarrow> nat option \<times> kv list" where
  "parse_string split p l ty tester catch_end = scan_loop split p l ty tester catch_end scan_start"

section \<open>One step\<close>

text \<open>A byte inside of the data that is neither NUL nor the last one.\<close>

definition inner :: "string \<Rightarrow> nat \<Rightarrow> nat \<Rightarrow> bool" where
  "inner p l i \<longleftrightarrow> i < l - 1 \<and> char_at p i \<noteq> NUL"

lemma loop_step:
  assumes "inner p l (sc_i s)" "\<not> fst (scan_switch split p l ty tester e s)"
    "sc_i (snd (scan_switch split p l ty tester e s)) = sc_i s"
  shows "scan_loop split p l ty tester e s =
    scan_loop split p l ty tester e (snd (scan_switch split p l ty tester e s)\<lparr>sc_i := sc_i s + 1\<rparr>)"
proof -
  have "sc_i s < l" using assms(1) by (auto simp: inner_def)
  with assms show ?thesis
    by (subst scan_loop.simps) (auto simp: inner_def split: prod.splits bool.splits)
qed

lemma loop_ready_start:
  assumes "inner p l (sc_i s)" "sc_k s = in_ready" "schar (char_at p (sc_i s)) > schar (CHR ''A'')"
  shows "scan_loop split p l ty tester e s = scan_loop split p l ty tester e
    (s\<lparr>sc_k := in_key, sc_j := sc_i s, sc_ks := Some (sc_i s), sc_i := sc_i s + 1\<rparr>)"
  using loop_step [of p l s split ty tester e] assms by (simp add: scan_switch_def scan_ready_def)

lemma loop_key:
  assumes "inner p l (sc_i s)" "sc_k s = in_key" "char_at p (sc_i s) \<noteq> CHR ''=''" "char_at p (sc_i s) \<noteq> split"
  shows "scan_loop split p l ty tester e s = scan_loop split p l ty tester e (s\<lparr>sc_i := sc_i s + 1\<rparr>)"
  using loop_step [of p l s split ty tester e] assms by (simp add: scan_switch_def scan_key_def)

lemma loop_eq:
  assumes "inner p l (sc_i s)" "sc_k s = in_key" "char_at p (sc_i s) = CHR ''=''"
  shows "scan_loop split p l ty tester e s = scan_loop split p l ty tester e
    (if is_in_list (drop (sc_j s) p) (sc_i s - sc_j s) tester
     then s\<lparr>sc_k := in_value, sc_kl := sc_i s - sc_j s, sc_j := sc_i s + 1, sc_i := sc_i s + 1\<rparr>
     else s\<lparr>sc_k := in_value_ignore, sc_j := sc_i s + 1, sc_i := sc_i s + 1\<rparr>)"
  using loop_step [of p l s split ty tester e] assms by (simp add: scan_switch_def scan_key_def)

lemma loop_value:
  assumes "inner p l (sc_i s)" "sc_k s = in_value \<or> sc_k s = in_value_ignore" "char_at p (sc_i s) \<noteq> split"
  shows "scan_loop split p l ty tester e s = scan_loop split p l ty tester e (s\<lparr>sc_i := sc_i s + 1\<rparr>)"
  using loop_step [of p l s split ty tester e] assms
  by (auto simp: scan_switch_def scan_value_def Let_def inner_def)

lemma loop_value_split:
  assumes "inner p l (sc_i s)" "sc_k s = in_value \<or> sc_k s = in_value_ignore" "char_at p (sc_i s) = split"
  shows "scan_loop split p l ty tester e s = scan_loop split p l ty tester e
    (s\<lparr>sc_items := (if sc_k s = in_value then scan_item p ty (sc_i s) s # sc_items s else sc_items s),
       sc_k := in_ready, sc_i := sc_i s + 1\<rparr>)"
  using loop_step [of p l s split ty tester e] assms
  by (auto simp: scan_switch_def scan_value_def Let_def inner_def)

lemma loop_value_end:
  assumes "sc_i s = l - 1" "0 < sc_i s" "sc_k s = in_value \<or> sc_k s = in_value_ignore"
  shows "snd (scan_loop split p l ty tester True s) =
    (if sc_k s = in_value then scan_item p ty l (s\<lparr>sc_i := l\<rparr>) # sc_items s else sc_items s)"
  using assms by (subst scan_loop.simps, subst scan_loop.simps) (auto simp: scan_switch_def scan_value_def Let_def)

section \<open>Runs of bytes\<close>

lemma loop_key_run:
  assumes "sc_k s = in_key"
    and "\<And>m. m < n \<Longrightarrow> inner p l (sc_i s + m) \<and> char_at p (sc_i s + m) \<noteq> CHR ''='' \<and> char_at p (sc_i s + m) \<noteq> split"
  shows "scan_loop split p l ty tester e s = scan_loop split p l ty tester e (s\<lparr>sc_i := sc_i s + n\<rparr>)"
  using assms
proof (induction n arbitrary: s)
  case (Suc n)
  from Suc.prems(2) [of 0] Suc.prems(1)
  have "scan_loop split p l ty tester e s = scan_loop split p l ty tester e (s\<lparr>sc_i := sc_i s + 1\<rparr>)"
    by (intro loop_key) simp_all
  also have "\<dots> = scan_loop split p l ty tester e (s\<lparr>sc_i := sc_i s + 1, sc_i := sc_i s + 1 + n\<rparr>)"
    using Suc.IH [of "s\<lparr>sc_i := sc_i s + 1\<rparr>"] Suc.prems(1) Suc.prems(2) [of "Suc m" for m] by simp
  finally show ?case by simp
qed simp

lemma loop_value_run:
  assumes "sc_k s = in_value \<or> sc_k s = in_value_ignore"
    and "\<And>m. m < n \<Longrightarrow> inner p l (sc_i s + m) \<and> char_at p (sc_i s + m) \<noteq> split"
  shows "scan_loop split p l ty tester e s = scan_loop split p l ty tester e (s\<lparr>sc_i := sc_i s + n\<rparr>)"
  using assms
proof (induction n arbitrary: s)
  case (Suc n)
  from Suc.prems(2) [of 0] Suc.prems(1)
  have "scan_loop split p l ty tester e s = scan_loop split p l ty tester e (s\<lparr>sc_i := sc_i s + 1\<rparr>)"
    by (intro loop_value) simp_all
  also have "\<dots> = scan_loop split p l ty tester e (s\<lparr>sc_i := sc_i s + 1, sc_i := sc_i s + 1 + n\<rparr>)"
    using Suc.IH [of "s\<lparr>sc_i := sc_i s + 1\<rparr>"] Suc.prems(1) Suc.prems(2) [of "Suc m" for m] by simp
  finally show ?case by simp
qed simp

section \<open>Lists of pairs\<close>

fun join_pairs :: "char \<Rightarrow> (string \<times> string) list \<Rightarrow> string" where
  "join_pairs split [] = []"
| "join_pairs split [(k, v)] = k @ CHR ''='' # v"
| "join_pairs split ((k, v) # ps) = k @ CHR ''='' # v @ split # join_pairs split ps"

definition name_ok :: "char \<Rightarrow> string \<Rightarrow> bool" where
  "name_ok split k \<longleftrightarrow> k \<noteq> [] \<and> schar (hd k) > schar (CHR ''A'') \<and>
     CHR ''='' \<notin> set k \<and> split \<notin> set k \<and> NUL \<notin> set k"

definition value_ok :: "char \<Rightarrow> string \<Rightarrow> bool" where
  "value_ok split v \<longleftrightarrow> split \<notin> set v \<and> NUL \<notin> set v"

definition pair_item :: "kv_type \<Rightarrow> string \<times> string \<Rightarrow> kv" where
  "pair_item ty kv = \<lparr>kv_key = strtolower (fst kv), kv_value = snd kv, kv_type = ty\<rparr>"

definition caught :: "string list \<Rightarrow> string \<times> string \<Rightarrow> bool" where
  "caught tester kv \<longleftrightarrow> is_in_list (fst kv) (length (fst kv)) tester"

lemma char_at_append:
  "char_at (a @ b) (length a + m) = char_at b m"
  by (simp add: char_at_def nth_append)

lemma char_at_in: "m < length a \<Longrightarrow> char_at (a @ b) m = a ! m"
  by (simp add: char_at_def nth_append)

lemma strncasecmp_append: "n \<le> length s \<Longrightarrow> strncasecmp (s @ r) t n = strncasecmp s t n"
proof (induction n arbitrary: s t)
  case (Suc n)
  then obtain c s' where "s = c # s'" by (cases s) auto
  with Suc show ?case by (simp add: Let_def first_char_def)
qed simp

lemma is_in_list_append: "n \<le> length s \<Longrightarrow> is_in_list (s @ r) n tester = is_in_list s n tester"
  by (induction tester) (simp_all add: strncasecmp_append)

lemma c_string_id: "NUL \<notin> set s \<Longrightarrow> c_string s = s"
  by (auto simp: c_string_def takeWhile_eq_all_conv)

lemma loop_name:
  assumes "name_ok split k" "sc_k s = in_ready" "p = pre @ k @ CHR ''='' # rest" "sc_i s = length pre"
    "rest \<noteq> []" "length p \<le> l"
  shows "scan_loop split p l ty tester e s = scan_loop split p l ty tester e
    (s\<lparr>sc_k := (if caught tester (k, v) then in_value else in_value_ignore),
       sc_kl := (if caught tester (k, v) then length k else sc_kl s),
       sc_j := length pre + length k + 1, sc_ks := Some (length pre),
       sc_i := length pre + length k + 1\<rparr>)"
proof -
  obtain c ks where k: "k = c # ks" using assms(1) by (cases k) (auto simp: name_ok_def)
  have in_l: "length pre + length k < l - 1" using assms(3,5,6) by (cases rest) auto
  have at: "char_at p (length pre + m) = k ! m" if "m < length k" for m
    using that by (simp add: assms(3) char_at_append char_at_in)
  have ne: "k ! m \<noteq> NUL \<and> k ! m \<noteq> CHR ''='' \<and> k ! m \<noteq> split" if "m < length k" for m
    using that assms(1) by (auto simp: name_ok_def dest: nth_mem)
  have inn: "inner p l (length pre + m)" if "m < length k" for m
    using that at [OF that] ne [OF that] assms(6) by (simp add: inner_def assms(3))
  have run: "inner p l (Suc (length pre + m)) \<and> char_at p (Suc (length pre + m)) \<noteq> CHR ''='' \<and>
      char_at p (Suc (length pre + m)) \<noteq> split" if "m < length ks" for m
    using that inn [of "Suc m"] at [of "Suc m"] ne [of "Suc m"] k by simp
  let ?s1 = "s\<lparr>sc_k := in_key, sc_j := length pre, sc_ks := Some (length pre), sc_i := length pre + 1\<rparr>"
  let ?s2 = "?s1\<lparr>sc_i := length pre + length k\<rparr>"
  have "scan_loop split p l ty tester e s = scan_loop split p l ty tester e ?s1"
    using loop_ready_start [of p l s split ty tester e] assms(1,2,4) at [of 0] inn [of 0] k
    by (simp add: name_ok_def)
  also have "\<dots> = scan_loop split p l ty tester e ?s2"
    using loop_key_run [of ?s1 "length ks" p l split ty tester e] run k by simp
  also have "\<dots> = scan_loop split p l ty tester e
    (s\<lparr>sc_k := (if caught tester (k, v) then in_value else in_value_ignore),
       sc_kl := (if caught tester (k, v) then length k else sc_kl s),
       sc_j := length pre + length k + 1, sc_ks := Some (length pre),
       sc_i := length pre + length k + 1\<rparr>)"
    using loop_eq [of p l ?s2 split ty tester e] assms(3) in_l char_at_append [of "pre @ k" _ 0]
    by (cases s) (simp add: inner_def caught_def is_in_list_append char_at_def nth_append if_distrib cong: if_cong)
  finally show ?thesis .
qed

lemma value_bytes:
  assumes "value_ok split v" "p = pre @ v @ rest" "m < length v"
  shows "char_at p (length pre + m) = v ! m" "v ! m \<noteq> NUL" "v ! m \<noteq> split"
proof -
  from assms(3) have "v ! m \<in> set v" by simp
  with assms(1) show "v ! m \<noteq> NUL" "v ! m \<noteq> split" by (auto simp: value_ok_def)
  show "char_at p (length pre + m) = v ! m" using assms(2,3) by (simp add: char_at_append char_at_in)
qed

lemma scan_item_pair:
  assumes "name_ok split k" "value_ok split v" "p = pre @ k @ CHR ''='' # v @ rest"
    "sc_ks s = Some (length pre)" "sc_kl s = length k" "sc_j s = length pre + length k + 1"
  shows "scan_item p ty (length pre + length k + 1 + length v) s = pair_item ty (k, v)"
  using assms by (simp add: scan_item_def pair_item_def strndup_def c_string_id name_ok_def value_ok_def)

lemma loop_pair:
  assumes "name_ok split k" "value_ok split v" "sc_k s = in_ready" "sc_i s = length pre"
    "p = pre @ k @ CHR ''='' # v @ split # rest" "rest \<noteq> []" "split \<noteq> NUL" "length p \<le> l"
  shows "\<exists>s'. sc_k s' = in_ready \<and> sc_i s' = length pre + length k + length v + 2 \<and>
    sc_items s' = (if caught tester (k, v) then [pair_item ty (k, v)] else []) @ sc_items s \<and>
    scan_loop split p l ty tester e s = scan_loop split p l ty tester e s'"
proof -
  let ?pre = "pre @ k @ [CHR ''='']"
  have in_l: "length pre + length k + length v + 1 < l - 1" using assms(5,6,8) by (cases rest) auto
  define s1 where "s1 = s\<lparr>sc_k := (if caught tester (k, v) then in_value else in_value_ignore),
       sc_kl := (if caught tester (k, v) then length k else sc_kl s),
       sc_j := length pre + length k + 1, sc_ks := Some (length pre),
       sc_i := length pre + length k + 1\<rparr>"
  define s2 where "s2 = s1\<lparr>sc_i := length pre + length k + 1 + length v\<rparr>"
  define s3 where "s3 = s2\<lparr>sc_items := (if sc_k s2 = in_value then scan_item p ty (sc_i s2) s2 # sc_items s2
       else sc_items s2), sc_k := in_ready, sc_i := sc_i s2 + 1\<rparr>"
  have "scan_loop split p l ty tester e s = scan_loop split p l ty tester e s1"
    unfolding s1_def by (rule loop_name [OF assms(1,3,5,4) _ assms(8)]) simp
  also have "\<dots> = scan_loop split p l ty tester e s2"
    using loop_value_run [of s1 "length v" p l split ty tester e]
      value_bytes [OF assms(2), of p ?pre "split # rest"] assms(5,8)
    by (simp add: s1_def s2_def inner_def)
  also have "\<dots> = scan_loop split p l ty tester e s3"
    unfolding s3_def using char_at_append [of "?pre @ v" "split # rest" 0] assms(5,7) in_l
    by (intro loop_value_split) (simp_all add: s1_def s2_def inner_def char_at_def add.assoc)
  finally have "scan_loop split p l ty tester e s = scan_loop split p l ty tester e s3" .
  moreover have "sc_k s3 = in_ready" "sc_i s3 = length pre + length k + length v + 2"
    by (simp_all add: s1_def s2_def s3_def)
  moreover have "sc_items s3 = (if caught tester (k, v) then [pair_item ty (k, v)] else []) @ sc_items s"
    using scan_item_pair [OF assms(1,2,5), of s2 ty]
    by (cases "caught tester (k, v)") (simp_all add: s1_def s2_def s3_def)
  ultimately show ?thesis by blast
qed

lemma loop_pair_end:
  assumes "name_ok split k" "value_ok split v" "sc_k s = in_ready" "sc_i s = length pre"
    "p = pre @ k @ CHR ''='' # v" "v \<noteq> []"
  shows "snd (scan_loop split p (length p) ty tester True s) =
    (if caught tester (k, v) then [pair_item ty (k, v)] else []) @ sc_items s"
proof -
  let ?pre = "pre @ k @ [CHR ''='']"
  define s1 where "s1 = s\<lparr>sc_k := (if caught tester (k, v) then in_value else in_value_ignore),
       sc_kl := (if caught tester (k, v) then length k else sc_kl s),
       sc_j := length pre + length k + 1, sc_ks := Some (length pre),
       sc_i := length pre + length k + 1\<rparr>"
  from assms(6) obtain n where n: "length v = Suc n" by (cases v) simp_all
  define s2 where "s2 = s1\<lparr>sc_i := length pre + length k + 1 + n\<rparr>"
  have "scan_loop split p (length p) ty tester True s = scan_loop split p (length p) ty tester True s1"
    unfolding s1_def by (rule loop_name [OF assms(1,3,5,4,6) order_refl])
  also have "\<dots> = scan_loop split p (length p) ty tester True s2"
    using loop_value_run [of s1 n p "length p" split ty tester True]
      value_bytes [OF assms(2), of p ?pre "[]"] assms(5) n
    by (simp add: s1_def s2_def inner_def)
  finally show ?thesis
    using loop_value_end [of s2 "length p" split p ty tester] assms(5) n
      scan_item_pair [OF assms(1,2), of p pre "[]" "s2\<lparr>sc_i := length p\<rparr>" ty]
    by (auto simp: s1_def s2_def add.assoc)
qed

lemma loop_pairs:
  assumes "ps \<noteq> []" "\<forall>kv \<in> set ps. name_ok split (fst kv) \<and> value_ok split (snd kv)"
    "snd (last ps) \<noteq> []" "split \<noteq> NUL" "sc_k s = in_ready" "sc_i s = length pre"
    "p = pre @ join_pairs split ps"
  shows "snd (scan_loop split p (length p) ty tester True s) =
    rev (map (pair_item ty) (filter (caught tester) ps)) @ sc_items s"
  using assms
proof (induction split ps arbitrary: s pre rule: join_pairs.induct)
  case (2 split k v)
  then show ?case using loop_pair_end [of split k v s pre p ty tester] by simp
next
  case (3 split k v kv ps)
  let ?qs = "kv # ps"
  have ne: "join_pairs split ?qs \<noteq> []" by (cases "(split, ?qs)" rule: join_pairs.cases) auto
  from 3(2-) ne obtain s' where s': "sc_k s' = in_ready" "sc_i s' = length pre + length k + length v + 2"
    "sc_items s' = (if caught tester (k, v) then [pair_item ty (k, v)] else []) @ sc_items s"
    "scan_loop split p (length p) ty tester True s = scan_loop split p (length p) ty tester True s'"
    using loop_pair [of split k v s pre p "join_pairs split ?qs" "length p" tester ty True] by auto
  from 3(2-) s' have "snd (scan_loop split p (length p) ty tester True s') =
      rev (map (pair_item ty) (filter (caught tester) ?qs)) @ sc_items s'"
    by (intro "3.IH" [of s' "pre @ k @ CHR ''='' # v @ [split]"]) simp_all
  with s' show ?case by simp
qed simp
text \<open>
  A copy of a string: the scan stops at the NUL at its end, however long it is told that the
  string is.
\<close>

lemma loop_pair_nul:
  assumes "name_ok split k" "value_ok split v" "sc_k s = in_ready" "sc_i s = length pre"
    "p = pre @ k @ CHR ''='' # v @ [NUL]" "length p < l"
  shows "snd (scan_loop split p l ty tester e s) =
    (if caught tester (k, v) then [pair_item ty (k, v)] else []) @ sc_items s"
proof -
  let ?pre = "pre @ k @ [CHR ''='']"
  define s1 where "s1 = s\<lparr>sc_k := (if caught tester (k, v) then in_value else in_value_ignore),
       sc_kl := (if caught tester (k, v) then length k else sc_kl s),
       sc_j := length pre + length k + 1, sc_ks := Some (length pre),
       sc_i := length pre + length k + 1\<rparr>"
  define s2 where "s2 = s1\<lparr>sc_i := length pre + length k + 1 + length v\<rparr>"
  have "scan_loop split p l ty tester e s = scan_loop split p l ty tester e s1"
    unfolding s1_def using assms(6) by (intro loop_name [OF assms(1,3,5,4)]) simp_all
  also have "\<dots> = scan_loop split p l ty tester e s2"
    using loop_value_run [of s1 "length v" p l split ty tester e]
      value_bytes [OF assms(2), of p ?pre "[NUL]"] assms(5,6)
    by (simp add: s1_def s2_def inner_def)
  also have "snd \<dots> = (if sc_k s2 = in_value then scan_item p ty (sc_i s2) s2 # sc_items s2 else sc_items s2)"
  proof -
    have "char_at p (sc_i s2) = NUL" "sc_i s2 < l - 1" "sc_k s2 = in_value \<or> sc_k s2 = in_value_ignore"
      using char_at_append [of "?pre @ v" "[NUL]" 0] assms(5,6)
      by (simp_all add: s1_def s2_def char_at_def add.assoc)
    then show ?thesis
      by (subst scan_loop.simps) (auto simp: scan_switch_def scan_value_def Let_def)
  qed
  finally show ?thesis
    using scan_item_pair [OF assms(1,2), of p pre "[NUL]" s2 ty] assms(5)
    by (auto simp: s1_def s2_def add.assoc)
qed

lemma loop_pairs_nul:
  assumes "ps \<noteq> []" "\<forall>kv \<in> set ps. name_ok split (fst kv) \<and> value_ok split (snd kv)"
    "split \<noteq> NUL" "sc_k s = in_ready" "sc_i s = length pre"
    "p = pre @ join_pairs split ps @ [NUL]" "length p < l"
  shows "snd (scan_loop split p l ty tester e s) =
    rev (map (pair_item ty) (filter (caught tester) ps)) @ sc_items s"
  using assms
proof (induction split ps arbitrary: s pre rule: join_pairs.induct)
  case (2 split k v)
  then show ?case using loop_pair_nul [of split k v s pre p l ty tester e] by simp
next
  case (3 split k v kv ps)
  let ?qs = "kv # ps"
  from 3(2-) obtain s' where s': "sc_k s' = in_ready" "sc_i s' = length pre + length k + length v + 2"
    "sc_items s' = (if caught tester (k, v) then [pair_item ty (k, v)] else []) @ sc_items s"
    "scan_loop split p l ty tester e s = scan_loop split p l ty tester e s'"
    using loop_pair [of split k v s pre p "join_pairs split ?qs @ [NUL]" l tester ty e] by auto
  from 3(2-) s' have "snd (scan_loop split p l ty tester e s') =
      rev (map (pair_item ty) (filter (caught tester) ?qs)) @ sc_items s'"
    by (intro "3.IH" [of s' "pre @ k @ CHR ''='' # v @ [split]"]) simp_all
  with s' show ?case by simp
qed simp

lemma parse_string_copy:
  assumes "ps \<noteq> []" "\<forall>kv \<in> set ps. name_ok split (fst kv) \<and> value_ok split (snd kv)"
    "split \<noteq> NUL" "Suc (length (join_pairs split ps)) < l"
  shows "snd (parse_string split (join_pairs split ps @ [NUL]) l ty tester e) =
    rev (map (pair_item ty) (filter (caught tester) ps))"
  using loop_pairs_nul [OF assms(1-3), of scan_start "[]" "join_pairs split ps @ [NUL]" l ty tester e] assms(4)
  by (simp add: parse_string_def scan_start_def)

section \<open>The pointer that is returned\<close>

text \<open>
  Without \<open>catch_end\<close> the position is the one of the switch, and a call that returns an
  offset went through all the bytes without meeting a NUL.
\<close>

lemma scan_switch_same_i: "sc_i (snd (scan_switch split p l ty tester False s)) = sc_i s"
  by (simp add: scan_switch_def scan_ready_def scan_key_def scan_value_def Let_def split: scan_state.split)

lemma scan_switch_ks:
  "sc_ks (snd (scan_switch split p l ty tester e s)) = sc_ks s \<or>
   sc_k s = in_ready \<and> schar (char_at p (sc_i s)) > schar (CHR ''A'') \<and>
   sc_ks (snd (scan_switch split p l ty tester e s)) = Some (sc_i s)"
  by (simp add: scan_switch_def scan_ready_def scan_key_def scan_value_def Let_def split: scan_state.split)

lemma scan_switch_stop:
  "fst (scan_switch split p l ty tester False s) \<Longrightarrow> char_at p (sc_i s) = NUL"
  by (auto simp: scan_switch_def scan_value_def Let_def split: scan_state.splits if_splits)

lemma fst_scan_loop:
  "fst (scan_loop split p l ty tester False s) =
    (if sc_i s < l \<and> char_at p (sc_i s) \<noteq> NUL then
       (let s' = snd (scan_switch split p l ty tester False s) in
        if sc_i s = l - 1 then sc_ks s'
        else fst (scan_loop split p l ty tester False (s'\<lparr>sc_i := sc_i s + 1\<rparr>)))
     else None)"
proof -
  obtain b s' where sw: "scan_switch split p l ty tester False s = (b, s')" by fastforce
  then have i: "sc_i s' = sc_i s" using scan_switch_same_i [of split p l ty tester s] by simp
  have "b \<Longrightarrow> char_at p (sc_i s) = NUL" using scan_switch_stop [of split p l ty tester s] sw by simp
  then show ?thesis
    by (subst scan_loop.simps) (cases b; simp add: sw i Let_def)
qed

lemma loop_in:
  assumes "sc_i s < l" "char_at p (sc_i s) \<noteq> NUL"
  shows "fst (scan_loop split p l ty tester False s) =
    (if sc_i s = l - 1 then sc_ks (snd (scan_switch split p l ty tester False s))
     else fst (scan_loop split p l ty tester False
       (snd (scan_switch split p l ty tester False s)\<lparr>sc_i := sc_i s + 1\<rparr>)))"
  using assms by (simp only: fst_scan_loop [of split p l ty tester s] Let_def simp_thms if_True)

lemma loop_result_bound:
  "fst (scan_loop split p l ty tester False s) = Some k \<Longrightarrow> sc_ks s = Some k \<or> sc_i s \<le> k \<and> k < l"
proof (induction "l - sc_i s" arbitrary: s rule: less_induct)
  case less
  let ?t = "snd (scan_switch split p l ty tester False s)"
  have i: "sc_i s < l" using less.prems by (subst (asm) fst_scan_loop) (simp split: if_splits)
  have "sc_ks ?t = Some k \<or> sc_i s + 1 \<le> k \<and> k < l"
    using less.prems less.hyps [of "?t\<lparr>sc_i := sc_i s + 1\<rparr>"] i
    by (subst (asm) fst_scan_loop) (auto simp: Let_def split: if_splits)
  then show ?case using scan_switch_ks [of split p l ty tester False s] i by auto
qed

text \<open>The key that the returned pointer points to was met in the state \<open>in_ready\<close>.\<close>

lemma loop_result_start:
  assumes "fst (scan_loop split p l ty tester False s) = Some k" "sc_ks s \<noteq> Some k"
  shows "\<exists>t. sc_i t = k \<and> sc_k t = in_ready \<and> schar (char_at p k) > schar (CHR ''A'') \<and>
    fst (scan_loop split p l ty tester False t) = Some k"
  using assms
proof (induction "l - sc_i s" arbitrary: s rule: less_induct)
  case less
  let ?t = "snd (scan_switch split p l ty tester False s)"
  have i: "sc_i s < l" using less.prems(1) by (subst (asm) fst_scan_loop) (simp split: if_splits)
  show ?case
  proof (cases "sc_ks ?t = Some k")
    case True
    then show ?thesis
      using scan_switch_ks [of split p l ty tester False s] less.prems by (intro exI [of _ s]) auto
  next
    case False
    have "fst (scan_loop split p l ty tester False (?t\<lparr>sc_i := sc_i s + 1\<rparr>)) = Some k"
      using less.prems(1) False by (subst (asm) fst_scan_loop) (simp add: Let_def split: if_splits)
    then show ?thesis using less.hyps [of "?t\<lparr>sc_i := sc_i s + 1\<rparr>"] False i by auto
  qed
qed

lemma key_start_not_NUL: "schar (CHR ''A'') < schar c \<Longrightarrow> c \<noteq> NUL"
  by (auto simp: schar_def uchar_def)

text \<open>Two runs of the scanner over the same bytes at different places.\<close>

definition shifted :: "nat \<Rightarrow> scan \<Rightarrow> scan \<Rightarrow> bool" where
  "shifted n s t \<longleftrightarrow> sc_i s = sc_i t + n \<and> sc_k s = sc_k t \<and> sc_ks s = map_option ((+) n) (sc_ks t) \<and>
     (sc_k t \<noteq> in_ready \<longrightarrow> sc_j s = sc_j t + n)"

lemma shifted_switch:
  assumes "shifted (length a) s t" "sc_i s < l \<longleftrightarrow> sc_i t < m"
  shows "shifted (length a) (snd (scan_switch split (a @ b) l ty tester False s))
    (snd (scan_switch split b m ty tester False t))"
proof -
  have c: "char_at (a @ b) (sc_i s) = char_at b (sc_i t)"
    using char_at_append [of a b "sc_i t"] assms by (simp add: shifted_def add.commute)
  show ?thesis
  proof (cases "sc_k t")
    case in_ready
    with assms c show ?thesis
      by (simp add: shifted_def scan_switch_def scan_ready_def add.commute)
  next
    case in_key
    with assms have "drop (sc_j s) (a @ b) = drop (sc_j t) b" "sc_i s - sc_j s = sc_i t - sc_j t"
      by (simp_all add: shifted_def)
    with in_key assms c show ?thesis
      by (auto simp: shifted_def scan_switch_def scan_key_def)
  next
    case in_value
    with assms c show ?thesis by (auto simp: shifted_def scan_switch_def scan_value_def Let_def)
  next
    case in_value_ignore
    with assms c show ?thesis by (auto simp: shifted_def scan_switch_def scan_value_def Let_def)
  qed
qed

lemma shifted_loop:
  "shifted (length a) s t \<Longrightarrow>
   fst (scan_loop split (a @ b) (length a + length b) ty tester False s) =
   map_option ((+) (length a)) (fst (scan_loop split b (length b) ty tester False t))"
proof (induction "length b - sc_i t" arbitrary: s t rule: less_induct)
  case less
  let ?s = "snd (scan_switch split (a @ b) (length a + length b) ty tester False s)"
  let ?t = "snd (scan_switch split b (length b) ty tester False t)"
  have i: "sc_i s = sc_i t + length a" using less.prems by (simp add: shifted_def)
  then have sw: "shifted (length a) ?s ?t" by (intro shifted_switch [OF less.prems]) auto
  have "shifted (length a) (?s\<lparr>sc_i := sc_i s + 1\<rparr>) (?t\<lparr>sc_i := sc_i t + 1\<rparr>)"
    using sw i by (simp add: shifted_def)
  then have IH: "sc_i t < length b \<Longrightarrow>
      fst (scan_loop split (a @ b) (length a + length b) ty tester False (?s\<lparr>sc_i := sc_i s + 1\<rparr>)) =
      map_option ((+) (length a)) (fst (scan_loop split b (length b) ty tester False (?t\<lparr>sc_i := sc_i t + 1\<rparr>)))"
    by (intro less.hyps) simp_all
  have ks: "sc_ks ?s = map_option ((+) (length a)) (sc_ks ?t)" using sw by (simp add: shifted_def)
  have c: "char_at (a @ b) (sc_i s) = char_at b (sc_i t)"
    using char_at_append [of a b "sc_i t"] i by (simp add: add.commute)
  show ?case
  proof (cases "sc_i t < length b \<and> char_at b (sc_i t) \<noteq> NUL")
    case True
    then have last: "sc_i s = length a + length b - 1 \<longleftrightarrow> sc_i t = length b - 1" using i by auto
    from True i c have s: "sc_i s < length a + length b" "char_at (a @ b) (sc_i s) \<noteq> NUL" by simp_all
    show ?thesis
      unfolding loop_in [OF s] loop_in [OF conjunct1 [OF True] conjunct2 [OF True]]
      using last ks IH True by (cases "sc_i t = length b - 1"; simp only: if_True if_False simp_thms)
  next
    case False
    then have "\<not> (sc_i s < length a + length b \<and> char_at (a @ b) (sc_i s) \<noteq> NUL)" using i c by simp
    with False show ?thesis
      by (simp only: fst_scan_loop [of split "a @ b" _ ty tester s] fst_scan_loop [of split b _ ty tester t]
          if_False option.map)
  qed
qed

lemma parse_again:
  assumes "fst (parse_string split p (length p) ty tester False) = Some k"
  shows "k < length p" "fst (parse_string split (drop k p) (length p - k) ty tester False) = Some 0"
proof -
  have ks: "sc_ks scan_start \<noteq> Some k" by (simp add: scan_start_def)
  from loop_result_bound [OF assms [unfolded parse_string_def]] ks show k: "k < length p" by simp
  obtain t where t: "sc_i t = k" "sc_k t = in_ready" "schar (char_at p k) > schar (CHR ''A'')"
    "fst (scan_loop split p (length p) ty tester False t) = Some k"
    using loop_result_start [OF assms [unfolded parse_string_def] ks] by blast
  let ?a = "take k p" and ?b = "drop k p"
  have p: "p = ?a @ ?b" "length ?a = k" "length p = length ?a + length ?b" using k by simp_all
  have c: "char_at ?b 0 = char_at p k" using k by (simp add: char_at_def)
  let ?t = "snd (scan_switch split p (length p) ty tester False t)"
  let ?u = "snd (scan_switch split ?b (length ?b) ty tester False scan_start)"
  have sw: "?t = t\<lparr>sc_k := in_key, sc_j := k, sc_ks := Some k\<rparr>"
    "?u = scan_start\<lparr>sc_k := in_key, sc_j := 0, sc_ks := Some 0\<rparr>"
    using t c by (simp_all add: scan_switch_def scan_ready_def scan_start_def)
  then have "shifted k (?t\<lparr>sc_i := k + 1\<rparr>) (?u\<lparr>sc_i := 1\<rparr>)" by (simp add: shifted_def)
  with shifted_loop [of ?a "?t\<lparr>sc_i := k + 1\<rparr>" "?u\<lparr>sc_i := 1\<rparr>" split ?b ty tester] p
  have sh: "fst (scan_loop split p (length p) ty tester False (?t\<lparr>sc_i := k + 1\<rparr>)) =
      map_option ((+) k) (fst (scan_loop split ?b (length ?b) ty tester False (?u\<lparr>sc_i := 1\<rparr>)))"
    by metis
  have n: "char_at p k \<noteq> NUL" using key_start_not_NUL [OF t(3)] .
  have t_in: "sc_i t < length p" "char_at p (sc_i t) \<noteq> NUL" using t k n by simp_all
  have u_in: "sc_i scan_start < length ?b" "char_at ?b (sc_i scan_start) \<noteq> NUL"
    using k n c by (simp_all add: scan_start_def)
  have ks_t: "sc_ks ?t = Some k" "sc_ks ?u = Some 0" using sw by simp_all
  have i_u: "sc_i scan_start = 0" by (simp add: scan_start_def)
  have last: "k = length p - 1 \<longleftrightarrow> 0 = length ?b - 1" using k by auto
  note T = t(4) [unfolded loop_in [OF t_in] t(1) ks_t(1)]
  have "map_option ((+) k) (fst (scan_loop split ?b (length ?b) ty tester False scan_start)) = Some k"
    unfolding loop_in [OF u_in] i_u ks_t(2) using T sh last
    by (cases "k = length p - 1"; simp only: if_True if_False simp_thms add_0 option.map add_0_right One_nat_def)
  then have "fst (scan_loop split ?b (length ?b) ty tester False scan_start) = Some 0" by auto
  then show "fst (parse_string split ?b (length p - k) ty tester False) = Some 0"
    by (simp add: parse_string_def)
qed

text \<open>More bytes at the end: what was scanned stays as it is.\<close>

definition key_ok :: "scan \<Rightarrow> bool" where
  "key_ok s \<longleftrightarrow> (sc_k s = in_key \<longrightarrow> sc_j s \<le> sc_i s)"

lemma key_ok_switch: "key_ok s \<Longrightarrow> key_ok (snd (scan_switch split p l ty tester False s)\<lparr>sc_i := sc_i s + 1\<rparr>)"
  by (auto simp: key_ok_def scan_switch_def scan_ready_def scan_key_def scan_value_def Let_def
      split: scan_state.splits)

lemma extended_switch:
  assumes "shifted 0 s t" "sc_i t < length p" "key_ok t"
  shows "shifted 0 (snd (scan_switch split (p @ q) (length p + length q) ty tester False s))
    (snd (scan_switch split p (length p) ty tester False t))"
proof -
  have c: "char_at (p @ q) (sc_i s) = char_at p (sc_i t)"
    using assms(1,2) by (simp add: shifted_def char_at_def nth_append)
  have i: "sc_i s < length p + length q \<longleftrightarrow> sc_i t < length p" using assms(1,2) by (simp add: shifted_def)
  show ?thesis
  proof (cases "sc_k t")
    case in_ready
    with assms c show ?thesis by (simp add: shifted_def scan_switch_def scan_ready_def)
  next
    case in_key
    with assms have j: "sc_j t \<le> sc_i t" "sc_j s = sc_j t" "sc_i s = sc_i t"
      by (simp_all add: key_ok_def shifted_def)
    with assms(2) have "is_in_list (drop (sc_j s) (p @ q)) (sc_i s - sc_j s) tester =
        is_in_list (drop (sc_j t) p) (sc_i t - sc_j t) tester"
      by (simp add: is_in_list_append)
    with in_key assms(1) c j show ?thesis
      by (auto simp: shifted_def scan_switch_def scan_key_def)
  next
    case in_value
    with assms(1) c i show ?thesis by (auto simp: shifted_def scan_switch_def scan_value_def Let_def)
  next
    case in_value_ignore
    with assms(1) c i show ?thesis by (auto simp: shifted_def scan_switch_def scan_value_def Let_def)
  qed
qed

lemma loop_extend:
  assumes "shifted 0 s t" "key_ok t" "fst (scan_loop split p (length p) ty tester False t) = Some k" "q \<noteq> []"
  shows "\<exists>u. sc_i u = length p \<and> sc_ks u = Some k \<and>
    fst (scan_loop split (p @ q) (length p + length q) ty tester False s) =
    fst (scan_loop split (p @ q) (length p + length q) ty tester False u)"
  using assms
proof (induction "length p - sc_i t" arbitrary: s t rule: less_induct)
  case less
  have t_in: "sc_i t < length p" "char_at p (sc_i t) \<noteq> NUL"
    using less.prems(3) by (subst (asm) fst_scan_loop, simp split: if_splits)+
  have i: "sc_i s = sc_i t" using less.prems(1) by (simp add: shifted_def)
  have s_in: "sc_i s < length p + length q" "char_at (p @ q) (sc_i s) \<noteq> NUL"
    using t_in i by (simp_all add: char_at_def nth_append)
  let ?s = "snd (scan_switch split (p @ q) (length p + length q) ty tester False s)"
  let ?t = "snd (scan_switch split p (length p) ty tester False t)"
  have sw: "shifted 0 ?s ?t" by (rule extended_switch [OF less.prems(1) t_in(1) less.prems(2)])
  have "length q > 0" using less.prems(4) by simp
  then have "sc_i s \<noteq> length p + length q - 1" using t_in(1) i by linarith
  then have step: "fst (scan_loop split (p @ q) (length p + length q) ty tester False s) =
      fst (scan_loop split (p @ q) (length p + length q) ty tester False (?s\<lparr>sc_i := sc_i s + 1\<rparr>))"
    by (simp only: loop_in [OF s_in] if_False)
  show ?case
  proof (cases "sc_i t = length p - 1")
    case True
    then have "sc_ks ?t = Some k" using less.prems(3) by (simp only: loop_in [OF t_in] if_True simp_thms)
    then have "sc_ks ?s = Some k" using sw by (simp add: shifted_def)
    with step True i t_in(1) show ?thesis by (intro exI [of _ "?s\<lparr>sc_i := sc_i s + 1\<rparr>"]) simp
  next
    case False
    then have "fst (scan_loop split p (length p) ty tester False (?t\<lparr>sc_i := sc_i t + 1\<rparr>)) = Some k"
      using less.prems(3) by (simp only: loop_in [OF t_in] if_False)
    moreover have "shifted 0 (?s\<lparr>sc_i := sc_i s + 1\<rparr>) (?t\<lparr>sc_i := sc_i t + 1\<rparr>)"
      using sw i by (simp add: shifted_def)
    ultimately have "\<exists>u. sc_i u = length p \<and> sc_ks u = Some k \<and>
        fst (scan_loop split (p @ q) (length p + length q) ty tester False (?s\<lparr>sc_i := sc_i s + 1\<rparr>)) =
        fst (scan_loop split (p @ q) (length p + length q) ty tester False u)"
      using t_in(1) key_ok_switch [OF less.prems(2), of split p "length p" ty tester] less.prems(4)
      by (intro less.hyps [of "?t\<lparr>sc_i := sc_i t + 1\<rparr>"]) simp_all
    then show ?thesis using step by simp
  qed
qed

lemma parse_extend:
  assumes "fst (parse_string split p (length p) ty tester False) = Some k" "q \<noteq> []"
    and "fst (parse_string split (p @ q) (length (p @ q)) ty tester False) = Some m"
  shows "m = k \<or> length p \<le> m \<and> m < length p + length q"
proof -
  have "shifted 0 scan_start scan_start" "key_ok scan_start"
    by (simp_all add: shifted_def key_ok_def scan_start_def option.map_ident)
  from loop_extend [OF this assms(1) [unfolded parse_string_def] assms(2)]
  obtain u where u: "sc_i u = length p" "sc_ks u = Some k"
    "fst (parse_string split (p @ q) (length (p @ q)) ty tester False) =
     fst (scan_loop split (p @ q) (length p + length q) ty tester False u)"
    by (auto simp: parse_string_def)
  with loop_result_bound [of split "p @ q" "length p + length q" ty tester u m] assms(3) show ?thesis by auto
qed

section \<open>Properties\<close>

text \<open>
  C19: a cookie or a query string is read back. Of the pairs written one after the other,
  separated by the given character, exactly those whose names are in the list are collected,
  with lower case names and their values as they are, the last one first.
\<close>

theorem parse_string_pairs:
  assumes "ps \<noteq> []" "\<forall>kv \<in> set ps. name_ok split (fst kv) \<and> value_ok split (snd kv)"
    "snd (last ps) \<noteq> []" "split \<noteq> NUL"
  shows "snd (parse_string split (join_pairs split ps) (length (join_pairs split ps)) ty tester True) =
    rev (map (pair_item ty) (filter (caught tester) ps))"
  using loop_pairs [OF assms, of scan_start "[]" "join_pairs split ps" ty tester]
  by (simp add: parse_string_def scan_start_def)

theorem parse_string_pairs_witness:
  "snd (parse_string (CHR '';'') ''Sid=7;lang=en;uid=me'' 20 T_COOKIE [''sid'', ''uid''] True) =
    rev (map (pair_item T_COOKIE) (filter (caught [''sid'', ''uid''])
      [(''Sid'', ''7''), (''lang'', ''en''), (''uid'', ''me'')]))"
proof -
  let ?ps = "[(''Sid'', ''7''), (''lang'', ''en''), (''uid'', ''me'')]"
  have str: "join_pairs (CHR '';'') ?ps = ''Sid=7;lang=en;uid=me''" "length ''Sid=7;lang=en;uid=me'' = 20"
    by simp_all
  have ok: "?ps \<noteq> []" "\<forall>kv \<in> set ?ps. name_ok (CHR '';'') (fst kv) \<and> value_ok (CHR '';'') (snd kv)"
    "snd (last ?ps) \<noteq> []" "CHR '';'' \<noteq> NUL"
    by (simp_all add: name_ok_def value_ok_def schar_def uchar_def)
  show ?thesis using parse_string_pairs [OF ok] by (simp only: str)
qed

text \<open>
  Where a name starts. Only a character above \<open>A\<close> begins a name, so a leading digit or
  \<open>A\<close> is skipped and the rest is taken for the name: the parameter \<open>1id\<close> is collected as
  \<open>id\<close>, and \<open>Age\<close> is not found under its name.
\<close>

theorem parse_string_drops_head:
  "snd (parse_string (CHR ''&'') ''1id=5'' 5 T_GET [''id''] True) = [\<lparr>kv_key = ''id'', kv_value = ''5'', kv_type = T_GET\<rparr>] \<and>
   snd (parse_string (CHR ''&'') ''Age=5'' 5 T_GET [''age''] True) = []"
  by code_simp

end
