(* ===== verification/Session.thy ===== *)
theory Session
  imports HttpParserFeed ParseString Status
begin

text \<open>
  A monitored connection (src/src/session.c, session.h): what is collected of a request and
  its response, and the report and the log line made of it when the response is complete or
  the connection ends.
\<close>

section \<open>The state\<close>

text \<open>
  \<open>struct session\<close> from \<open>method\<close> on. The buffers of the response body are the list of their
  contents, \<open>post_buf\<close> with \<open>post_buf_len\<close> the bytes in use.
\<close>

record session =
  s_method :: http_method
  s_need_report :: bool
  s_catched_cookie :: bool
  s_is_catch_response_body :: u8
  s_request_multipart :: nat
  s_cur_field :: nat
  s_status_code :: u16
  s_http_major :: u16
  s_http_minor :: u16
  s_response_body_size :: u16
  s_path :: "string option"
  s_host :: "string option"
  s_cookie :: "string option"
  s_referer :: "string option"
  s_ua :: "string option"
  s_last_request_header :: "string option"
  s_last_response_header :: "string option"
  s_post_buf :: string
  s_req_time :: int
  s_server_time :: int
  s_rep_time :: int
  s_start_time :: int
  s_proplist :: "kv list"
  s_status_time :: "int \<times> int"
  s_response_body :: "string list"

text \<open>\<open>session_init\<close>: everything from \<open>method\<close> on is zeroed.\<close>

definition session_zero :: session where
  "session_zero = \<lparr>s_method = HTTP_DELETE, s_need_report = False, s_catched_cookie = False,
     s_is_catch_response_body = 0, s_request_multipart = 0, s_cur_field = 0, s_status_code = 0,
     s_http_major = 0, s_http_minor = 0, s_response_body_size = 0, s_path = None, s_host = None,
     s_cookie = None, s_referer = None, s_ua = None, s_last_request_header = None,
     s_last_response_header = None, s_post_buf = [], s_req_time = 0, s_server_time = 0,
     s_rep_time = 0, s_start_time = 0, s_proplist = [], s_status_time = (0, 0),
     s_response_body = []\<rparr>"

definition session_clean :: "session \<Rightarrow> session" where
  "session_clean s = s\<lparr>s_path := None, s_host := None, s_cookie := None, s_referer := None,
     s_ua := None, s_post_buf := [], s_last_request_header := None,
     s_last_response_header := None, s_proplist := [], s_response_body := []\<rparr>"

text \<open>What the session uses of libnids' \<open>struct tcp_stream\<close>.\<close>

record tcp_info =
  tcp_addr :: tuple4
  tcp_client_count :: int
  tcp_server_count :: int

text \<open>
  Undefined behaviour met on the way: a read outside of \<open>catch_code\<close>, a body cursor moved
  before the data, a write behind the end of \<open>join_buff\<close>.
\<close>

datatype fault = BadIndex nat | BadCursor int | JoinOverflow string

text \<open>
  The calls that fill a report: the tokens handed to msgpack in order, and \<open>count\<close>.
\<close>

datatype pack = PackMap nat | PackRaw nat | PackRawBody string | PackInt int | PackFloat int | PackNil

record msg_report =
  rp_buffer :: "pack list"
  rp_count :: "16 word"
  rp_header :: "u8 \<times> u8"
  rp_routing_key :: string

text \<open>
  What the functions of the session read and write: the configuration, the shared block, the
  clock (the successive results of \<open>gettimeofday\<close> and the number read so far; \<open>time\<close> is
  their seconds), the time zone (\<open>localtime\<close> with \<open>strftime\<close>), the connection, the session
  with its two parsers, the reports made and the faults met.
\<close>

record world =
  w_config :: configuration
  w_status :: status
  w_now :: "nat \<Rightarrow> int \<times> int"
  w_ticks :: nat
  w_time_string :: "int \<Rightarrow> string"
  w_tcp :: tcp_info
  w_session :: session
  w_client_parser :: hparser
  w_server_parser :: hparser
  w_reports :: "msg_report list"
  w_faults :: "fault list"

definition gettimeofday :: "world \<Rightarrow> (int \<times> int) \<times> world" where
  "gettimeofday w = (w_now w (w_ticks w), w\<lparr>w_ticks := w_ticks w + 1\<rparr>)"

definition upd_session :: "(session \<Rightarrow> session) \<Rightarrow> world \<Rightarrow> world" where
  "upd_session f w = w\<lparr>w_session := f (w_session w)\<rparr>"

definition fault :: "fault \<Rightarrow> world \<Rightarrow> world" where
  "fault e w = w\<lparr>w_faults := e # w_faults w\<rparr>"

section \<open>Starting, timing\<close>

definition session_start :: "world \<Rightarrow> world" where
  "session_start w = w\<lparr>w_client_parser := http_parser_init HTTP_REQUEST,
     w_server_parser := http_parser_init HTTP_RESPONSE, w_session := session_zero\<rparr>"

text \<open>\<open>session_time_mark\<close> with a NULL pointer, and with a counter that it advances.\<close>

definition session_time_start :: "world \<Rightarrow> world" where
  "session_time_start w =
     (case gettimeofday w of (tv, w') \<Rightarrow> upd_session (\<lambda>s. s\<lparr>s_status_time := tv\<rparr>) w')"

definition session_time_mark :: "(int \<Rightarrow> session \<Rightarrow> session) \<Rightarrow> world \<Rightarrow> world" where
  "session_time_mark advance w =
     (case gettimeofday w of ((sec, usec), w') \<Rightarrow>
       case s_status_time (w_session w') of (sec0, usec0) \<Rightarrow>
         upd_session (\<lambda>s. (advance ((sec - sec0) * 1000000 + (usec - usec0)) s)
           \<lparr>s_status_time := (sec, usec)\<rparr>) w')"

definition advance_req_time :: "int \<Rightarrow> session \<Rightarrow> session" where
  "advance_req_time d s = s\<lparr>s_req_time := s_req_time s + d\<rparr>"

definition advance_server_time :: "int \<Rightarrow> session \<Rightarrow> session" where
  "advance_server_time d s = s\<lparr>s_server_time := s_server_time s + d\<rparr>"

definition advance_rep_time :: "int \<Rightarrow> session \<Rightarrow> session" where
  "advance_rep_time d s = s\<lparr>s_rep_time := s_rep_time s + d\<rparr>"

section \<open>Names in a report\<close>

text \<open>
  \<open>join\<close>: \<open>strncat\<close> is told the size of the whole buffer of 128 bytes, not the room left in
  it, so it writes behind its end when the two parts and the NUL need more.
\<close>

definition JOIN_BUFF_SIZE :: nat where "JOIN_BUFF_SIZE = 128"

definition join :: "string \<Rightarrow> string \<Rightarrow> string \<times> fault list" where
  "join left right =
     (let r = left @ take JOIN_BUFF_SIZE right in
      (r, if length r + 1 > JOIN_BUFF_SIZE then [JoinOverflow r] else []))"

primrec kv_type_string :: "kv_type \<Rightarrow> string \<Rightarrow> string \<times> fault list" where
  "kv_type_string T_REQUEST_HEADER key = join ''req-'' key"
| "kv_type_string T_RESPONSE_HEADER key = join ''header-'' key"
| "kv_type_string T_COOKIE key = join ''cookie-'' key"
| "kv_type_string T_GET key = join ''get-'' key"
| "kv_type_string T_POST key = join ''post-'' key"

datatype close_reason = Success | TcpTimeout | TcpClosed | TcpReset

primrec close_status :: "close_reason \<Rightarrow> string" where
  "close_status Success = ''success''"
| "close_status TcpTimeout = ''tcp_timeout''"
| "close_status TcpClosed = ''tcp_closed''"
| "close_status TcpReset = ''tcp_reset''"

text \<open>\<open>inet_ntoa\<close> of an address in network order, on a little endian machine.\<close>

definition int_ntoa :: "u32 \<Rightarrow> string" where
  "int_ntoa a = show_nat (unat (a AND 0xff)) @ ''.'' @ show_nat (unat (drop_bit 8 a AND 0xff)) @ ''.'' @
     show_nat (unat (drop_bit 16 a AND 0xff)) @ ''.'' @ show_nat (unat (drop_bit 24 a))"

definition show_int :: "int \<Rightarrow> string" where
  "show_int n = (if n < 0 then CHR ''-'' # show_nat (nat (- n)) else show_nat (nat n))"

text \<open>\<open>%s\<close> of a NULL pointer.\<close>

definition show_opt :: "string option \<Rightarrow> string" where
  "show_opt s = (case s of None \<Rightarrow> ''(null)'' | Some t \<Rightarrow> t)"

section \<open>The report\<close>

definition report_pack :: "pack list \<Rightarrow> msg_report \<Rightarrow> msg_report" where
  "report_pack ts rp = rp\<lparr>rp_buffer := rp_buffer rp @ ts\<rparr>"

definition report_add_key :: "string \<Rightarrow> msg_report \<Rightarrow> msg_report" where
  "report_add_key key rp =
     (report_pack [PackRaw (length key), PackRawBody key] rp)\<lparr>rp_count := rp_count rp + 1\<rparr>"

definition report_add_pair :: "string \<Rightarrow> string option \<Rightarrow> msg_report \<Rightarrow> msg_report" where
  "report_add_pair key val rp =
     (let rp1 = report_add_key key rp in
      case val of
        Some v \<Rightarrow> report_pack [PackRaw (length v), PackRawBody v] rp1
      | None \<Rightarrow> report_pack [PackNil] rp1)"

definition report_add_pair_int :: "string \<Rightarrow> int \<Rightarrow> msg_report \<Rightarrow> msg_report" where
  "report_add_pair_int key n rp = report_pack [PackInt n] (report_add_key key rp)"

text \<open>
  The parameter of \<open>report_add_pair_float\<close> is an \<open>int\<close>: the fraction of the seconds is cut off
  before they are packed as a float. (The quotient is a \<open>double\<close>, exact enough for this below
  \<open>2 ^ 53\<close> microseconds.)
\<close>

definition report_add_pair_float :: "string \<Rightarrow> int \<Rightarrow> msg_report \<Rightarrow> msg_report" where
  "report_add_pair_float key micros rp =
     report_pack [PackFloat (micros sdiv 1000000)] (report_add_key key rp)"

definition strstr :: "string \<Rightarrow> string \<Rightarrow> nat option" where
  "strstr hay needle = memstr_from (length hay + 1) 0 hay needle (length needle)"

text \<open>The host of the referer is cut out in place: the session's referer ends after it.\<close>

definition report_referer :: "msg_report \<times> session \<Rightarrow> msg_report \<times> session" where
  "report_referer = (\<lambda>(rp, s).
     case s_referer s of
       None \<Rightarrow> (rp, s)
     | Some r \<Rightarrow>
         let rp1 = report_add_pair ''referer'' (Some r) rp in
         (case strstr r ''//'' of
            None \<Rightarrow> (rp1, s)
          | Some k \<Rightarrow>
              let host = drop (k + 2) r in
              (case strstr host ''/'' of
                 None \<Rightarrow> (report_add_pair ''referer-host'' (Some host) rp1, s)
               | Some m \<Rightarrow>
                   (report_add_pair ''referer-host'' (Some (take m host)) rp1,
                    s\<lparr>s_referer := Some (take (k + 2 + m) r)\<rparr>))))"

fun report_props :: "kv list \<Rightarrow> msg_report \<Rightarrow> msg_report \<times> fault list" where
  "report_props [] rp = (rp, [])"
| "report_props (p # ps) rp =
     (case kv_type_string (kv_type p) (kv_key p) of (key, fs) \<Rightarrow>
       case report_props ps (report_add_pair key (Some (urldecode (kv_value p))) rp) of
         (rp', fs') \<Rightarrow> (rp', fs @ fs'))"

definition report_body :: "session \<Rightarrow> msg_report \<Rightarrow> msg_report" where
  "report_body s rp =
     (if s_is_catch_response_body s \<noteq> 0 \<and> unat (s_response_body_size s) < 65535 then
        report_pack (PackRaw (unat (s_response_body_size s)) # map PackRawBody (s_response_body s))
          (report_add_key ''body-captured''
            (report_add_pair_int ''body-captured-size'' (uint (s_response_body_size s)) rp))
      else rp)"

text \<open>The pairs that every report has, in order; \<open>@time\<close> is passed as an \<open>int\<close> of 32 bits.\<close>

definition int32 :: "int \<Rightarrow> int" where
  "int32 n = sint (word_of_int n :: u32)"

definition report_head :: "world \<Rightarrow> close_reason \<Rightarrow> msg_report" where
  "report_head w ty =
     (let s = w_session w; addr = tcp_addr (w_tcp w) in
      fold id
       [report_add_pair ''@class'' (Some ''http-scope''),
        report_add_pair_int ''@time'' (int32 (s_start_time s)),
        report_add_pair ''method'' (Some (http_method_str (s_method s))),
        report_add_pair ''host'' (s_host s),
        report_add_pair ''host'' (s_host s),
        report_add_pair ''path'' (s_path s),
        report_add_pair ''node'' (Some (cf_node (w_config w))),
        report_add_pair_int ''code'' (uint (s_status_code s)),
        report_add_pair ''server'' (Some (int_ntoa (t4_daddr addr))),
        report_add_pair_int ''server-port'' (uint (t4_dest addr)),
        report_add_pair ''client'' (Some (int_ntoa (t4_saddr addr))),
        report_add_pair ''status'' (Some (close_status ty)),
        report_add_pair_int ''req-bytes'' (tcp_server_count (w_tcp w)),
        report_add_pair_int ''rep-bytes'' (tcp_client_count (w_tcp w)),
        report_add_pair_float ''net-req-time'' (s_req_time s),
        report_add_pair_float ''server-time'' (s_server_time s),
        report_add_pair_float ''net-rep-time'' (s_rep_time s)]
       \<lparr>rp_buffer = [PackMap 20], rp_count = 0, rp_header = (0, 20), rp_routing_key = []\<rparr>)"

text \<open>
  The two count bytes of the map header are overwritten at the end: \<open>count >> 8\<close> (of a signed
  short) and \<open>count % 256\<close> (the remainder of C), each cast to a byte.
\<close>

definition count_bytes :: "16 word \<Rightarrow> u8 \<times> u8" where
  "count_bytes n = (of_int (drop_bit 8 (sint n)), of_int (sint n smod 256))"

definition ROUTING_KEY_BUF_SIZE :: nat where "ROUTING_KEY_BUF_SIZE = 512"

definition routing_key :: "session \<Rightarrow> string" where
  "routing_key s =
     take (ROUTING_KEY_BUF_SIZE - 1)
       (''http-scope.'' @ show_opt (s_host s) @ ''.'' @ show_nat (unat (s_status_code s div 100)) @
        ''xx.'' @ show_nat (unat (s_status_code s)))"

text \<open>The log line, cut at the size of \<open>log_buff\<close>.\<close>

definition quote :: string where "quote = [CHR 0x22]"

definition session_log_line :: "world \<Rightarrow> string" where
  "session_log_line w =
     (let s = w_session w; addr = tcp_addr (w_tcp w) in
      c_string (take (LOG_BUF_SIZE - 1)
       (int_ntoa (t4_saddr addr) @ '' '' @ int_ntoa (t4_daddr addr) @ '':'' @
        show_nat (unat (t4_dest addr)) @ '' '' @ show_opt (s_host s) @ '' - ['' @
        w_time_string w (s_start_time s) @ ''] '' @ quote @ http_method_str (s_method s) @ '' '' @
        show_opt (s_path s) @ '' HTTP/'' @ show_nat (unat (s_http_major s)) @ ''.'' @
        show_nat (unat (s_http_minor s)) @ quote @ '' '' @ show_nat (unat (s_status_code s)) @ '' '' @
        show_int (tcp_client_count (w_tcp w)) @ '' '' @ quote @
        (case s_referer s of None \<Rightarrow> [] | Some r \<Rightarrow> r) @ quote @ '' '' @ quote @
        (case s_ua s of None \<Rightarrow> [] | Some u \<Rightarrow> u) @ quote)))"

definition session_log :: "world \<Rightarrow> world" where
  "session_log w = w\<lparr>w_status := status_logpush (session_log_line w) (w_status w)\<rparr>"

text \<open>
  \<open>send_report\<close> does nothing with its argument (its body is commented out); the model keeps
  the reports handed to it.
\<close>

definition session_report :: "world \<Rightarrow> close_reason \<Rightarrow> world" where
  "session_report w ty =
     (if \<not> s_need_report (w_session w) then w
      else
        let w1 = upd_session (\<lambda>s. s\<lparr>s_need_report := False\<rparr>) w in
        (case report_referer (report_head w1 ty, w_session w1) of (rp1, s1) \<Rightarrow>
          (case report_props (s_proplist s1) rp1 of (rp2, fs) \<Rightarrow>
            let rp3 = report_body s1 rp2;
                rp4 = rp3\<lparr>rp_header := count_bytes (rp_count rp3), rp_routing_key := routing_key s1\<rparr>;
                w2 = w1\<lparr>w_session := s1, w_reports := w_reports w1 @ [rp4],
                       w_faults := fs @ w_faults w1\<rparr>
            in session_start (upd_session session_clean (session_log w2)))))"

text \<open>
  \<open>session_close\<close> reports what is left and frees the session. (When nothing was to be
  reported, \<open>session_clean\<close> does not run and the strings of the session are not freed.)
\<close>

definition session_close :: "world \<Rightarrow> close_reason \<Rightarrow> world" where
  "session_close w ty = session_report w ty"

section \<open>What a report says\<close>

text \<open>
  The reader's view of the packed tokens: a raw value is the concatenation of the bodies that
  follow its header, and it is well-formed when they have the announced length together.
\<close>

datatype packed = VStr string | VInt int | VFloat int | VNil

fun raw_bodies :: "pack list \<Rightarrow> string" where
  "raw_bodies (PackRawBody b # ts) = b @ raw_bodies ts"
| "raw_bodies ts = []"

fun unpack :: "pack list \<Rightarrow> packed list" where
  "unpack [] = []"
| "unpack (PackRaw n # ts) = VStr (raw_bodies ts) # unpack ts"
| "unpack (PackInt n # ts) = VInt n # unpack ts"
| "unpack (PackFloat n # ts) = VFloat n # unpack ts"
| "unpack (PackNil # ts) = VNil # unpack ts"
| "unpack (PackRawBody b # ts) = unpack ts"
| "unpack (PackMap n # ts) = unpack ts"

fun raws_ok :: "pack list \<Rightarrow> bool" where
  "raws_ok [] = True"
| "raws_ok (PackRaw n # ts) \<longleftrightarrow> length (raw_bodies ts) = n \<and> raws_ok ts"
| "raws_ok (t # ts) \<longleftrightarrow> raws_ok ts"

text \<open>\<open>ts\<close> packs the pairs \<open>ps\<close>, wherever in the stream it stands.\<close>

definition starts_value :: "pack list \<Rightarrow> bool" where
  "starts_value ts \<longleftrightarrow> (case ts of PackRawBody b # _ \<Rightarrow> False | _ \<Rightarrow> True)"

definition flat_pairs :: "(string \<times> packed) list \<Rightarrow> packed list" where
  "flat_pairs ps = concat (map (\<lambda>(k, v). [VStr k, v]) ps)"

definition packs :: "pack list \<Rightarrow> (string \<times> packed) list \<Rightarrow> bool" where
  "packs ts ps \<longleftrightarrow> (\<forall>rest. starts_value rest \<longrightarrow> starts_value (ts @ rest) \<and>
     unpack (ts @ rest) = flat_pairs ps @ unpack rest \<and> (raws_ok (ts @ rest) \<longleftrightarrow> raws_ok rest))"

lemma raw_bodies_start: "starts_value ts \<Longrightarrow> raw_bodies ts = []"
  by (cases ts rule: raw_bodies.cases) (simp_all add: starts_value_def)

lemma packs_Nil: "packs [] []"
  by (simp add: packs_def flat_pairs_def)

lemma packs_append: "packs ts ps \<Longrightarrow> packs us qs \<Longrightarrow> packs (ts @ us) (ps @ qs)"
  by (simp add: packs_def flat_pairs_def)

lemma packs_pair:
  "packs [PackRaw (length k), PackRawBody k, PackRaw (length v), PackRawBody v] [(k, VStr v)]"
  "packs [PackRaw (length k), PackRawBody k, PackInt n] [(k, VInt n)]"
  "packs [PackRaw (length k), PackRawBody k, PackFloat n] [(k, VFloat n)]"
  "packs [PackRaw (length k), PackRawBody k, PackNil] [(k, VNil)]"
  by (simp_all add: packs_def flat_pairs_def raw_bodies_start starts_value_def)

lemma raw_bodies_map:
  "starts_value rest \<Longrightarrow> raw_bodies (map PackRawBody bs @ rest) = concat bs"
  by (induction bs) (simp_all add: raw_bodies_start)

lemma unpack_bodies [simp]:
  "unpack (map PackRawBody bs @ rest) = unpack rest"
  "raws_ok (map PackRawBody bs @ rest) = raws_ok rest"
  by (induction bs) simp_all

lemma packs_bodies:
  "n = length (concat bs) \<Longrightarrow>
   packs ([PackRaw (length k), PackRawBody k, PackRaw n] @ map PackRawBody bs) [(k, VStr (concat bs))]"
  by (simp add: packs_def flat_pairs_def raw_bodies_map starts_value_def)

text \<open>A step of the report that adds the pairs \<open>ps\<close> to whatever was there.\<close>

definition reports :: "(msg_report \<Rightarrow> msg_report) \<Rightarrow> (string \<times> packed) list \<Rightarrow> bool" where
  "reports f ps \<longleftrightarrow> (\<exists>ts. packs ts ps \<and>
     (\<forall>rp. rp_buffer (f rp) = rp_buffer rp @ ts \<and> rp_count (f rp) = rp_count rp + of_nat (length ps)))"

definition opt_packed :: "string option \<Rightarrow> packed" where
  "opt_packed v = (case v of None \<Rightarrow> VNil | Some s \<Rightarrow> VStr s)"

lemma reports_id: "reports id []"
  by (auto simp: reports_def intro!: exI [of _ "[]"] packs_Nil)

lemma reports_comp: "reports f ps \<Longrightarrow> reports g qs \<Longrightarrow> reports (\<lambda>rp. g (f rp)) (ps @ qs)"
  unfolding reports_def by (force intro: packs_append)

lemma reports_pair: "reports (report_add_pair k v) [(k, opt_packed v)]"
  unfolding reports_def
  by (cases v)
    (force intro: packs_pair simp: report_add_pair_def report_add_key_def report_pack_def opt_packed_def)+

lemma reports_pair_int: "reports (report_add_pair_int k n) [(k, VInt n)]"
  unfolding reports_def
  by (force intro: packs_pair simp: report_add_pair_int_def report_add_key_def report_pack_def)

lemma reports_pair_float: "reports (report_add_pair_float k n) [(k, VFloat (n sdiv 1000000))]"
  unfolding reports_def
  by (force intro: packs_pair simp: report_add_pair_float_def report_add_key_def report_pack_def)

lemma reports_fold:
  "list_all2 (\<lambda>f p. reports f [p]) fs ps \<Longrightarrow> reports (fold id fs) ps"
proof (induction fs ps rule: list_all2_induct)
  case (Cons f fs p ps)
  from reports_comp [OF Cons(1,3)] show ?case by (simp add: comp_def)
qed (use reports_id in \<open>simp add: id_def\<close>)

text \<open>The pairs of a report, in the order of the code.\<close>

definition head_pairs :: "world \<Rightarrow> close_reason \<Rightarrow> (string \<times> packed) list" where
  "head_pairs w ty =
     (let s = w_session w; addr = tcp_addr (w_tcp w) in
       [(''@class'', VStr ''http-scope''),
        (''@time'', VInt (int32 (s_start_time s))),
        (''method'', VStr (method_strings (s_method s))),
        (''host'', opt_packed (s_host s)),
        (''host'', opt_packed (s_host s)),
        (''path'', opt_packed (s_path s)),
        (''node'', VStr (cf_node (w_config w))),
        (''code'', VInt (uint (s_status_code s))),
        (''server'', VStr (int_ntoa (t4_daddr addr))),
        (''server-port'', VInt (uint (t4_dest addr))),
        (''client'', VStr (int_ntoa (t4_saddr addr))),
        (''status'', VStr (close_status ty)),
        (''req-bytes'', VInt (tcp_server_count (w_tcp w))),
        (''rep-bytes'', VInt (tcp_client_count (w_tcp w))),
        (''net-req-time'', VFloat (s_req_time s sdiv 1000000)),
        (''server-time'', VFloat (s_server_time s sdiv 1000000)),
        (''net-rep-time'', VFloat (s_rep_time s sdiv 1000000))])"

definition referer_pairs :: "session \<Rightarrow> (string \<times> packed) list" where
  "referer_pairs s =
     (case s_referer s of
        None \<Rightarrow> []
      | Some r \<Rightarrow> (''referer'', VStr r) #
          (case strstr r ''//'' of
             None \<Rightarrow> []
           | Some k \<Rightarrow> [(''referer-host'', VStr (takeWhile (\<lambda>c. c \<noteq> CHR ''/'') (drop (k + 2) r)))]))"

definition prop_pair :: "kv \<Rightarrow> string \<times> packed" where
  "prop_pair p = (fst (kv_type_string (kv_type p) (kv_key p)), VStr (urldecode (kv_value p)))"

definition body_pairs :: "session \<Rightarrow> (string \<times> packed) list" where
  "body_pairs s =
     (if s_is_catch_response_body s \<noteq> 0 \<and> unat (s_response_body_size s) < 65535
      then [(''body-captured-size'', VInt (uint (s_response_body_size s))),
            (''body-captured'', VStr (concat (s_response_body s)))] else [])"

definition report_pairs :: "world \<Rightarrow> close_reason \<Rightarrow> (string \<times> packed) list" where
  "report_pairs w ty = head_pairs w ty @ referer_pairs (w_session w) @
     map prop_pair (s_proplist (w_session w)) @ body_pairs (w_session w)"

text \<open>The size field counts the bytes of the captured body.\<close>

definition body_ok :: "session \<Rightarrow> bool" where
  "body_ok s \<longleftrightarrow> unat (s_response_body_size s) = length (concat (s_response_body s))"

lemma strstr_end: "length pre \<le> k \<Longrightarrow> memstr_from n k pre [c] (Suc 0) = None"
  by (induction n arbitrary: k) simp_all

lemma strstr_char: "memstr_from (length hay + n) k (pre @ hay) [c] (Suc 0) =
    (if c \<in> set hay then Some (k + length (takeWhile (\<lambda>d. d \<noteq> c) hay)) else None)"
  if "k = length pre"
  using that
proof (induction hay arbitrary: pre k)
  case Nil
  then show ?case by (simp add: strstr_end)
next
  case (Cons d hay)
  show ?case
  proof (cases "d = c")
    case True
    with Cons.prems show ?thesis by simp
  next
    case False
    with Cons.IH [of "Suc k" "pre @ [d]"] Cons.prems show ?thesis by simp
  qed
qed

lemma strstr_slash:
  "strstr h ''/'' = (if CHR ''/'' \<in> set h
     then Some (length (takeWhile (\<lambda>c. c \<noteq> CHR ''/'') h)) else None)"
  using strstr_char [of 0 "[]" h 1 "CHR ''/''"] by (simp add: strstr_def)

lemma take_takeWhile: "take (length (takeWhile P xs)) xs = takeWhile P xs"
  by (metis takeWhile_eq_take)

lemma report_referer_reports:
  "\<exists>f. reports f (referer_pairs s) \<and>
     (\<forall>rp. fst (report_referer (rp, s)) = f rp) \<and> (\<exists>r. \<forall>rp. snd (report_referer (rp, s)) = s\<lparr>s_referer := r\<rparr>)"
proof (cases "s_referer s")
  case None
  have "\<exists>r. s = s\<lparr>s_referer := r\<rparr>" by (rule exI [of _ "s_referer s"]) simp
  with None show ?thesis
    by (intro exI [of _ id]) (simp add: report_referer_def referer_pairs_def reports_id)
next
  case (Some r)
  show ?thesis
  proof (cases "strstr r ''//''")
    case None
    with Some reports_pair [of "''referer''" "Some r"] show ?thesis
      by (intro exI [of _ "report_add_pair ''referer'' (Some r)"])
        (auto simp: report_referer_def referer_pairs_def opt_packed_def intro!: exI [of _ "Some r"])
  next
    case k: (Some k)
    let ?t = "drop (k + 2) r"
    let ?h = "takeWhile (\<lambda>c. c \<noteq> CHR ''/'') ?t"
    let ?f = "\<lambda>rp. report_add_pair ''referer-host'' (Some ?h) (report_add_pair ''referer'' (Some r) rp)"
    have h: "CHR ''/'' \<notin> set ?t \<Longrightarrow> ?h = ?t"
      unfolding takeWhile_eq_all_conv by blast
    have same: "s = s\<lparr>s_referer := Some r\<rparr>"
      using Some by (cases s) simp
    have res: "report_referer (rp, s) = (?f rp, if CHR ''/'' \<in> set ?t
        then s\<lparr>s_referer := Some (take (k + 2 + length ?h) r)\<rparr> else s)" for rp
    proof (cases "CHR ''/'' \<in> set ?t")
      case True
      then have "strstr ?t ''/'' = Some (length ?h)" by (simp add: strstr_slash)
      with True show ?thesis
        by (simp only: report_referer_def prod.case Some k Let_def option.case take_takeWhile if_True)
    next
      case False
      then have "strstr ?t ''/'' = None" by (simp add: strstr_slash)
      with False h [OF False] show ?thesis
        by (simp only: report_referer_def prod.case Some k Let_def option.case if_False)
    qed
    have "\<exists>x. \<forall>rp. snd (report_referer (rp, s)) = s\<lparr>s_referer := x\<rparr>"
    proof (cases "CHR ''/'' \<in> set ?t")
      case True
      then show ?thesis
        by (intro exI [of _ "Some (take (k + 2 + length ?h) r)"]) (simp add: res)
    next
      case False
      with same show ?thesis by (intro exI [of _ "Some r"]) (simp only: res if_False snd_conv simp_thms)
    qed
    moreover have "reports ?f (referer_pairs s)"
      using reports_comp [OF reports_pair [of "''referer''" "Some r"] reports_pair [of "''referer-host''" "Some ?h"]]
      by (simp add: referer_pairs_def Some k opt_packed_def)
    ultimately show ?thesis using res by (intro exI [of _ ?f]) simp
  qed
qed

lemma report_referer_keeps [simp]:
  "s_proplist (snd (report_referer (rp, s))) = s_proplist s"
  "s_is_catch_response_body (snd (report_referer (rp, s))) = s_is_catch_response_body s"
  "s_response_body_size (snd (report_referer (rp, s))) = s_response_body_size s"
  "s_response_body (snd (report_referer (rp, s))) = s_response_body s"
  using report_referer_reports [of s] by auto

lemma report_props_reports:
  "reports (\<lambda>rp. fst (report_props ps rp)) (map prop_pair ps)"
proof (induction ps)
  case Nil
  then show ?case using reports_id by (simp add: id_def)
next
  case (Cons p ps)
  from reports_comp [OF reports_pair Cons, of "fst (kv_type_string (kv_type p) (kv_key p))" "Some (urldecode (kv_value p))"]
  show ?case by (simp add: prop_pair_def opt_packed_def case_prod_beta)
qed

lemma report_props_faults:
  "snd (report_props ps rp) = concat (map (\<lambda>p. snd (kv_type_string (kv_type p) (kv_key p))) ps)"
  by (induction ps arbitrary: rp) (simp_all add: case_prod_beta)

lemma report_body_reports:
  assumes "body_ok s"
  shows "reports (report_body s) (body_pairs s)"
proof (cases "s_is_catch_response_body s \<noteq> 0 \<and> unat (s_response_body_size s) < 65535")
  case True
  let ?n = "unat (s_response_body_size s)"
  have "reports (\<lambda>rp. report_pack (PackRaw ?n # map PackRawBody (s_response_body s))
      (report_add_key ''body-captured'' rp)) [(''body-captured'', VStr (concat (s_response_body s)))]"
    using packs_bodies [of ?n "s_response_body s" "''body-captured''"] assms
    unfolding reports_def body_ok_def
    by (intro exI conjI) (auto simp: report_add_key_def report_pack_def)
  from reports_comp [OF reports_pair_int this, of "''body-captured-size''" "uint (s_response_body_size s)"] True
  show ?thesis by (simp add: report_body_def [abs_def] body_pairs_def)
next
  case False
  then have "report_body s = id" by (auto simp: report_body_def fun_eq_iff)
  moreover have "body_pairs s = []" using False by (auto simp: body_pairs_def)
  ultimately show ?thesis using reports_id by simp
qed

lemma report_head_pairs:
  "\<exists>ts. rp_buffer (report_head w ty) = PackMap 20 # ts \<and> packs ts (head_pairs w ty) \<and>
     rp_count (report_head w ty) = of_nat (length (head_pairs w ty))"
proof -
  obtain f where f: "reports f (head_pairs w ty)" and
    "report_head w ty = f \<lparr>rp_buffer = [PackMap 20], rp_count = 0, rp_header = (0, 20), rp_routing_key = []\<rparr>"
  proof
    show "reports (fold id
       [report_add_pair ''@class'' (Some ''http-scope''),
        report_add_pair_int ''@time'' (int32 (s_start_time (w_session w))),
        report_add_pair ''method'' (Some (http_method_str (s_method (w_session w)))),
        report_add_pair ''host'' (s_host (w_session w)),
        report_add_pair ''host'' (s_host (w_session w)),
        report_add_pair ''path'' (s_path (w_session w)),
        report_add_pair ''node'' (Some (cf_node (w_config w))),
        report_add_pair_int ''code'' (uint (s_status_code (w_session w))),
        report_add_pair ''server'' (Some (int_ntoa (t4_daddr (tcp_addr (w_tcp w))))),
        report_add_pair_int ''server-port'' (uint (t4_dest (tcp_addr (w_tcp w)))),
        report_add_pair ''client'' (Some (int_ntoa (t4_saddr (tcp_addr (w_tcp w))))),
        report_add_pair ''status'' (Some (close_status ty)),
        report_add_pair_int ''req-bytes'' (tcp_server_count (w_tcp w)),
        report_add_pair_int ''rep-bytes'' (tcp_client_count (w_tcp w)),
        report_add_pair_float ''net-req-time'' (s_req_time (w_session w)),
        report_add_pair_float ''server-time'' (s_server_time (w_session w)),
        report_add_pair_float ''net-rep-time'' (s_rep_time (w_session w))]) (head_pairs w ty)"
      using reports_pair [where v = "Some _", unfolded opt_packed_def option.case]
      by (intro reports_fold) (simp add: head_pairs_def Let_def http_method_str_def reports_pair_int
          reports_pair_float reports_pair)
  qed (simp add: report_head_def Let_def)
  then show ?thesis by (auto simp: reports_def)
qed

lemma report_body_cong:
  "report_body (snd (report_referer (rp, s))) = report_body s"
  by (simp add: report_body_def [abs_def] cong: if_cong)

text \<open>The report as a whole: its header counts the pairs, its buffer packs them.\<close>

lemma pairs_need_report [simp]:
  "head_pairs (w\<lparr>w_session := w_session w\<lparr>s_need_report := b\<rparr>\<rparr>) ty = head_pairs w ty"
  "referer_pairs (s\<lparr>s_need_report := b\<rparr>) = referer_pairs s"
  "body_pairs (s\<lparr>s_need_report := b\<rparr>) = body_pairs s"
  "body_ok (s\<lparr>s_need_report := b\<rparr>) = body_ok s"
  by (simp_all add: head_pairs_def referer_pairs_def body_pairs_def body_ok_def Let_def)

lemma session_report_made:
  assumes "s_need_report (w_session w)" "body_ok (w_session w)"
  shows "\<exists>r ts. w_reports (session_report w ty) = w_reports w @ [r] \<and>
    rp_buffer r = PackMap 20 # ts \<and> packs ts (report_pairs w ty) \<and>
    rp_count r = of_nat (length (report_pairs w ty)) \<and> rp_header r = count_bytes (rp_count r)"
proof -
  let ?s = "(w_session w)\<lparr>s_need_report := False\<rparr>"
  let ?w = "w\<lparr>w_session := ?s\<rparr>"
  obtain ts where ts: "rp_buffer (report_head ?w ty) = PackMap 20 # ts" "packs ts (head_pairs w ty)"
    "rp_count (report_head ?w ty) = of_nat (length (head_pairs w ty))"
    using report_head_pairs [of ?w ty] by auto
  obtain f where f: "reports f (referer_pairs (w_session w))"
    and fst: "\<And>rp. fst (report_referer (rp, ?s)) = f rp"
    using report_referer_reports [of ?s] by auto
  let ?g = "\<lambda>rp. report_body ?s (fst (report_props (s_proplist (w_session w)) (f rp)))"
  have "reports ?g (referer_pairs (w_session w) @ map prop_pair (s_proplist (w_session w)) @
      body_pairs (w_session w))"
    using reports_comp [OF reports_comp [OF f report_props_reports] report_body_reports [of ?s]] assms(2)
    by simp
  then obtain us where us: "packs us (referer_pairs (w_session w) @
      map prop_pair (s_proplist (w_session w)) @ body_pairs (w_session w))"
    and g: "\<And>rp. rp_buffer (?g rp) = rp_buffer rp @ us \<and> rp_count (?g rp) = rp_count rp +
      of_nat (length (referer_pairs (w_session w) @ map prop_pair (s_proplist (w_session w)) @
        body_pairs (w_session w)))"
    unfolding reports_def by blast
  let ?r = "(?g (report_head ?w ty))\<lparr>rp_header := count_bytes (rp_count (?g (report_head ?w ty))),
      rp_routing_key := routing_key (snd (report_referer (report_head ?w ty, ?s)))\<rparr>"
  have "w_reports (session_report w ty) = w_reports w @ [?r]"
    using assms(1) fst by (simp add: session_report_def upd_session_def Let_def case_prod_beta
        session_start_def session_log_def report_body_cong)
  moreover have "packs (ts @ us) (report_pairs w ty)"
    using packs_append [OF ts(2) us] by (simp add: report_pairs_def)
  moreover have "rp_buffer ?r = PackMap 20 # ts @ us" using g ts(1) by simp
  moreover have "rp_count ?r = of_nat (length (report_pairs w ty))"
    using g ts(3) by (simp add: report_pairs_def)
  ultimately show ?thesis by (intro exI [of _ ?r] exI [of _ "ts @ us"]) simp
qed

lemma count_bytes_small:
  assumes "n < 2 ^ 16"
  shows "count_bytes (of_nat n) = (of_nat (n div 256), of_nat (n mod 256))"
proof -
  let ?x = "sint (of_nat n :: 16 word)"
  have hi: "of_int (drop_bit 8 ?x) = (of_nat (n div 256) :: u8)"
  proof (rule bit_word_eqI)
    fix i assume "i < LENGTH(8)"
    then show "bit (of_int (drop_bit 8 ?x) :: u8) i = bit (of_nat (n div 256) :: u8) i"
      by (simp add: bit_simps add.commute flip: drop_bit_eq_div [of 8 n, simplified])
  qed
  have z: "(256 :: u8) = 0" by code_simp
  have "of_int (?x smod 256) = (of_int ?x - of_int (?x sdiv 256) * of_int 256 :: u8)"
    by (simp only: flip: minus_sdiv_mult_eq_smod of_int_diff of_int_mult)
  also have "\<dots> = of_int ?x"
    by (simp only: of_int_numeral z mult_zero_right diff_0_right)
  also have "\<dots> = (of_nat n :: u8)"
  proof (rule bit_word_eqI)
    fix i assume "i < LENGTH(8)"
    then show "bit (of_int ?x :: u8) i = bit (of_nat n :: u8) i" by (simp add: bit_simps)
  qed
  also have "\<dots> = of_nat (n mod 256)"
    by (simp add: word_of_nat_eq_iff take_bit_eq_mod)
  finally show ?thesis using hi by (simp add: count_bytes_def)
qed

text \<open>The session after a report: a new one, with both parsers at their start.\<close>

lemma session_report_other:
  assumes "s_need_report (w_session w)"
  shows "w_session (session_report w ty) = session_zero"
    "w_client_parser (session_report w ty) = http_parser_init HTTP_REQUEST"
    "w_server_parser (session_report w ty) = http_parser_init HTTP_RESPONSE"
    "w_config (session_report w ty) = w_config w" "w_tcp (session_report w ty) = w_tcp w"
    "w_now (session_report w ty) = w_now w" "w_ticks (session_report w ty) = w_ticks w"
    "st_conn (w_status (session_report w ty)) = st_conn (w_status w)"
    "st_rps (w_status (session_report w ty)) = st_rps (w_status w)"
    "w_faults (session_report w ty) = concat (map (\<lambda>p. snd (kv_type_string (kv_type p) (kv_key p)))
       (s_proplist (w_session w))) @ w_faults w"
  using assms report_props_faults
  by (simp_all add: session_report_def upd_session_def Let_def case_prod_beta session_start_def
      session_log_def status_logpush_def push_data_def)

section \<open>Properties\<close>

text \<open>A world for examples: one connection, on which a request has begun.\<close>

definition sample_world :: "session \<Rightarrow> world" where
  "sample_world s =
     \<lparr>w_config = default_config empty_config, w_status = status_init 1, w_now = (\<lambda>n. (1000 + int n, 0)),
      w_ticks = 0, w_time_string = (\<lambda>_. ''now''),
      w_tcp = \<lparr>tcp_addr = \<lparr>t4_source = 40000, t4_dest = 80, t4_saddr = 0x0100007F, t4_daddr = 0x0200007F\<rparr>,
        tcp_client_count = 5, tcp_server_count = 7\<rparr>,
      w_session = s, w_client_parser = http_parser_init HTTP_REQUEST,
      w_server_parser = http_parser_init HTTP_RESPONSE, w_reports = [], w_faults = []\<rparr>"

definition sample_session :: session where
  "sample_session = session_zero\<lparr>s_need_report := True, s_host := Some ''h'',
     s_is_catch_response_body := 1, s_response_body_size := 3, s_response_body := [''a'', ''bc'']\<rparr>"

text \<open>
  C18: a report reads back. The report made of a session is a map header that counts the
  pairs, followed by exactly the pairs of \<open>report_pairs\<close> in their order: every raw value has
  the announced length, the captured body is the concatenation of its pieces.
\<close>

theorem report_reads_back:
  assumes "s_need_report (w_session w)" "body_ok (w_session w)" "length (report_pairs w ty) < 2 ^ 16"
  shows "\<exists>r ts. w_reports (session_report w ty) = w_reports w @ [r] \<and>
    rp_buffer r = PackMap 20 # ts \<and> raws_ok ts \<and> unpack ts = flat_pairs (report_pairs w ty) \<and>
    rp_header r = (of_nat (length (report_pairs w ty) div 256), of_nat (length (report_pairs w ty) mod 256))"
proof -
  obtain r ts where r: "w_reports (session_report w ty) = w_reports w @ [r]"
    "rp_buffer r = PackMap 20 # ts" "packs ts (report_pairs w ty)"
    "rp_count r = of_nat (length (report_pairs w ty))" "rp_header r = count_bytes (rp_count r)"
    using session_report_made [OF assms(1,2)] by blast
  from r(3) have "starts_value [] \<longrightarrow> unpack (ts @ []) = flat_pairs (report_pairs w ty) @ unpack [] \<and>
      (raws_ok (ts @ []) \<longleftrightarrow> raws_ok [])"
    unfolding packs_def by blast
  then have "unpack ts = flat_pairs (report_pairs w ty)" "raws_ok ts" by (simp_all add: starts_value_def)
  with r(1,2,4,5) count_bytes_small [OF assms(3)] show ?thesis by auto
qed

theorem report_reads_back_witness:
  "\<exists>r ts. w_reports (session_report (sample_world sample_session) Success) = [r] \<and>
    rp_buffer r = PackMap 20 # ts \<and> raws_ok ts \<and>
    unpack ts = flat_pairs (report_pairs (sample_world sample_session) Success) \<and>
    rp_header r = (0, 19)"
proof -
  let ?w = "sample_world sample_session"
  have "s_need_report (w_session ?w)" "body_ok (w_session ?w)"
    "length (report_pairs ?w Success) = 19" "w_reports ?w = []"
    by (simp_all add: sample_session_def sample_world_def session_zero_def body_ok_def report_pairs_def
        head_pairs_def referer_pairs_def body_pairs_def Let_def)
  then show ?thesis using report_reads_back [of ?w Success] by simp
qed


text \<open>
  Names of caught headers can overrun their buffer. \<open>join\<close> passes the size of the whole
  buffer to \<open>strncat\<close>, which bounds the bytes appended, not the room left: with the prefix
  \<open>req-\<close> every key of 124 bytes and more is written behind the end of \<open>join_buff\<close>.
\<close>

theorem join_overrun:
  "snd (kv_type_string T_REQUEST_HEADER key) \<noteq> [] \<longleftrightarrow> 124 \<le> length key"
  by (auto simp: join_def JOIN_BUFF_SIZE_def Let_def)

end
