(* ===== verification/Callback.thy ===== *)
theory Callback
  imports Session
begin

text \<open>
  The callbacks between the HTTP parser and the session (src/src/callback.c). Each is a
  function on the world of \<open>Session\<close>; the parser that runs is the session's client parser for
  requests and its server parser for responses, put back into the world for the time of the
  callback. All callbacks return 0.
\<close>

section \<open>Requests\<close>

definition FIELD_HOST :: nat where "FIELD_HOST = 1"
definition FIELD_REFERER :: nat where "FIELD_REFERER = 2"
definition FIELD_UA :: nat where "FIELD_UA = 3"
definition FIELD_COOKIE :: nat where "FIELD_COOKIE = 4"
definition FIELD_CONTENT_TYPE :: nat where "FIELD_CONTENT_TYPE = 5"
definition IS_MULTIPART :: nat where "IS_MULTIPART = 2"
definition POST_BUF_LENGTH :: nat where "POST_BUF_LENGTH = 4096"

lemmas field_defs = FIELD_HOST_def FIELD_REFERER_def FIELD_UA_def FIELD_COOKIE_def FIELD_CONTENT_TYPE_def

text \<open>The items of a call of \<open>parse_string\<close> go in front of \<open>proplist\<close>.\<close>

definition add_items_of :: "nat option \<times> kv list \<Rightarrow> session \<Rightarrow> session" where
  "add_items_of r s = s\<lparr>s_proplist := snd r @ s_proplist s\<rparr>"

text \<open>
  The query string starts behind the first question mark of the copied path and is scanned
  with the length of the whole URL: the NUL at the end of the copy stops the scan.
\<close>

definition request_url :: "string \<Rightarrow> world \<Rightarrow> world" where
  "request_url at w =
     (let c = w_config w; path = strndup at (length at);
          w1 = upd_session (\<lambda>s. s\<lparr>s_path := Some path\<rparr>) w in
      if cf_catch_get c = [] then w1
      else case cut_at (CHR ''?'') path of
        (_, None) \<Rightarrow> w1
      | (_, Some query) \<Rightarrow>
          upd_session (add_items_of (parse_string (CHR ''&'') (query @ [NUL]) (length at) T_GET
            (cf_catch_get c) True)) w1)"

definition request_header_field :: "string \<Rightarrow> world \<Rightarrow> world" where
  "request_header_field at w =
     (let c = w_config w; n = length at in
      upd_session (\<lambda>s.
        let s1 = (if is_in_list at n (cf_catch_req_head c)
                  then s\<lparr>s_last_request_header := Some (strtolower (strndup at n))\<rparr> else s);
            s2 = (if cf_catch_cookie c \<noteq> [] \<and> \<not> s_catched_cookie s1 \<and> strncasecmp at ''cookie'' n = 0
                  then s1\<lparr>s_cur_field := FIELD_COOKIE\<rparr> else s1);
            s3 = (if cf_catch_post c \<noteq> [] \<and> s_request_multipart s2 = 0 \<and>
                    strncasecmp at ''content-type'' n = 0
                  then s2\<lparr>s_cur_field := FIELD_CONTENT_TYPE\<rparr> else s2)
        in if strncasecmp ''host'' at n = 0 then s3\<lparr>s_cur_field := FIELD_HOST\<rparr>
           else if strncasecmp ''referer'' at n = 0 then s3\<lparr>s_cur_field := FIELD_REFERER\<rparr>
           else if strncasecmp ''user-agent'' at n = 0 then s3\<lparr>s_cur_field := FIELD_UA\<rparr>
           else s3) w)"

definition request_headers_complete :: "world \<Rightarrow> world" where
  "request_headers_complete w =
     (let p = w_client_parser w in
      upd_session (\<lambda>s. s\<lparr>s_method := hp_method p, s_http_major := hp_http_major p,
        s_http_minor := hp_http_minor p\<rparr>) w)"

text \<open>
  Any content type that compares above \<open>multipart\<close> is taken for multipart (the test is
  \<open>>= 0\<close>).
\<close>

definition request_header_value :: "string \<Rightarrow> world \<Rightarrow> world" where
  "request_header_value at w =
     (let c = w_config w; n = length at in
      upd_session (\<lambda>s.
        let s1 = (case s_last_request_header s of
                    None \<Rightarrow> s
                  | Some key \<Rightarrow> s\<lparr>s_proplist := \<lparr>kv_key = key, kv_value = strndup at n,
                      kv_type = T_REQUEST_HEADER\<rparr> # s_proplist s, s_last_request_header := None\<rparr>);
            f = s_cur_field s1;
            s2 = (if f = FIELD_COOKIE then
                    add_items_of (parse_string (CHR '';'') at n T_COOKIE (cf_catch_cookie c) True) s1
                  else if f = FIELD_CONTENT_TYPE then
                    s1\<lparr>s_request_multipart := (if strncasecmp at ''multipart'' n \<ge> 0 then IS_MULTIPART else 3)\<rparr>
                  else if f = FIELD_HOST then s1\<lparr>s_host := Some (strndup at n)\<rparr>
                  else if f = FIELD_REFERER then s1\<lparr>s_referer := Some (strndup at n)\<rparr>
                  else if f = FIELD_UA then s1\<lparr>s_ua := Some (strndup at n)\<rparr>
                  else s1)
        in s2\<lparr>s_cur_field := 0\<rparr>) w)"

text \<open>\<open>buf_push\<close> keeps what fits into the buffer.\<close>

definition buf_push :: "string \<Rightarrow> session \<Rightarrow> session" where
  "buf_push data s =
     s\<lparr>s_post_buf := s_post_buf s @ take (POST_BUF_LENGTH - length (s_post_buf s) - 1) data\<rparr>"

definition parse_post :: "configuration \<Rightarrow> string \<Rightarrow> bool \<Rightarrow> nat option \<times> kv list" where
  "parse_post c data catch_end =
     parse_string (CHR ''&'') data (length data) T_POST (cf_catch_post c) catch_end"

text \<open>
  A form body arrives in pieces. The buffer holds the last pair, unfinished, of the pieces
  before; the new piece is appended and scanned with it, and when another pair starts in the
  piece the scan goes on there. \<open>next\<close> is \<open>p - post_buf - last_post_buf_len\<close>: a negative one
  would move \<open>at\<close> in front of the piece.
\<close>

definition body_rest :: "string \<Rightarrow> world \<Rightarrow> string \<times> world" where
  "body_rest at w =
     (let c = w_config w; last = length (s_post_buf (w_session w)) in
      if last = 0 then (at, w)
      else
        let w1 = upd_session (buf_push at) w;
            r = parse_post c (s_post_buf (w_session w1)) False;
            w2 = upd_session (add_items_of r) w1 in
        (case fst r of
           None \<Rightarrow> (at, upd_session (\<lambda>s. s\<lparr>s_post_buf := []\<rparr>) w2)
         | Some p \<Rightarrow>
             if p = 0 then (at, w2)
             else
               let w3 = upd_session (\<lambda>s. s\<lparr>s_post_buf := []\<rparr>) w2 in
               if last \<le> p then (drop (p - last) at, w3)
               else (at, fault (BadCursor (int p - int last)) w3)))"

definition body_fresh :: "string \<Rightarrow> world \<Rightarrow> world" where
  "body_fresh at w =
     (if s_post_buf (w_session w) \<noteq> [] then w
      else
        let r = parse_post (w_config w) at False; w1 = upd_session (add_items_of r) w in
        (case fst r of
           None \<Rightarrow> w1
         | Some p \<Rightarrow>
             if length at - p < POST_BUF_LENGTH then upd_session (buf_push (drop p at)) w1 else w1))"

definition request_body :: "string \<Rightarrow> world \<Rightarrow> world" where
  "request_body at w =
     (if cf_catch_post (w_config w) = [] \<or> s_request_multipart (w_session w) = IS_MULTIPART then w
      else case body_rest at w of (rest, w') \<Rightarrow> body_fresh rest w')"

text \<open>\<open>time\<close> is the seconds of a further reading of the clock.\<close>

definition request_begin :: "world \<Rightarrow> world" where
  "request_begin w =
     (let w1 = session_time_start (upd_session (\<lambda>s. s\<lparr>s_need_report := True\<rparr>) w) in
      case gettimeofday w1 of ((now, _), w2) \<Rightarrow>
        upd_session (\<lambda>s. s\<lparr>s_start_time := now\<rparr>)
          (w2\<lparr>w_status := (w_status w2)\<lparr>st_rps := rps_count now (st_rps (w_status w2))\<rparr>\<rparr>))"

definition request_complete :: "world \<Rightarrow> world" where
  "request_complete w =
     (let w1 = session_time_mark advance_req_time w; buf = s_post_buf (w_session w1) in
      if cf_catch_post (w_config w1) \<noteq> [] \<and> buf \<noteq> []
      then upd_session (add_items_of (parse_post (w_config w1) buf True)) w1 else w1)"

section \<open>Responses\<close>

definition response_header_field :: "string \<Rightarrow> world \<Rightarrow> world" where
  "response_header_field at w =
     (if is_in_list at (length at) (cf_catch_rsp_head (w_config w))
      then upd_session (\<lambda>s. s\<lparr>s_last_response_header := Some (strtolower (strndup at (length at)))\<rparr>) w
      else w)"

definition response_headers_complete :: "world \<Rightarrow> world" where
  "response_headers_complete w =
     (let code = hp_status_code (w_server_parser w); i = unat code;
          tab = cf_catch_code (w_config w);
          w1 = upd_session (\<lambda>s. s\<lparr>s_status_code := code\<rparr>) w in
      if i < length tab
      then upd_session (\<lambda>s. s\<lparr>s_is_catch_response_body := ucast (tab ! i)\<rparr>) w1
      else fault (BadIndex i) w1)"

definition response_header_value :: "string \<Rightarrow> world \<Rightarrow> world" where
  "response_header_value at w =
     upd_session (\<lambda>s. case s_last_response_header s of
         None \<Rightarrow> s
       | Some key \<Rightarrow> s\<lparr>s_proplist := \<lparr>kv_key = key, kv_value = strndup at (length at),
           kv_type = T_RESPONSE_HEADER\<rparr> # s_proplist s, s_last_response_header := None\<rparr>) w"

definition response_begin :: "world \<Rightarrow> world" where
  "response_begin w = session_time_mark advance_server_time w"

text \<open>An interim response (1xx) is not the end of the exchange.\<close>

definition response_complete :: "world \<Rightarrow> world" where
  "response_complete w =
     (if hp_status_code (w_server_parser w) div 100 \<noteq> 1
      then session_report (session_time_mark advance_rep_time w) Success else w)"

definition response_body :: "string \<Rightarrow> world \<Rightarrow> world" where
  "response_body at w =
     upd_session (\<lambda>s.
       if s_is_catch_response_body s \<noteq> 0 \<and> unat (s_response_body_size s) + length at < 65535
       then s\<lparr>s_response_body := s_response_body s @ [at],
              s_response_body_size := s_response_body_size s + of_nat (length at)\<rparr>
       else s) w"

section \<open>The settings of the two parsers\<close>

definition client_cb :: "(world \<Rightarrow> world) \<Rightarrow> world http_cb" where
  "client_cb f p w = (let w' = f (w\<lparr>w_client_parser := p\<rparr>) in (0, w_client_parser w', w'))"

definition server_cb :: "(world \<Rightarrow> world) \<Rightarrow> world http_cb" where
  "server_cb f p w = (let w' = f (w\<lparr>w_server_parser := p\<rparr>) in (0, w_server_parser w', w'))"

definition client_parser_settings :: "world http_parser_settings" where
  "client_parser_settings =
     \<lparr>on_message_begin = Some (client_cb request_begin),
      on_url = Some (\<lambda>at. client_cb (request_url at)),
      on_header_field = Some (\<lambda>at. client_cb (request_header_field at)),
      on_header_value = Some (\<lambda>at. client_cb (request_header_value at)),
      on_headers_complete = Some (client_cb request_headers_complete),
      on_body = Some (\<lambda>at. client_cb (request_body at)),
      on_message_complete = Some (client_cb request_complete)\<rparr>"

definition server_parser_settings :: "world http_parser_settings" where
  "server_parser_settings =
     \<lparr>on_message_begin = Some (server_cb response_begin),
      on_url = None,
      on_header_field = Some (\<lambda>at. server_cb (response_header_field at)),
      on_header_value = Some (\<lambda>at. server_cb (response_header_value at)),
      on_headers_complete = Some (server_cb response_headers_complete),
      on_body = Some (\<lambda>at. server_cb (response_body at)),
      on_message_complete = Some (server_cb response_complete)\<rparr>"

text \<open>
  \<open>session_handle_data\<close>: what the client has received (the response) comes before what the
  server has received (the request). \<open>None\<close> is a call of the parser that does not come back
  with a count.
\<close>

definition session_handle_data :: "string \<Rightarrow> string \<Rightarrow> world \<Rightarrow> world option" where
  "session_handle_data client_new server_new w =
     (if client_new \<noteq> [] then
        (case http_parser_execute server_parser_settings (w_server_parser w) w client_new of
           Executed n p w' \<Rightarrow> Some (w'\<lparr>w_server_parser := p\<rparr>)
         | _ \<Rightarrow> None)
      else
        (case http_parser_execute client_parser_settings (w_client_parser w) w server_new of
           Executed n p w' \<Rightarrow> Some (w'\<lparr>w_client_parser := p\<rparr>)
         | _ \<Rightarrow> None))"

section \<open>What the callbacks keep\<close>

text \<open>
  The buffer of the form body holds one unfinished pair: scanned alone, the pair that ends it
  is the one it starts with. The captured body has the size that is recorded for it. Of the
  undefined behaviours only the overrun of \<open>join_buff\<close> is met.
\<close>

definition post_ok :: "configuration \<Rightarrow> string \<Rightarrow> bool" where
  "post_ok c buf \<longleftrightarrow> length buf < POST_BUF_LENGTH \<and>
     (buf \<noteq> [] \<longrightarrow> fst (parse_post c buf False) = Some 0)"

definition world_ok :: "world \<Rightarrow> bool" where
  "world_ok w \<longleftrightarrow> (\<forall>f \<in> set (w_faults w). \<exists>r. f = JoinOverflow r) \<and>
     length (cf_catch_code (w_config w)) = 1000 \<and> body_ok (w_session w) \<and>
     post_ok (w_config w) (s_post_buf (w_session w))"

lemma upd_session_simps [simp]:
  "w_session (upd_session f w) = f (w_session w)" "w_config (upd_session f w) = w_config w"
  "w_faults (upd_session f w) = w_faults w" "w_client_parser (upd_session f w) = w_client_parser w"
  "w_server_parser (upd_session f w) = w_server_parser w" "w_status (upd_session f w) = w_status w"
  "w_reports (upd_session f w) = w_reports w" "w_tcp (upd_session f w) = w_tcp w"
  by (simp_all add: upd_session_def)

lemma post_ok_Nil [simp]: "post_ok c []"
  by (simp add: post_ok_def POST_BUF_LENGTH_def)

lemma world_ok_upd:
  assumes "\<And>s. s_post_buf (f s) = s_post_buf s" "\<And>s. s_response_body (f s) = s_response_body s"
    "\<And>s. s_response_body_size (f s) = s_response_body_size s"
  shows "world_ok (upd_session f w) = world_ok w"
  by (simp add: world_ok_def body_ok_def assms)

text \<open>The operations that touch neither the buffer nor the captured body.\<close>

lemma session_time_world [simp]:
  "world_ok (session_time_start w) = world_ok w" "w_client_parser (session_time_start w) = w_client_parser w"
  "w_server_parser (session_time_start w) = w_server_parser w"
  by (simp_all add: session_time_start_def gettimeofday_def world_ok_upd) (simp add: world_ok_def)

lemma session_mark_world:
  assumes "\<And>d s. s_post_buf (f d s) = s_post_buf s" "\<And>d s. s_response_body (f d s) = s_response_body s"
    "\<And>d s. s_response_body_size (f d s) = s_response_body_size s"
  shows "world_ok (session_time_mark f w) = world_ok w" "w_client_parser (session_time_mark f w) = w_client_parser w"
  "w_server_parser (session_time_mark f w) = w_server_parser w"
  "w_config (session_time_mark f w) = w_config w"
  "s_post_buf (w_session (session_time_mark f w)) = s_post_buf (w_session w)"
  using assms by (simp_all add: session_time_mark_def gettimeofday_def world_ok_upd case_prod_beta)
    (simp add: world_ok_def)

lemma advance_keeps:
  "s_post_buf (advance_req_time d s) = s_post_buf s" "s_response_body (advance_req_time d s) = s_response_body s"
  "s_response_body_size (advance_req_time d s) = s_response_body_size s"
  "s_post_buf (advance_server_time d s) = s_post_buf s" "s_response_body (advance_server_time d s) = s_response_body s"
  "s_response_body_size (advance_server_time d s) = s_response_body_size s"
  "s_post_buf (advance_rep_time d s) = s_post_buf s" "s_response_body (advance_rep_time d s) = s_response_body s"
  "s_response_body_size (advance_rep_time d s) = s_response_body_size s"
  by (simp_all add: advance_req_time_def advance_server_time_def advance_rep_time_def)

lemmas mark_worlds [simp] =
  session_mark_world [of advance_req_time, OF advance_keeps(1-3)]
  session_mark_world [of advance_server_time, OF advance_keeps(4-6)]
  session_mark_world [of advance_rep_time, OF advance_keeps(7-9)]

lemma add_items_keeps [simp]:
  "s_post_buf (add_items_of r s) = s_post_buf s" "s_response_body (add_items_of r s) = s_response_body s"
  "s_response_body_size (add_items_of r s) = s_response_body_size s"
  by (simp_all add: add_items_of_def)

lemma world_ok_status [simp]:
  "world_ok (w\<lparr>w_status := x\<rparr>) = world_ok w" "world_ok (w\<lparr>w_client_parser := p\<rparr>) = world_ok w"
  "world_ok (w\<lparr>w_server_parser := p\<rparr>) = world_ok w"
  by (simp_all add: world_ok_def)

lemma request_begin_world [simp]:
  "world_ok (request_begin w) = world_ok w" "w_client_parser (request_begin w) = w_client_parser w"
  "w_server_parser (request_begin w) = w_server_parser w"
  by (simp_all add: request_begin_def Let_def gettimeofday_def case_prod_beta world_ok_upd)
    (simp add: world_ok_def body_ok_def session_time_start_def gettimeofday_def case_prod_beta)

lemma request_url_world [simp]:
  "world_ok (request_url at w) = world_ok w" "w_client_parser (request_url at w) = w_client_parser w"
  "w_server_parser (request_url at w) = w_server_parser w"
  by (simp_all add: request_url_def Let_def world_ok_upd case_prod_beta split: option.split)

lemma request_header_world [simp]:
  "world_ok (request_header_field at w) = world_ok w"
  "w_client_parser (request_header_field at w) = w_client_parser w"
  "w_server_parser (request_header_field at w) = w_server_parser w"
  "world_ok (request_header_value at w) = world_ok w"
  "w_client_parser (request_header_value at w) = w_client_parser w"
  "w_server_parser (request_header_value at w) = w_server_parser w"
  "world_ok (request_headers_complete w) = world_ok w"
  "w_client_parser (request_headers_complete w) = w_client_parser w"
  "w_server_parser (request_headers_complete w) = w_server_parser w"
  by (simp_all add: request_header_field_def request_header_value_def request_headers_complete_def
      Let_def world_ok_upd split: option.split)

lemma request_complete_world [simp]:
  "world_ok (request_complete w) = world_ok w" "w_client_parser (request_complete w) = w_client_parser w"
  "w_server_parser (request_complete w) = w_server_parser w"
  by (simp_all add: request_complete_def Let_def world_ok_upd)

lemma response_world [simp]:
  "world_ok (response_begin w) = world_ok w" "w_client_parser (response_begin w) = w_client_parser w"
  "w_server_parser (response_begin w) = w_server_parser w"
  "world_ok (response_header_field at w) = world_ok w"
  "w_client_parser (response_header_field at w) = w_client_parser w"
  "w_server_parser (response_header_field at w) = w_server_parser w"
  "world_ok (response_header_value at w) = world_ok w"
  "w_client_parser (response_header_value at w) = w_client_parser w"
  "w_server_parser (response_header_value at w) = w_server_parser w"
  "w_client_parser (response_body at w) = w_client_parser w"
  "w_server_parser (response_body at w) = w_server_parser w"
  by (simp_all add: response_begin_def response_header_field_def response_header_value_def
      response_body_def world_ok_upd split: option.split)

text \<open>The captured body: the size is kept exactly and below 65535.\<close>

lemma response_body_ok:
  assumes "world_ok w"
  shows "world_ok (response_body at w)"
proof -
  let ?s = "w_session w"
  have "unat (s_response_body_size ?s + of_nat (length at)) = unat (s_response_body_size ?s) + length at"
    if "unat (s_response_body_size ?s) + length at < 65535"
    using that by (simp add: unat_word_ariths unat_of_nat take_bit_nat_eq_self)
  with assms show ?thesis by (auto simp: world_ok_def body_ok_def response_body_def)
qed

text \<open>The status code that indexes \<open>catch_code\<close> is one the parser accepts.\<close>

lemma response_headers_complete_ok:
  assumes "world_ok w" "num_inv (w_server_parser w)"
  shows "world_ok (response_headers_complete w)"
    "w_client_parser (response_headers_complete w) = w_client_parser w"
    "w_server_parser (response_headers_complete w) = w_server_parser w"
proof -
  have "unat (hp_status_code (w_server_parser w)) \<le> 999"
    using assms(2) by (simp add: num_inv_def word_le_nat_alt)
  moreover have "length (cf_catch_code (w_config w)) = 1000" using assms(1) by (simp add: world_ok_def)
  ultimately show "world_ok (response_headers_complete w)"
    "w_client_parser (response_headers_complete w) = w_client_parser w"
    "w_server_parser (response_headers_complete w) = w_server_parser w"
    using assms(1) by (simp_all add: response_headers_complete_def Let_def world_ok_upd)
qed

text \<open>The report leaves a fresh session.\<close>

lemma kv_type_string_faults: "f \<in> set (snd (kv_type_string t k)) \<Longrightarrow> \<exists>r. f = JoinOverflow r"
  by (cases t) (auto simp: join_def Let_def split: if_splits)

lemma session_report_ok:
  assumes "world_ok w"
  shows "world_ok (session_report w ty)"
proof (cases "s_need_report (w_session w)")
  case True
  with assms session_report_other [OF True, of ty] kv_type_string_faults show ?thesis
    by (auto simp: world_ok_def body_ok_def session_zero_def)
qed (simp add: session_report_def assms)

lemma session_report_parsers:
  "w_client_parser (session_report w ty) \<in> {w_client_parser w, http_parser_init HTTP_REQUEST}"
  "w_server_parser (session_report w ty) \<in> {w_server_parser w, http_parser_init HTTP_RESPONSE}"
  using session_report_other [of w ty]
  by (cases "s_need_report (w_session w)"; simp add: session_report_def)+

section \<open>The form body\<close>

lemma parse_post_extend:
  assumes "fst (parse_post c buf False) = Some 0" "fst (parse_post c (buf @ q) False) = Some m"
  shows "m = 0 \<or> length buf \<le> m"
proof (cases "q = []")
  case False
  then show ?thesis using parse_extend [of "CHR ''&''" buf T_POST "cf_catch_post c" 0 q m] assms
    by (auto simp: parse_post_def)
qed (use assms in simp)

lemma body_rest_ok:
  assumes "world_ok w"
  shows "world_ok (snd (body_rest at w))" "w_config (snd (body_rest at w)) = w_config w"
    "w_client_parser (snd (body_rest at w)) = w_client_parser w"
    "w_server_parser (snd (body_rest at w)) = w_server_parser w"
proof -
  let ?c = "w_config w" and ?buf = "s_post_buf (w_session w)"
  let ?new = "?buf @ take (POST_BUF_LENGTH - length ?buf - 1) at"
  let ?r = "parse_post ?c ?new False"
  have len: "length ?new < POST_BUF_LENGTH"
  proof -
    have "length ?buf < 4096" using assms by (simp add: world_ok_def post_ok_def POST_BUF_LENGTH_def)
    moreover have "length (take (POST_BUF_LENGTH - length ?buf - 1) at) \<le> 4095 - length ?buf"
      by (simp add: POST_BUF_LENGTH_def)
    ultimately show ?thesis unfolding length_append POST_BUF_LENGTH_def by linarith
  qed
  have next_ge: "m = 0 \<or> length ?buf \<le> m" if "fst ?r = Some m" "?buf \<noteq> []" for m
    using assms that by (intro parse_post_extend [of ?c ?buf]) (simp_all add: world_ok_def post_ok_def)
  have drop_ok: "world_ok (upd_session (\<lambda>s. s\<lparr>s_post_buf := []\<rparr>)
      (upd_session (add_items_of ?r) (upd_session (buf_push at) w)))"
    using assms by (simp add: world_ok_def body_ok_def buf_push_def)
  have keep_ok: "world_ok (upd_session (add_items_of ?r) (upd_session (buf_push at) w))" if "fst ?r = Some 0"
    using assms that len by (simp add: world_ok_def body_ok_def buf_push_def post_ok_def)
  show "world_ok (snd (body_rest at w))"
    using assms drop_ok keep_ok next_ge
    by (auto simp: body_rest_def Let_def buf_push_def split: option.split)
  show "w_config (snd (body_rest at w)) = w_config w"
    "w_client_parser (snd (body_rest at w)) = w_client_parser w"
    "w_server_parser (snd (body_rest at w)) = w_server_parser w"
    by (simp_all add: body_rest_def Let_def fault_def split: option.split)
qed

lemma body_fresh_ok:
  assumes "world_ok w"
  shows "world_ok (body_fresh at w)" "w_client_parser (body_fresh at w) = w_client_parser w"
    "w_server_parser (body_fresh at w) = w_server_parser w"
proof -
  have again: "fst (parse_post (w_config w) (drop p at) False) = Some 0"
    if "fst (parse_post (w_config w) at False) = Some p" for p
    using parse_again(2) [of "CHR ''&''" at T_POST "cf_catch_post (w_config w)" p] that
    by (simp add: parse_post_def)
  then show "world_ok (body_fresh at w)"
    using assms by (auto simp: body_fresh_def Let_def world_ok_def body_ok_def buf_push_def post_ok_def
        POST_BUF_LENGTH_def split: option.split)
  show "w_client_parser (body_fresh at w) = w_client_parser w"
    "w_server_parser (body_fresh at w) = w_server_parser w"
    by (simp_all add: body_fresh_def Let_def split: option.split)
qed

lemma request_body_ok:
  assumes "world_ok w"
  shows "world_ok (request_body at w)"
  using body_rest_ok(1) [OF assms] body_fresh_ok(1) assms by (auto simp: request_body_def case_prod_beta)

lemma body_rest_parsers:
  "w_client_parser (snd (body_rest at w)) = w_client_parser w"
  "w_server_parser (snd (body_rest at w)) = w_server_parser w"
  by (simp_all add: body_rest_def Let_def fault_def split: option.split)

lemma body_fresh_parsers:
  "w_client_parser (body_fresh at w) = w_client_parser w"
  "w_server_parser (body_fresh at w) = w_server_parser w"
  by (simp_all add: body_fresh_def Let_def split: option.split)

lemma request_body_parsers [simp]:
  "w_client_parser (request_body at w) = w_client_parser w"
  "w_server_parser (request_body at w) = w_server_parser w"
  by (simp_all add: request_body_def case_prod_beta body_rest_parsers body_fresh_parsers)

section \<open>What no callback changes\<close>

text \<open>The configuration and the number of connections are not the session's to change.\<close>

definition world_frame :: "world \<Rightarrow> configuration \<times> u32" where
  "world_frame w = (w_config w, st_conn (w_status w))"

lemma frame_upd [simp]:
  "world_frame (upd_session f w) = world_frame w" "world_frame (fault e w) = world_frame w"
  "world_frame (w\<lparr>w_client_parser := p\<rparr>) = world_frame w"
  "world_frame (w\<lparr>w_server_parser := p\<rparr>) = world_frame w"
  by (simp_all add: world_frame_def upd_session_def fault_def)

lemma frame_time [simp]:
  "world_frame (session_time_start w) = world_frame w" "world_frame (session_time_mark f w) = world_frame w"
  by (simp_all add: session_time_start_def session_time_mark_def gettimeofday_def case_prod_beta)
    (simp_all add: world_frame_def)

lemma frame_report [simp]: "world_frame (session_report w ty) = world_frame w"
proof (cases "s_need_report (w_session w)")
  case True
  then show ?thesis using session_report_other [OF True, of ty] by (simp add: world_frame_def)
qed (simp add: session_report_def)

lemma frame_requests [simp]:
  "world_frame (request_url at w) = world_frame w"
  "world_frame (request_header_field at w) = world_frame w"
  "world_frame (request_header_value at w) = world_frame w"
  "world_frame (request_headers_complete w) = world_frame w"
  "world_frame (request_complete w) = world_frame w"
  by (simp_all add: request_url_def request_header_field_def request_header_value_def
      request_headers_complete_def request_complete_def Let_def case_prod_beta split: option.split)

lemma frame_request_begin [simp]: "world_frame (request_begin w) = world_frame w"
proof -
  have "world_frame (session_time_start (upd_session (\<lambda>s. s\<lparr>s_need_report := True\<rparr>) w)) = world_frame w"
    by simp
  then show ?thesis
    by (simp add: world_frame_def request_begin_def Let_def gettimeofday_def case_prod_beta)
qed

lemma frame_body_rest: "world_frame (snd (body_rest at w)) = world_frame w"
  by (simp add: body_rest_def Let_def split: option.split)

lemma frame_body_fresh: "world_frame (body_fresh at w) = world_frame w"
  by (simp add: body_fresh_def Let_def split: option.split)

lemma frame_bodies [simp]:
  "world_frame (request_body at w) = world_frame w" "world_frame (response_body at w) = world_frame w"
  by (simp_all add: request_body_def response_body_def case_prod_beta frame_body_rest frame_body_fresh)

lemma frame_responses [simp]:
  "world_frame (response_header_field at w) = world_frame w"
  "world_frame (response_header_value at w) = world_frame w"
  "world_frame (response_headers_complete w) = world_frame w"
  "world_frame (response_begin w) = world_frame w"
  "world_frame (response_complete w) = world_frame w"
  by (simp_all add: response_header_field_def response_header_value_def response_headers_complete_def
      response_begin_def response_complete_def Let_def split: option.split)

section \<open>The two clients of the parser\<close>

interpretation request: passive_client client_parser_settings
  by unfold_locales (auto simp: client_parser_settings_def client_cb_def Let_def)

interpretation request_world: http_client client_parser_settings
    "\<lambda>w. world_ok w \<and> parser_inv (w_server_parser w) \<and> world_frame w = fr" for fr
  by unfold_locales
    (auto simp: client_parser_settings_def client_cb_def Let_def request_body_ok)

lemma response_complete_ok:
  assumes "world_ok w" "parser_inv (w_client_parser w)"
  shows "world_ok (response_complete w)" "parser_inv (w_client_parser (response_complete w))"
    "w_server_parser (response_complete w) \<in> {w_server_parser w, http_parser_init HTTP_RESPONSE}"
proof -
  let ?w = "session_time_mark advance_rep_time w"
  have "parser_inv (w_client_parser (session_report ?w Success))"
    using session_report_parsers(1) [of ?w Success] assms(2) parser_inv_init by auto
  with assms show "parser_inv (w_client_parser (response_complete w))"
    by (simp add: response_complete_def)
  show "world_ok (response_complete w)" using assms by (simp add: response_complete_def session_report_ok)
  show "w_server_parser (response_complete w) \<in> {w_server_parser w, http_parser_init HTTP_RESPONSE}"
    using session_report_parsers(2) [of ?w Success] by (simp add: response_complete_def)
qed

interpretation response_world: http_client server_parser_settings
    "\<lambda>w. world_ok w \<and> parser_inv (w_client_parser w) \<and> world_frame w = fr" for fr
proof (unfold_locales, goal_cases)
  case (5 f u p)
  then show ?case using response_headers_complete_ok [of "u\<lparr>w_server_parser := p\<rparr>"]
    by (auto simp: server_parser_settings_def server_cb_def Let_def)
next
  case (7 f u p)
  then show ?case using response_complete_ok [of "u\<lparr>w_server_parser := p\<rparr>"]
    by (auto simp: server_parser_settings_def server_cb_def Let_def)
qed (auto simp: server_parser_settings_def server_cb_def Let_def response_body_ok)

definition session_inv :: "world \<Rightarrow> bool" where
  "session_inv w \<longleftrightarrow> world_ok w \<and> parser_inv (w_client_parser w) \<and> parser_inv (w_server_parser w)"

lemma handle_data:
  assumes "session_inv w"
  shows "\<exists>w'. session_handle_data client_new server_new w = Some w' \<and> session_inv w' \<and>
    world_frame w' = world_frame w"
proof (cases "client_new = []")
  case True
  from assms have "world_ok w \<and> parser_inv (w_server_parser w) \<and> world_frame w = world_frame w"
    "parser_inv (w_client_parser w)"
    by (simp_all add: session_inv_def)
  from request_world.execute_post [OF this(2,1), of server_new] obtain n p w' where
    "http_parser_execute client_parser_settings (w_client_parser w) w server_new = Executed n p w'"
    "parser_inv p" "world_ok w'" "parser_inv (w_server_parser w')" "world_frame w' = world_frame w" by blast
  then show ?thesis using True by (simp add: session_handle_data_def session_inv_def)
next
  case False
  from assms have "world_ok w \<and> parser_inv (w_client_parser w) \<and> world_frame w = world_frame w"
    "parser_inv (w_server_parser w)"
    by (simp_all add: session_inv_def)
  from response_world.execute_post [OF this(2,1), of client_new] obtain n p w' where
    "http_parser_execute server_parser_settings (w_server_parser w) w client_new = Executed n p w'"
    "parser_inv p" "world_ok w'" "parser_inv (w_client_parser w')" "world_frame w' = world_frame w" by blast
  then show ?thesis using False by (simp add: session_handle_data_def session_inv_def)
qed

section \<open>Properties\<close>

text \<open>
  C6: data of a connection never breaks the session. Whatever bytes either side sends, the
  parser comes back; the status code never indexes outside of \<open>catch_code\<close>, the cursor of the
  form body never moves in front of its piece, the post buffer never outgrows its 4096 bytes
  and holds one pair, and the recorded size of the captured body is the sum of its pieces.
\<close>

theorem handle_data_safe:
  assumes "session_inv w"
  shows "\<exists>w'. session_handle_data client_new server_new w = Some w' \<and> session_inv w'"
  using handle_data [OF assms] by blast

theorem handle_data_safe_witness:
  "\<exists>w'. session_handle_data [] ''GET / HTTP/1.1'' (sample_world session_zero) = Some w' \<and> session_inv w'"
  by (rule handle_data_safe)
    (simp add: session_inv_def world_ok_def sample_world_def body_ok_def session_zero_def parser_inv_init
      default_config_def empty_config_def)

definition form_world :: world where
  "form_world = (sample_world session_zero)
     \<lparr>w_config := (default_config empty_config)\<lparr>cf_catch_code := [], cf_catch_post := [''*'']\<rparr>\<rparr>"

text \<open>
   a pair of a form can be collected twice. When a piece of the body ends with the
  separator, the pointer to its last, already finished, pair is returned and the pair is kept
  in the buffer; with the next piece it is scanned, and collected, again.
\<close>

theorem form_pair_twice:
  "map kv_key (s_proplist (w_session (request_complete (request_body ''b=2'' (request_body ''a=1&'' form_world))))) =
     [''b'', ''a'', ''a''] \<and>
   map kv_key (s_proplist (w_session (request_complete (request_body ''a=1&b=2'' form_world)))) = [''b'', ''a'']"
  by code_simp

text \<open>
  A plain text body is taken for a multipart one: the content type is compared with
  \<open>>= 0\<close> instead of \<open>== 0\<close>, so for every type that sorts behind \<open>multipart\<close> the form is not
  read, while one that sorts before it is.
\<close>

theorem text_taken_for_multipart:
  "s_proplist (w_session (request_body ''a=1&'' (request_header_value ''text/plain''
     (request_header_field ''Content-Type'' form_world)))) = [] \<and>
   map kv_key (s_proplist (w_session (request_body ''a=1&'' (request_header_value ''application/x''
     (request_header_field ''Content-Type'' form_world))))) = [''a'']"
  by code_simp

end
