(* ===== verification/Packet.thy ===== *)
theory Packet
  imports Bscope_Prelude
begin

text \<open>
  Packets as bytes: the loads of the fields of IP and TCP headers, the checksums
  (src/src/libnids-1.24/src/checksum.c, the branch for machines other than i386) and the TCP
  options (tcp.c). The machine is little endian. A load behind the end of the packet reads 0;
  what is read before the lengths are checked is in the packet.
\<close>

section \<open>Loads\<close>

definition byte_at :: "string \<Rightarrow> nat \<Rightarrow> nat" where
  "byte_at d i = (if i < length d then uchar (d ! i) else 0)"

text \<open>Network byte order (\<open>ntohs\<close>, \<open>ntohl\<close> of the field), and as the machine loads it.\<close>

definition be16 :: "string \<Rightarrow> nat \<Rightarrow> u16" where
  "be16 d i = of_nat (byte_at d i * 256 + byte_at d (i + 1))"

definition be32 :: "string \<Rightarrow> nat \<Rightarrow> u32" where
  "be32 d i = of_nat (((byte_at d i * 256 + byte_at d (i + 1)) * 256 + byte_at d (i + 2)) * 256 + byte_at d (i + 3))"

definition le16 :: "string \<Rightarrow> nat \<Rightarrow> nat" where
  "le16 d i = byte_at d i + 256 * byte_at d (i + 1)"

definition le32 :: "string \<Rightarrow> nat \<Rightarrow> u32" where
  "le32 d i = of_nat (byte_at d i + 256 * (byte_at d (i + 1) + 256 * (byte_at d (i + 2) + 256 * byte_at d (i + 3))))"

section \<open>\<open>struct ip\<close> and \<open>struct tcphdr\<close>\<close>

definition ip_hl :: "string \<Rightarrow> nat" where "ip_hl p = byte_at p 0 mod 16"
definition ip_v :: "string \<Rightarrow> nat" where "ip_v p = byte_at p 0 div 16"
definition ip_len :: "string \<Rightarrow> u16" where "ip_len p = be16 p 2"
definition ip_p :: "string \<Rightarrow> nat" where "ip_p p = byte_at p 9"
definition ip_src :: "string \<Rightarrow> u32" where "ip_src p = le32 p 12"
definition ip_dst :: "string \<Rightarrow> u32" where "ip_dst p = le32 p 16"

text \<open>A TCP header is what follows the IP header.\<close>

definition tcp_header :: "string \<Rightarrow> string" where "tcp_header p = drop (4 * ip_hl p) p"

definition th_sport :: "string \<Rightarrow> u16" where "th_sport th = be16 th 0"
definition th_dport :: "string \<Rightarrow> u16" where "th_dport th = be16 th 2"
definition th_seq :: "string \<Rightarrow> u32" where "th_seq th = be32 th 4"
definition th_ack :: "string \<Rightarrow> u32" where "th_ack th = be32 th 8"
definition th_off :: "string \<Rightarrow> nat" where "th_off th = byte_at th 12 div 16"
definition th_flags :: "string \<Rightarrow> u8" where "th_flags th = of_nat (byte_at th 13)"
definition th_win :: "string \<Rightarrow> u16" where "th_win th = be16 th 14"
definition th_urp :: "string \<Rightarrow> u16" where "th_urp th = be16 th 18"

definition TH_FIN :: u8 where "TH_FIN = 0x01"
definition TH_SYN :: u8 where "TH_SYN = 0x02"
definition TH_RST :: u8 where "TH_RST = 0x04"
definition TH_ACK :: u8 where "TH_ACK = 0x10"
definition TH_URG :: u8 where "TH_URG = 0x20"

definition flag_set :: "string \<Rightarrow> u8 \<Rightarrow> bool" where
  "flag_set th f \<longleftrightarrow> th_flags th AND f \<noteq> 0"

definition TCPHDR_SIZE :: nat where "TCPHDR_SIZE = 20"

section \<open>Checksums\<close>

text \<open>
  \<open>struct nids_chksum_ctl\<close>: networks whose packets are (not) to be checked, in order. The
  parameters are \<open>skip_checksum\<close> and the registered list.
\<close>

record nids_chksum_ctl =
  ck_netaddr :: u32
  ck_mask :: u32
  ck_action :: int

fun chksum_action :: "nids_chksum_ctl list \<Rightarrow> u32 \<Rightarrow> int" where
  "chksum_action [] ip = 0"
| "chksum_action (c # cs) ip = (if ip AND ck_mask c = ck_netaddr c then ck_action c else chksum_action cs ip)"

definition dontchksum :: "bool \<Rightarrow> nids_chksum_ctl list \<Rightarrow> u32 \<Rightarrow> bool" where
  "dontchksum skip_checksum nchk ip = (if skip_checksum then True else chksum_action nchk ip \<noteq> 0)"

text \<open>
  The sum of the 16 bit words, an odd byte last; the 32 bit accumulator does not overflow on
  the 65535 bytes of a packet. Then the carries are added back and the sum is complemented.
\<close>

function word_sum :: "string \<Rightarrow> nat \<Rightarrow> nat \<Rightarrow> nat" where
  "word_sum d i nleft =
     (if nleft > 1 then le16 d i + word_sum d (i + 2) (nleft - 2)
      else if nleft = 1 then byte_at d i else 0)"
  by pat_completeness auto
termination by (relation "measure (\<lambda>(_, _, n). n)") auto

declare word_sum.simps [simp del]

definition fold_carries :: "nat \<Rightarrow> nat" where
  "fold_carries sum0 =
     (let sum1 = sum0 div 65536 + sum0 mod 65536; sum2 = sum1 + sum1 div 65536 in
      65535 - sum2 mod 65536)"

definition ip_check_ext :: "string \<Rightarrow> nat \<Rightarrow> nat \<Rightarrow> u16" where
  "ip_check_ext addr len addon = of_nat (fold_carries (addon + word_sum addr 0 len))"

definition ip_fast_csum :: "bool \<Rightarrow> nids_chksum_ctl list \<Rightarrow> string \<Rightarrow> nat \<Rightarrow> u16" where
  "ip_fast_csum skip nchk addr len = (if dontchksum skip nchk (ip_src addr) then 0 else ip_check_ext addr (len * 4) 0)"

definition ip_compute_csum :: "string \<Rightarrow> nat \<Rightarrow> u16" where
  "ip_compute_csum addr len = ip_check_ext addr len 0"

text \<open>
  The pseudo header: both addresses, a zero, the protocol and the length in network order, as
  16 bit words.
\<close>

definition pseudo_sum :: "u32 \<Rightarrow> u32 \<Rightarrow> nat \<Rightarrow> nat \<Rightarrow> nat" where
  "pseudo_sum saddr daddr proto len =
     unat saddr mod 65536 + unat saddr div 65536 + unat daddr mod 65536 + unat daddr div 65536 +
     256 * proto + (len div 256 mod 256 + 256 * (len mod 256))"

definition my_tcp_check :: "bool \<Rightarrow> nids_chksum_ctl list \<Rightarrow> string \<Rightarrow> nat \<Rightarrow> u32 \<Rightarrow> u32 \<Rightarrow> u16" where
  "my_tcp_check skip nchk th len saddr daddr =
     (if dontchksum skip nchk saddr then 0 else ip_check_ext th len (pseudo_sum saddr daddr 6 len))"

definition my_udp_check :: "bool \<Rightarrow> nids_chksum_ctl list \<Rightarrow> string \<Rightarrow> nat \<Rightarrow> u32 \<Rightarrow> u32 \<Rightarrow> u16" where
  "my_udp_check skip nchk u len saddr daddr =
     (if dontchksum skip nchk saddr then 0 else ip_check_ext u len (pseudo_sum saddr daddr 17 len))"

section \<open>TCP options\<close>

text \<open>
  Both scans walk over the options from \<open>ind\<close>: an end, a no-operation, an option of length
  below 2 (which stops the scan), or any other. The result is the return value and the last
  value found.
\<close>

function get_ts_loop :: "string \<Rightarrow> int \<Rightarrow> nat \<Rightarrow> bool \<Rightarrow> u32 \<Rightarrow> bool \<times> u32" where
  "get_ts_loop options lim ind ret ts =
     (if int ind \<le> lim then
        (let kind = byte_at options ind; n = byte_at options (ind + 1) in
         if kind = 0 then (ret, ts)
         else if kind = 1 then get_ts_loop options lim (ind + 1) ret ts
         else
           let ret1 = (if kind = 8 then True else ret); ts1 = (if kind = 8 then be32 options (ind + 2) else ts) in
           if n < 2 then (ret1, ts1) else get_ts_loop options lim (ind + n) ret1 ts1)
      else (ret, ts))"
  by pat_completeness auto
termination by (relation "measure (\<lambda>(_, lim, ind, _, _). nat (lim + 1 - int ind))") auto

declare get_ts_loop.simps [simp del]

definition get_ts :: "string \<Rightarrow> u32 \<Rightarrow> bool \<times> u32" where
  "get_ts th ts = get_ts_loop (drop TCPHDR_SIZE th) (4 * int (th_off th) - int TCPHDR_SIZE - 10) 0 False ts"

function get_wscale_loop :: "string \<Rightarrow> int \<Rightarrow> nat \<Rightarrow> bool \<Rightarrow> u32 \<Rightarrow> bool \<times> u32" where
  "get_wscale_loop options lim ind ret ws =
     (if int ind \<le> lim then
        (let kind = byte_at options ind; n = byte_at options (ind + 1) in
         if kind = 0 then (ret, ws)
         else if kind = 1 then get_wscale_loop options lim (ind + 1) ret ws
         else
           let ret1 = (if kind = 3 then True else ret);
               ws1 = (if kind = 3 then push_bit (min 14 (byte_at options (ind + 2))) 1 else ws) in
           if n < 2 then (ret1, ws1) else get_wscale_loop options lim (ind + n) ret1 ws1)
      else (ret, ws))"
  by pat_completeness auto
termination by (relation "measure (\<lambda>(_, lim, ind, _, _). nat (lim + 1 - int ind))") auto

declare get_wscale_loop.simps [simp del]

definition get_wscale :: "string \<Rightarrow> bool \<times> u32" where
  "get_wscale th = get_wscale_loop (drop TCPHDR_SIZE th) (4 * int (th_off th) - int TCPHDR_SIZE - 3) 0 False 1"

section \<open>Sequence numbers\<close>

definition before :: "u32 \<Rightarrow> u32 \<Rightarrow> bool" where
  "before seq1 seq2 \<longleftrightarrow> sint (seq1 - seq2) < 0"

definition after :: "u32 \<Rightarrow> u32 \<Rightarrow> bool" where
  "after seq1 seq2 \<longleftrightarrow> sint (seq2 - seq1) < 0"


section \<open>The arithmetic of the checksum\<close>

lemma byte_at_less [simp]: "byte_at d i < 256"
  by (simp add: byte_at_def)

lemma le16_less: "le16 d i < 65536"
  using byte_at_less [of d i] byte_at_less [of d "i + 1"] unfolding le16_def by linarith

text \<open>Adding the carries back keeps the sum modulo 65535, in the range 1 to 65535 unless it is 0.\<close>

lemma fold_carries_spec:
  assumes "s < 2 ^ 32"
  obtains r where "fold_carries s = 65535 - r" "r \<le> 65535" "r mod 65535 = s mod 65535" "r = 0 \<longleftrightarrow> s = 0"
proof -
  define t where "t = s div 65536 + s mod 65536"
  have s: "s = t + 65535 * (s div 65536)"
  proof -
    have "s = s div 65536 * 65536 + s mod 65536" by simp
    then show ?thesis unfolding t_def by linarith
  qed
  have t: "s mod 65535 = t mod 65535"
    using arg_cong [OF s, of "\<lambda>x. x mod 65535"] by (simp only: mod_mult_self2)
  have le: "t \<le> 131070" using assms unfolding t_def by (simp add: less_mult_imp_div_less)
  have z: "t = 0 \<longleftrightarrow> s = 0" using s unfolding t_def by (metis add_eq_0_iff_both_eq_0 div_0 mod_0 mult_0_right)
  show thesis
  proof (cases "t < 65536")
    case True
    then show ?thesis using that [of t] t z by (simp add: fold_carries_def t_def [symmetric] Let_def)
  next
    case False
    then have "t div 65536 = 1" "t = 65536 + (t - 65536)" using le by (simp_all add: div_nat_eqI)
    then have "(t + t div 65536) mod 65536 = t - 65535" using le by (simp add: mod_if)
    moreover have "(t - 65535) mod 65535 = t mod 65535" using False by (simp add: mod_if)
    ultimately show ?thesis
      using that [of "t - 65535"] False t z le by (simp add: fold_carries_def t_def [symmetric] Let_def)
  qed
qed

lemma fold_carries_le: "fold_carries s \<le> 65535"
  by (simp add: fold_carries_def Let_def)

lemma fold_carries_zero_iff:
  assumes "s < 2 ^ 32"
  shows "fold_carries s = 0 \<longleftrightarrow> 0 < s \<and> 65535 dvd s"
proof -
  from fold_carries_spec [OF assms] obtain r where
    r: "fold_carries s = 65535 - r" "r \<le> 65535" "r mod 65535 = s mod 65535" "r = 0 \<longleftrightarrow> s = 0" .
  have "fold_carries s = 0 \<longleftrightarrow> r = 65535" using r(1,2) by simp
  also have "\<dots> \<longleftrightarrow> 0 < r \<and> r mod 65535 = 0" using r(2) by (cases "r = 65535") auto
  finally show ?thesis using r(3,4) by (auto simp: dvd_eq_mod_eq_0)
qed

lemma fold_carries_complement:
  assumes "s < 2 ^ 32" "s + fold_carries s < 2 ^ 32"
  shows "fold_carries (s + fold_carries s) = 0"
proof -
  from fold_carries_spec [OF assms(1)] obtain r where
    r: "fold_carries s = 65535 - r" "r \<le> 65535" "r mod 65535 = s mod 65535" "r = 0 \<longleftrightarrow> s = 0" .
  have "(s + (65535 - r)) mod 65535 = (r + (65535 - r)) mod 65535" using r(3) by (metis mod_add_left_eq)
  then have "65535 dvd s + fold_carries s" using r(1,2) by (simp add: dvd_eq_mod_eq_0)
  moreover have "0 < s + fold_carries s" using r by auto
  ultimately show ?thesis using assms(2) by (simp add: fold_carries_zero_iff)
qed

lemma word_sum_le: "word_sum d i n \<le> 65535 * (Suc n div 2)"
proof (induction d i n rule: word_sum.induct)
  case (1 d i n)
  show ?case
  proof (cases "n > 1")
    case True
    then have "Suc n div 2 = Suc (Suc (n - 2) div 2)" by presburger
    then show ?thesis using 1 True le16_less [of d i] by (simp add: word_sum.simps [of d i n])
  next
    case False
    have "byte_at d i \<le> 65535" using byte_at_less [of d i] by linarith
    then show ?thesis using False by (auto simp: word_sum.simps [of d i n])
  qed
qed

text \<open>Writing a 16 bit word over another changes the sum by their difference.\<close>

definition put16 :: "string \<Rightarrow> nat \<Rightarrow> nat \<Rightarrow> string" where
  "put16 d k w = d[k := char_of (w mod 256), k + 1 := char_of (w div 256)]"

lemma byte_at_put16:
  assumes "k + 1 < length d" "w < 65536"
  shows "byte_at (put16 d k w) i = (if i = k then w mod 256 else if i = k + 1 then w div 256 else byte_at d i)"
  using assms by (auto simp: byte_at_def put16_def nth_list_update uchar_def)

lemma le16_put16: "k + 1 < length d \<Longrightarrow> w < 65536 \<Longrightarrow> le16 (put16 d k w) k = w"
  by (simp add: le16_def byte_at_put16)

lemma word_sum_cong: "(\<And>j. i \<le> j \<Longrightarrow> j < i + n \<Longrightarrow> byte_at d j = byte_at e j) \<Longrightarrow> word_sum d i n = word_sum e i n"
proof (induction d i n rule: word_sum.induct)
  case (1 d i n)
  then show ?case by (auto simp: word_sum.simps [of _ i n] le16_def)
qed

lemma word_sum_put16:
  assumes "k + 1 < length d" "w < 65536" "i \<le> k" "k + 1 < i + n" "even (k - i)"
  shows "word_sum (put16 d k w) i n + le16 d k = word_sum d i n + w"
  using assms
proof (induction d i n rule: word_sum.induct)
  case (1 d i n)
  let ?e = "put16 d k w"
  have n: "n > 1" using 1 by linarith
  show ?case
  proof (cases "i = k")
    case True
    have "word_sum ?e (i + 2) (n - 2) = word_sum d (i + 2) (n - 2)"
      using 1 True by (intro word_sum_cong) (simp add: byte_at_put16)
    with n True 1 show ?thesis by (simp add: word_sum.simps [of _ k n] le16_put16)
  next
    case False
    have "i + 2 \<le> k"
    proof (rule ccontr)
      assume "\<not> i + 2 \<le> k"
      with False "1.prems"(3) have "k - i = 1" by linarith
      with "1.prems"(5) show False by simp
    qed
    moreover from this have "even (k - (i + 2))" using 1 by simp
    moreover have "le16 ?e i = le16 d i" using 1 \<open>i + 2 \<le> k\<close> by (simp add: le16_def byte_at_put16)
    ultimately show ?thesis using 1 n by (simp add: word_sum.simps [of _ i n])
  qed
qed


lemma pseudo_sum_le: "pseudo_sum saddr daddr proto len \<le> 5 * 65535 + 256 * proto"
proof -
  have a: "unat a mod 65536 \<le> 65535" "unat a div 65536 \<le> 65535" for a :: u32
    using unsigned_less [of a, where ?'a = nat] by (simp_all add: less_mult_imp_div_less flip: less_Suc_eq_le)
  have "len div 256 mod 256 + 256 * (len mod 256) \<le> 65535"
  proof -
    have "len div 256 mod 256 \<le> 255" "len mod 256 \<le> 255" by (simp_all flip: less_Suc_eq_le)
    then show ?thesis by linarith
  qed
  with a [of saddr] a [of daddr] show ?thesis unfolding pseudo_sum_def by linarith
qed

lemma ip_check_ext_zero_iff: "ip_check_ext d len addon = 0 \<longleftrightarrow> fold_carries (addon + word_sum d 0 len) = 0"
proof -
  have "fold_carries (addon + word_sum d 0 len) < 2 ^ 16"
    using fold_carries_le [of "addon + word_sum d 0 len"] by simp
  then have "unat (of_nat (fold_carries (addon + word_sum d 0 len)) :: u16) = fold_carries (addon + word_sum d 0 len)"
    by (simp add: unat_of_nat take_bit_nat_eq_self)
  then show ?thesis unfolding ip_check_ext_def by (metis unat_eq_zero of_nat_0)
qed

lemma segment_sum_less:
  assumes "len \<le> 65535"
  shows "pseudo_sum saddr daddr 6 len + word_sum d 0 len + 65535 < 2 ^ 32"
proof -
  have "Suc len div 2 \<le> 32768" using assms by (simp add: div_le_mono less_eq_div_iff_mult_less_eq)
  then have "word_sum d 0 len \<le> 65535 * 32768" using word_sum_le [of d 0 len] by linarith
  with pseudo_sum_le [of saddr daddr 6 len] show ?thesis by simp
qed

section \<open>Properties\<close>



text \<open>
  C38: a changed word is noticed. When the check accepts a segment and one of its 16 bit words
  is replaced by another, the check refuses it, except when 0 is replaced by 65535 or the other
  way round, which the sum cannot tell apart.
\<close>

theorem tcp_checksum_detects:
  assumes "my_tcp_check False nchk th len saddr daddr = 0" "chksum_action nchk saddr = 0"
    and "even k" "k + 1 < len" "len \<le> length th" "len \<le> 65535"
    and "w < 65536" "w \<noteq> le16 th k" "{w, le16 th k} \<noteq> {0, 65535}"
  shows "my_tcp_check False nchk (put16 th k w) len saddr daddr \<noteq> 0"
proof -
  let ?p = "pseudo_sum saddr daddr 6 len" and ?v = "le16 th k"
  let ?s = "?p + word_sum th 0 len" and ?t = "?p + word_sum (put16 th k w) 0 len"
  have lt: "?s < 2 ^ 32" "?t < 2 ^ 32"
    using segment_sum_less [OF assms(6), of saddr daddr th] segment_sum_less [OF assms(6), of saddr daddr "put16 th k w"]
    by linarith+
  have "fold_carries ?s = 0"
    using assms(1,2) by (simp add: my_tcp_check_def dontchksum_def ip_check_ext_zero_iff)
  then have s: "65535 dvd ?s" using fold_carries_zero_iff [OF lt(1)] by simp
  have sum: "?t + ?v = ?s + w"
    using word_sum_put16 [of k th w 0 len] assms(3-5,7) by simp
  have "\<not> 65535 dvd ?t"
  proof
    assume "65535 dvd ?t"
    then have "int 65535 dvd int ?t - int ?s" using s by (intro dvd_diff) (simp_all only: of_nat_dvd_iff)
    moreover have "int ?t - int ?s = int w - int ?v" using sum by linarith
    ultimately have "int 65535 dvd int w - int ?v" by (simp only:)
    moreover have "\<bar>int w - int ?v\<bar> \<le> 65535" "int w - int ?v \<noteq> 0"
      using assms(7,8) le16_less [of th k] by linarith+
    ultimately have "\<bar>int w - int ?v\<bar> = 65535" using zdvd_imp_le [of "int 65535" "\<bar>int w - int ?v\<bar>"] by simp
    then have "w = 0 \<and> ?v = 65535 \<or> w = 65535 \<and> ?v = 0" using assms(7) le16_less [of th k] by linarith
    with assms(9) show False by auto
  qed
  then have "fold_carries ?t \<noteq> 0" using fold_carries_zero_iff [OF lt(2)] by simp
  then show ?thesis using assms(2) by (simp add: my_tcp_check_def dontchksum_def ip_check_ext_zero_iff)
qed


theorem tcp_checksum_detects_witness:
  "my_tcp_check False [] (put16 (''sourcedestinatio'' @ [CHR 0x43, CHR 0x10] @ ''ab'') 18 7) 20 1 2 \<noteq> 0"
proof (rule tcp_checksum_detects)
  show "my_tcp_check False [] (''sourcedestinatio'' @ [CHR 0x43, CHR 0x10] @ ''ab'') 20 1 2 = 0"
    by (simp add: my_tcp_check_def dontchksum_def ip_check_ext_def pseudo_sum_def word_sum.simps le16_def
        byte_at_def uchar_def fold_carries_def Let_def)
qed (simp_all add: le16_def byte_at_def uchar_def doubleton_eq_iff)

end
