(* ===== verification/TcpStream.thy ===== *)
theory TcpStream
  imports Config Packet
begin

text \<open>
  One TCP stream of libnids (src/src/libnids-1.24/src/tcp.c, nids.h, util.h): its two halves
  with their buffers and queues, the notification of the listeners, and the reassembly of the
  segments. What a listener does is a parameter \<open>proc\<close>: the function called \<open>f\<close> takes the
  index of the stream, the stream, its own data and the state of the client program, and
  returns all but the index.
\<close>

section \<open>The state of a stream\<close>

datatype tcp_state = TCP_ESTABLISHED | TCP_SYN_SENT | TCP_SYN_RECV | TCP_FIN_WAIT1 | TCP_FIN_WAIT2
  | TCP_TIME_WAIT | TCP_CLOSE | TCP_CLOSE_WAIT | TCP_LAST_ACK | TCP_LISTEN | TCP_CLOSING
  | FIN_SENT | FIN_CONFIRMED

datatype nids_state = NIDS_JUST_EST | NIDS_DATA | NIDS_CLOSE | NIDS_RESET | NIDS_TIMED_OUT | NIDS_EXITING

text \<open>A queued segment, \<open>struct skbuff\<close>; the list it is in is a list.\<close>

record skbuff =
  sk_data :: string
  sk_len :: nat
  sk_truesize :: int
  sk_urg_ptr :: u16
  sk_fin :: bool
  sk_urg :: bool
  sk_seq :: u32

text \<open>
  \<open>struct half_stream\<close>. \<open>hs_data\<close> is the buffer up to its last byte written, \<open>hs_bufsize\<close> the
  size that is allocated for it (0 for a NULL pointer). The counters of bytes are \<open>int\<close>s of 32
  bits that wrap around; where their sign matters they are read as signed.
\<close>

record half_stream =
  hs_state :: tcp_state
  hs_collect :: u8
  hs_collect_urg :: u8
  hs_data :: string
  hs_offset :: u32
  hs_count :: u32
  hs_count_new :: int
  hs_bufsize :: int
  hs_rmem_alloc :: int
  hs_urg_count :: u32
  hs_seq :: u32
  hs_ack_seq :: u32
  hs_first_data_seq :: u32
  hs_urgdata :: char
  hs_count_new_urg :: bool
  hs_urg_seen :: bool
  hs_urg_ptr :: u32
  hs_window :: u16
  hs_ts_on :: bool
  hs_wscale_on :: bool
  hs_curr_ts :: u32
  hs_wscale :: u32
  hs_list :: "skbuff list"

text \<open>\<open>struct lurker_node\<close>: the function, its data and the events it listens to.\<close>

record lurker_node =
  lk_item :: nat
  lk_data :: u64
  lk_whatto :: u8

definition COLLECT_cc :: u8 where "COLLECT_cc = 1"
definition COLLECT_sc :: u8 where "COLLECT_sc = 2"
definition COLLECT_ccu :: u8 where "COLLECT_ccu = 4"
definition COLLECT_scu :: u8 where "COLLECT_scu = 8"

record tcp_stream =
  ts_addr :: tuple4
  ts_nids_state :: "nids_state option"
  ts_listeners :: "lurker_node list"
  ts_client :: half_stream
  ts_server :: half_stream
  ts_read :: int
  ts_user :: u64
  ts_hash_index :: nat

datatype side = Client | Server

primrec half :: "side \<Rightarrow> tcp_stream \<Rightarrow> half_stream" where
  "half Client s = ts_client s"
| "half Server s = ts_server s"

primrec set_half :: "side \<Rightarrow> half_stream \<Rightarrow> tcp_stream \<Rightarrow> tcp_stream" where
  "set_half Client h s = s\<lparr>ts_client := h\<rparr>"
| "set_half Server h s = s\<lparr>ts_server := h\<rparr>"

primrec opposite :: "side \<Rightarrow> side" where
  "opposite Client = Server"
| "opposite Server = Client"

text \<open>
  What the functions on a stream reach: the stream, the list of closing timeouts, the time of
  the last packet, and the client program. The parameters of libnids that matter here.
\<close>

record 'w tcp_ctx =
  cx_stream :: tcp_stream
  cx_timeouts :: "(nat \<times> int) list"
  cx_now :: int
  cx_client :: 'w

record nids_prm =
  np_n_tcp_streams :: int
  np_one_loop_less :: bool
  np_tcp_workarounds :: bool
  np_skip_checksum :: bool
  np_chksum_ctl :: "nids_chksum_ctl list"

type_synonym 'w lurker_proc = "nat \<Rightarrow> nat \<Rightarrow> tcp_stream \<Rightarrow> u64 \<Rightarrow> 'w \<Rightarrow> tcp_stream \<times> u64 \<times> 'w"

definition upd_half :: "side \<Rightarrow> (half_stream \<Rightarrow> half_stream) \<Rightarrow> 'w tcp_ctx \<Rightarrow> 'w tcp_ctx" where
  "upd_half x f c = c\<lparr>cx_stream := set_half x (f (half x (cx_stream c))) (cx_stream c)\<rparr>"

section \<open>Closing timeouts\<close>

fun insert_timeout :: "nat \<times> int \<Rightarrow> (nat \<times> int) list \<Rightarrow> (nat \<times> int) list" where
  "insert_timeout new [] = [new]"
| "insert_timeout new (t # ts) =
     (if fst t = fst new then t # ts
      else if snd t > snd new then new # t # ts
      else t # insert_timeout new ts)"

definition add_tcp_closing_timeout :: "nids_prm \<Rightarrow> nat \<Rightarrow> 'w tcp_ctx \<Rightarrow> 'w tcp_ctx" where
  "add_tcp_closing_timeout prm i c =
     (if \<not> np_tcp_workarounds prm then c
      else c\<lparr>cx_timeouts := insert_timeout (i, cx_now c + 10) (cx_timeouts c)\<rparr>)"

fun remove_timeout :: "nat \<Rightarrow> (nat \<times> int) list \<Rightarrow> (nat \<times> int) list" where
  "remove_timeout i [] = []"
| "remove_timeout i (t # ts) = (if fst t = i then ts else t # remove_timeout i ts)"

definition del_tcp_closing_timeout :: "nids_prm \<Rightarrow> nat \<Rightarrow> (nat \<times> int) list \<Rightarrow> (nat \<times> int) list" where
  "del_tcp_closing_timeout prm i ts = (if \<not> np_tcp_workarounds prm then ts else remove_timeout i ts)"

section \<open>Calling the listeners\<close>

text \<open>
  A listener that raises or lowers one of the four counters of collectors starts or stops
  listening to the events of that counter.
\<close>

definition whatto_step :: "u8 \<Rightarrow> u8 \<Rightarrow> u8 \<Rightarrow> u8 \<Rightarrow> u8" where
  "whatto_step flag old new w =
     (let w1 = (if old <s new then w OR flag else w) in if new <s old then w1 AND NOT flag else w1)"

definition whatto_after :: "tcp_stream \<Rightarrow> tcp_stream \<Rightarrow> u8 \<Rightarrow> u8" where
  "whatto_after s s' w =
     whatto_step COLLECT_scu (hs_collect_urg (ts_server s)) (hs_collect_urg (ts_server s'))
      (whatto_step COLLECT_sc (hs_collect (ts_server s)) (hs_collect (ts_server s'))
       (whatto_step COLLECT_ccu (hs_collect_urg (ts_client s)) (hs_collect_urg (ts_client s'))
        (whatto_step COLLECT_cc (hs_collect (ts_client s)) (hs_collect (ts_client s')) w)))"

fun ride_loop :: "'w lurker_proc \<Rightarrow> nat \<Rightarrow> u8 \<Rightarrow> lurker_node list \<Rightarrow> 'w tcp_ctx \<Rightarrow> lurker_node list \<times> 'w tcp_ctx" where
  "ride_loop proc i msk [] c = ([], c)"
| "ride_loop proc i msk (l # ls) c =
     (if lk_whatto l AND msk \<noteq> 0 then
        (case proc (lk_item l) i (cx_stream c) (lk_data l) (cx_client c) of (s', d, w) \<Rightarrow>
          let l' = l\<lparr>lk_data := d, lk_whatto := whatto_after (cx_stream c) s' (lk_whatto l)\<rparr> in
          case ride_loop proc i msk ls (c\<lparr>cx_stream := s', cx_client := w\<rparr>) of (ls', c') \<Rightarrow> (l' # ls', c'))
      else (case ride_loop proc i msk ls c of (ls', c') \<Rightarrow> (l # ls', c')))"

definition set_listeners :: "lurker_node list \<times> 'w tcp_ctx \<Rightarrow> 'w tcp_ctx" where
  "set_listeners = (\<lambda>(ls, c). c\<lparr>cx_stream := (cx_stream c)\<lparr>ts_listeners := ls\<rparr>\<rparr>)"

definition ride_lurkers :: "'w lurker_proc \<Rightarrow> nat \<Rightarrow> u8 \<Rightarrow> 'w tcp_ctx \<Rightarrow> 'w tcp_ctx" where
  "ride_lurkers proc i msk c = set_listeners (ride_loop proc i msk (ts_listeners (cx_stream c)) c)"

text \<open>The loop that tells every listener of a new state of the stream.\<close>

fun tell_loop :: "'w lurker_proc \<Rightarrow> nat \<Rightarrow> lurker_node list \<Rightarrow> 'w tcp_ctx \<Rightarrow> lurker_node list \<times> 'w tcp_ctx" where
  "tell_loop proc i [] c = ([], c)"
| "tell_loop proc i (l # ls) c =
     (case proc (lk_item l) i (cx_stream c) (lk_data l) (cx_client c) of (s', d, w) \<Rightarrow>
       case tell_loop proc i ls (c\<lparr>cx_stream := s', cx_client := w\<rparr>) of (ls', c') \<Rightarrow> (l\<lparr>lk_data := d\<rparr> # ls', c'))"

definition tell_listeners :: "'w lurker_proc \<Rightarrow> nat \<Rightarrow> nids_state \<Rightarrow> 'w tcp_ctx \<Rightarrow> 'w tcp_ctx" where
  "tell_listeners proc i st c =
     (let c1 = c\<lparr>cx_stream := (cx_stream c)\<lparr>ts_nids_state := Some st\<rparr>\<rparr> in
      set_listeners (tell_loop proc i (ts_listeners (cx_stream c1)) c1))"

text \<open>\<open>nids_discard\<close>, which a listener may call: keep what it has not read.\<close>

definition nids_discard :: "int \<Rightarrow> tcp_stream \<Rightarrow> tcp_stream" where
  "nids_discard num s = (if num < ts_read s then s\<lparr>ts_read := num\<rparr> else s)"

section \<open>\<open>notify\<close>\<close>

text \<open>
  The body of the loop: everything in the buffer is offered; what was read is moved out of it.
\<close>

definition notify_body :: "'w lurker_proc \<Rightarrow> nat \<Rightarrow> side \<Rightarrow> u8 \<Rightarrow> 'w tcp_ctx \<Rightarrow> 'w tcp_ctx" where
  "notify_body proc i x msk c =
     (let rcv = half x (cx_stream c); total = sint (hs_count rcv - hs_offset rcv);
          c1 = ride_lurkers proc i msk (c\<lparr>cx_stream := (cx_stream c)\<lparr>ts_read := total\<rparr>\<rparr>);
          rd = ts_read (cx_stream c1);
          c2 = upd_half x (\<lambda>h. if rd > total - hs_count_new h then h\<lparr>hs_count_new := total - rd\<rparr> else h) c1
      in upd_half x (\<lambda>h. if rd > 0
           then h\<lparr>hs_data := drop (nat rd) (take (unat (hs_count h - hs_offset h)) (hs_data h)),
                 hs_offset := hs_offset h + of_int rd\<rparr>
           else h) c2)"

text \<open>
  The loop runs once, unless \<open>one_loop_less\<close> is set; then every further round has read at
  least a byte, so the number of bytes in the buffer bounds the rounds.
\<close>

fun notify_loop :: "nids_prm \<Rightarrow> 'w lurker_proc \<Rightarrow> nat \<Rightarrow> side \<Rightarrow> u8 \<Rightarrow> nat \<Rightarrow> 'w tcp_ctx \<Rightarrow> 'w tcp_ctx" where
  "notify_loop prm proc i x msk 0 c = notify_body proc i x msk c"
| "notify_loop prm proc i x msk (Suc n) c =
     (let c1 = notify_body proc i x msk c in
      if np_one_loop_less prm \<and> ts_read (cx_stream c1) > 0 \<and> hs_count_new (half x (cx_stream c1)) \<noteq> 0
      then notify_loop prm proc i x msk n c1 else c1)"

definition prune_listeners :: "'w tcp_ctx \<Rightarrow> 'w tcp_ctx" where
  "prune_listeners c = c\<lparr>cx_stream := (cx_stream c)
     \<lparr>ts_listeners := filter (\<lambda>l. lk_whatto l \<noteq> 0) (ts_listeners (cx_stream c))\<rparr>\<rparr>"

definition notify :: "nids_prm \<Rightarrow> 'w lurker_proc \<Rightarrow> nat \<Rightarrow> side \<Rightarrow> 'w tcp_ctx \<Rightarrow> 'w tcp_ctx" where
  "notify prm proc i x c =
     (let rcv = half x (cx_stream c) in
      if hs_count_new_urg rcv then
        if hs_collect_urg rcv = 0 then c
        else prune_listeners (ride_lurkers proc i (if x = Client then COLLECT_ccu else COLLECT_scu) c)
      else if hs_collect rcv \<noteq> 0 then
        prune_listeners (upd_half x (\<lambda>h. h\<lparr>hs_count_new := 0\<rparr>)
          (notify_loop prm proc i x (if x = Client then COLLECT_cc else COLLECT_sc)
            (unat (hs_count rcv - hs_offset rcv)) c))
      else prune_listeners c)"

section \<open>\<open>add_from_skb\<close>\<close>

text \<open>\<open>add2buf\<close>: the first \<open>n\<close> bytes at \<open>new\<close> go behind the bytes in use.\<close>

definition add2buf :: "string \<Rightarrow> nat \<Rightarrow> half_stream \<Rightarrow> half_stream" where
  "add2buf new n rcv =
     (let used = hs_count rcv - hs_offset rcv; datalen = int n; bufsize = hs_bufsize rcv;
          bufsize1 =
            (if datalen + sint used > bufsize then
               if bufsize = 0 then (if datalen < 2048 then 4096 else datalen * 2)
               else if datalen < bufsize then 2 * bufsize else bufsize + 2 * datalen
             else bufsize)
      in rcv\<lparr>hs_bufsize := bufsize1, hs_data := take (unat used) (hs_data rcv) @ take n new,
             hs_count_new := datalen, hs_count := hs_count rcv + of_nat n\<rparr>)"

definition EXP_SEQ :: "side \<Rightarrow> tcp_stream \<Rightarrow> u32" where
  "EXP_SEQ x s = hs_first_data_seq (half (opposite x) s) + hs_count (half x s) + hs_urg_count (half x s)"

text \<open>\<open>n\<close> bytes at \<open>new\<close> for the receiver: collected and announced, or only counted.\<close>

definition deliver :: "nids_prm \<Rightarrow> 'w lurker_proc \<Rightarrow> nat \<Rightarrow> side \<Rightarrow> string \<Rightarrow> nat \<Rightarrow> 'w tcp_ctx \<Rightarrow> 'w tcp_ctx" where
  "deliver prm proc i x new n c =
     (if hs_collect (half x (cx_stream c)) \<noteq> 0 then notify prm proc i x (upd_half x (add2buf new n) c)
      else upd_half x (\<lambda>h. h\<lparr>hs_count := hs_count h + of_nat n, hs_offset := hs_count h + of_nat n\<rparr>) c)"

text \<open>The urgent byte and what is before and behind it.\<close>

definition add_urgent ::
  "nids_prm \<Rightarrow> 'w lurker_proc \<Rightarrow> nat \<Rightarrow> side \<Rightarrow> string \<Rightarrow> nat \<Rightarrow> u32 \<Rightarrow> u32 \<Rightarrow> 'w tcp_ctx \<Rightarrow> 'w tcp_ctx" where
  "add_urgent prm proc i x data datalen this_seq lost c =
     (let urg_ptr = hs_urg_ptr (half x (cx_stream c));
          to_copy = sint (urg_ptr - (this_seq + lost));
          c1 = (if to_copy > 0 then deliver prm proc i x (drop (unat lost) data) (nat to_copy) c else c);
          c2 = upd_half x (\<lambda>h. h\<lparr>hs_urgdata := char_of (byte_at data (unat (hs_urg_ptr h - this_seq))),
                 hs_count_new_urg := True\<rparr>) c1;
          c3 = upd_half x (\<lambda>h. h\<lparr>hs_count_new_urg := False, hs_urg_seen := False,
                 hs_urg_count := hs_urg_count h + 1\<rparr>) (notify prm proc i x c2);
          to_copy2 = sint (this_seq + of_nat datalen - hs_urg_ptr (half x (cx_stream c3)) - 1)
      in if to_copy2 > 0
         then deliver prm proc i x (drop (unat lost + nat to_copy + 1) data) (nat to_copy2) c3
         else c3)"

definition add_from_skb ::
  "nids_prm \<Rightarrow> 'w lurker_proc \<Rightarrow> nat \<Rightarrow> side \<Rightarrow> string \<Rightarrow> nat \<Rightarrow> u32 \<Rightarrow> bool \<Rightarrow> bool \<Rightarrow> u32 \<Rightarrow> 'w tcp_ctx \<Rightarrow> 'w tcp_ctx" where
  "add_from_skb prm proc i x data datalen this_seq fin urg urg_ptr c =
     (let exp = EXP_SEQ x (cx_stream c); lost = exp - this_seq;
          c1 = upd_half x (\<lambda>h.
                 if urg \<and> after urg_ptr (exp - 1) \<and> (\<not> hs_urg_seen h \<or> after urg_ptr (hs_urg_ptr h))
                 then h\<lparr>hs_urg_ptr := urg_ptr, hs_urg_seen := True\<rparr> else h) c;
          rcv = half x (cx_stream c1);
          c2 = (if hs_urg_seen rcv \<and> after (hs_urg_ptr rcv + 1) (this_seq + lost) \<and>
                   before (hs_urg_ptr rcv) (this_seq + of_nat datalen)
                then add_urgent prm proc i x data datalen this_seq lost c1
                else if of_nat datalen - lost \<noteq> 0
                then deliver prm proc i x (drop (unat lost) data) (unat (of_nat datalen - lost :: u32)) c1
                else c1)
      in if fin then
           let c3 = upd_half (opposite x) (\<lambda>h. h\<lparr>hs_state := FIN_SENT\<rparr>) c2 in
           if hs_state (half x (cx_stream c3)) = TCP_CLOSING then add_tcp_closing_timeout prm i c3 else c3
         else c2)"

section \<open>\<open>tcp_queue\<close>\<close>

text \<open>Going forward from a segment: the queued ones that are now due.\<close>

fun queue_loop :: "nids_prm \<Rightarrow> 'w lurker_proc \<Rightarrow> nat \<Rightarrow> side \<Rightarrow> skbuff list \<Rightarrow> 'w tcp_ctx \<Rightarrow> 'w tcp_ctx" where
  "queue_loop prm proc i x [] c = c"
| "queue_loop prm proc i x (p # ps) c =
     (if after (sk_seq p) (EXP_SEQ x (cx_stream c)) then c
      else
        let c1 = (if after (sk_seq p + of_nat (sk_len p) + of_bool (sk_fin p)) (EXP_SEQ x (cx_stream c))
                  then add_from_skb prm proc i x (sk_data p) (sk_len p) (sk_seq p) (sk_fin p) (sk_urg p)
                         (ucast (sk_urg_ptr p) + sk_seq p - 1) c
                  else c);
            c2 = upd_half x (\<lambda>h. h\<lparr>hs_rmem_alloc := hs_rmem_alloc h - sk_truesize p, hs_list := ps\<rparr>) c1
        in queue_loop prm proc i x ps c2)"

text \<open>A new segment goes behind the last one of the list that does not start after it.\<close>

definition insert_skb :: "skbuff \<Rightarrow> skbuff list \<Rightarrow> skbuff list" where
  "insert_skb p ps =
     (let later = takeWhile (\<lambda>q. after (sk_seq q) (sk_seq p)) (rev ps) in
      take (length ps - length later) ps @ p # rev later)"

definition tcp_queue ::
  "nids_prm \<Rightarrow> 'w lurker_proc \<Rightarrow> nat \<Rightarrow> side \<Rightarrow> string \<Rightarrow> string \<Rightarrow> nat \<Rightarrow> int \<Rightarrow> 'w tcp_ctx \<Rightarrow> 'w tcp_ctx" where
  "tcp_queue prm proc i x th data datalen skblen c =
     (let this_seq = th_seq th; fin = flag_set th TH_FIN; urg = flag_set th TH_URG in
      if \<not> after this_seq (EXP_SEQ x (cx_stream c)) then
        if after (this_seq + of_nat datalen + of_bool fin) (EXP_SEQ x (cx_stream c)) then
          let c1 = upd_half (opposite x) (\<lambda>h. h\<lparr>hs_curr_ts := snd (get_ts th (hs_curr_ts h))\<rparr>) c;
              c2 = add_from_skb prm proc i x data datalen this_seq fin urg (ucast (th_urp th) + this_seq - 1) c1
          in queue_loop prm proc i x (hs_list (half x (cx_stream c2))) c2
        else c
      else
        let p = \<lparr>sk_data = take datalen data, sk_len = datalen, sk_truesize = skblen, sk_urg_ptr = th_urp th,
                 sk_fin = fin, sk_urg = urg, sk_seq = this_seq\<rparr>;
            c1 = upd_half x (\<lambda>h. h\<lparr>hs_rmem_alloc := hs_rmem_alloc h + skblen\<rparr>) c;
            c2 = (if fin then
                    let c' = upd_half (opposite x) (\<lambda>h. h\<lparr>hs_state := TCP_CLOSING\<rparr>) c1;
                        st = hs_state (half x (cx_stream c'))
                    in if st = FIN_SENT \<or> st = FIN_CONFIRMED then add_tcp_closing_timeout prm i c' else c'
                  else c1)
        in upd_half x (\<lambda>h. h\<lparr>hs_list := insert_skb p (hs_list h)\<rparr>) c2)"

definition prune_queue :: "half_stream \<Rightarrow> half_stream" where
  "prune_queue rcv = rcv\<lparr>hs_list := [], hs_rmem_alloc := 0\<rparr>"

definition handle_ack :: "u32 \<Rightarrow> half_stream \<Rightarrow> half_stream" where
  "handle_ack acknum h = (if sint (acknum - hs_ack_seq h) > 0 then h\<lparr>hs_ack_seq := acknum\<rparr> else h)"

end
