(* ===== verification/Monitor.thy ===== *)
theory Monitor
  imports Callback TcpStream
begin

text \<open>
  The monitor (src/src/main.c): what libnids tells about a TCP stream becomes the life of a
  session. The sessions of all streams share the configuration, the status block, the clock
  and the log; \<open>tcp->user\<close> is the session of a stream.
\<close>

section \<open>The state\<close>

text \<open>A session with its two parsers.\<close>

record conn =
  cn_session :: session
  cn_client_parser :: hparser
  cn_server_parser :: hparser

record monitor =
  m_config :: configuration
  m_status :: status
  m_now :: "nat \<Rightarrow> int \<times> int"
  m_ticks :: nat
  m_time_string :: "int \<Rightarrow> string"
  m_user :: "nat \<Rightarrow> conn option"
  m_reports :: "msg_report list"
  m_faults :: "fault list"

text \<open>One call of the callback: the stream, its state and the data that is new.\<close>

record tcp_event =
  ev_stream :: nat
  ev_tcp :: tcp_info
  ev_state :: nids_state
  ev_client_new :: string
  ev_server_new :: string

text \<open>The ways the process can end: the parent is gone, no session, no return.\<close>

datatype stop = ParentGone | NoSession | NoReturn

section \<open>The callback\<close>

definition enter :: "monitor \<Rightarrow> tcp_info \<Rightarrow> conn \<Rightarrow> world" where
  "enter m tcp c =
     \<lparr>w_config = m_config m, w_status = m_status m, w_now = m_now m, w_ticks = m_ticks m,
      w_time_string = m_time_string m, w_tcp = tcp, w_session = cn_session c,
      w_client_parser = cn_client_parser c, w_server_parser = cn_server_parser c,
      w_reports = m_reports m, w_faults = m_faults m\<rparr>"

definition conn_of :: "world \<Rightarrow> conn" where
  "conn_of w = \<lparr>cn_session = w_session w, cn_client_parser = w_client_parser w,
     cn_server_parser = w_server_parser w\<rparr>"

definition leave :: "nat \<Rightarrow> conn option \<Rightarrow> world \<Rightarrow> monitor \<Rightarrow> monitor" where
  "leave i c w m = m\<lparr>m_config := w_config w, m_status := w_status w, m_ticks := w_ticks w,
     m_user := (m_user m)(i := c), m_reports := w_reports w, m_faults := w_faults w\<rparr>"

text \<open>A new session: \<open>malloc\<close> and \<open>session_start\<close>.\<close>

definition new_conn :: conn where
  "new_conn = \<lparr>cn_session = session_zero, cn_client_parser = http_parser_init HTTP_REQUEST,
     cn_server_parser = http_parser_init HTTP_RESPONSE\<rparr>"

definition add_conn :: "u32 \<Rightarrow> monitor \<Rightarrow> monitor" where
  "add_conn d m = m\<lparr>m_status := (m_status m)\<lparr>st_conn := st_conn (m_status m) + d\<rparr>\<rparr>"

definition close_event :: "close_reason \<Rightarrow> tcp_event \<Rightarrow> monitor \<Rightarrow> stop + monitor" where
  "close_event ty e m =
     (let m1 = add_conn (- 1) m; i = ev_stream e in
      case m_user m1 i of
        None \<Rightarrow> Inl NoSession
      | Some c \<Rightarrow> Inr (leave i None (session_close (enter m1 (ev_tcp e) c) ty) m1))"

definition tcp_callback :: "int \<Rightarrow> tcp_event \<Rightarrow> monitor \<Rightarrow> stop + monitor" where
  "tcp_callback ppid e m =
     (let i = ev_stream e in
      if \<not> test_in_service (m_config m) (tcp_addr (ev_tcp e)) then Inr m
      else case ev_state e of
        NIDS_JUST_EST \<Rightarrow>
          (let m1 = add_conn 1 m in
           if ppid < 5 then Inl ParentGone
           else Inr (leave i (Some (conn_of (session_start (enter m1 (ev_tcp e) new_conn))))
             (enter m1 (ev_tcp e) new_conn) m1))
      | NIDS_DATA \<Rightarrow>
          (case m_user m i of
             None \<Rightarrow> Inl NoSession
           | Some c \<Rightarrow>
               (case session_handle_data (ev_client_new e) (ev_server_new e) (enter m (ev_tcp e) c) of
                  None \<Rightarrow> Inl NoReturn
                | Some w \<Rightarrow> Inr (leave i (Some (conn_of w)) w m)))
      | NIDS_CLOSE \<Rightarrow> close_event TcpClosed e m
      | NIDS_RESET \<Rightarrow> close_event TcpReset e m
      | NIDS_TIMED_OUT \<Rightarrow> close_event TcpTimeout e m
      | NIDS_EXITING \<Rightarrow> Inr m)"

fun monitor_run :: "int \<Rightarrow> tcp_event list \<Rightarrow> monitor \<Rightarrow> stop + monitor" where
  "monitor_run ppid [] m = Inr m"
| "monitor_run ppid (e # es) m =
     (case tcp_callback ppid e m of Inl r \<Rightarrow> Inl r | Inr m' \<Rightarrow> monitor_run ppid es m')"

section \<open>The sessions and their number\<close>

definition open_streams :: "monitor \<Rightarrow> nat set" where
  "open_streams m = {i. m_user m i \<noteq> None}"

text \<open>
  The invariant: every session is in order, and the counter of the status block is the number
  of open sessions, modulo \<open>2 ^ 32\<close>.
\<close>

definition monitor_inv :: "monitor \<Rightarrow> bool" where
  "monitor_inv m \<longleftrightarrow>
     (\<forall>f \<in> set (m_faults m). \<exists>r. f = JoinOverflow r) \<and> length (cf_catch_code (m_config m)) = 1000 \<and>
     (\<forall>i c. m_user m i = Some c \<longrightarrow> body_ok (cn_session c) \<and> post_ok (m_config m) (s_post_buf (cn_session c)) \<and>
        parser_inv (cn_client_parser c) \<and> parser_inv (cn_server_parser c)) \<and>
     finite (open_streams m) \<and> st_conn (m_status m) = of_nat (card (open_streams m))"

text \<open>
  What libnids promises of the streams it reports, by the addresses of those there are: a
  stream is established before anything else happens to it, keeps its addresses and reports
  nothing after its end; then its number can be used again.
\<close>

type_synonym streams = "nat \<Rightarrow> tuple4 option"

inductive stream_step :: "streams \<Rightarrow> tcp_event \<Rightarrow> streams \<Rightarrow> bool" for S :: streams and e :: tcp_event where
  established: "ev_state e = NIDS_JUST_EST \<Longrightarrow> S (ev_stream e) = None \<Longrightarrow>
    stream_step S e (S(ev_stream e \<mapsto> tcp_addr (ev_tcp e)))"
| data: "ev_state e = NIDS_DATA \<Longrightarrow> S (ev_stream e) = Some (tcp_addr (ev_tcp e)) \<Longrightarrow> stream_step S e S"
| closed: "ev_state e \<in> {NIDS_CLOSE, NIDS_RESET, NIDS_TIMED_OUT} \<Longrightarrow>
    S (ev_stream e) = Some (tcp_addr (ev_tcp e)) \<Longrightarrow> stream_step S e (S(ev_stream e := None))"
| exiting: "ev_state e = NIDS_EXITING \<Longrightarrow> stream_step S e S"

inductive_cases stream_stepE: "stream_step S e S'"

inductive stream_events :: "streams \<Rightarrow> tcp_event list \<Rightarrow> streams \<Rightarrow> bool" where
  no_event: "stream_events S [] S"
| event: "stream_step S e S' \<Longrightarrow> stream_events S' es T \<Longrightarrow> stream_events S (e # es) T"

inductive_simps stream_events_simps [simp]: "stream_events S [] T" "stream_events S (e # es) T"

text \<open>The streams that the configuration asks to monitor.\<close>

definition served :: "configuration \<Rightarrow> streams \<Rightarrow> nat set" where
  "served c S = {i. \<exists>a. S i = Some a \<and> test_in_service c a}"

lemma served_upd:
  "served c (S(i \<mapsto> a)) = (if test_in_service c a then insert i (served c S) else served c S - {i})"
  "served c (S(i := None)) = served c S - {i}"
  by (auto simp: served_def)

lemma enter_inv:
  assumes "monitor_inv m" "m_user m i = Some c"
  shows "session_inv (enter m tcp c)"
  using assms by (auto simp: monitor_inv_def session_inv_def world_ok_def enter_def)

lemma enter_frame: "world_frame (enter m tcp c) = (m_config m, st_conn (m_status m))"
  by (simp add: world_frame_def enter_def)

lemma open_streams_leave:
  "open_streams (leave i c w m) = (if c = None then open_streams m - {i} else insert i (open_streams m))"
  by (auto simp: open_streams_def leave_def split: if_splits)

text \<open>Putting a session back that is in order, with the counter that goes with it.\<close>

lemma leave_inv:
  assumes "monitor_inv m" "session_inv w" "w_config w = m_config m"
    "st_conn (w_status w) = of_nat (card (open_streams (leave i c w m)))"
    "c = None \<or> c = Some (conn_of w)"
  shows "monitor_inv (leave i c w m)"
proof -
  have "finite (open_streams (leave i c w m))"
    using assms(1) by (simp add: open_streams_leave monitor_inv_def)
  with assms show ?thesis
    by (auto simp: monitor_inv_def session_inv_def world_ok_def leave_def conn_of_def split: if_splits)
qed

lemma step_data:
  assumes "monitor_inv m" "ev_state e = NIDS_DATA" "ev_stream e \<in> open_streams m"
    "test_in_service (m_config m) (tcp_addr (ev_tcp e))"
  shows "\<exists>m'. tcp_callback ppid e m = Inr m' \<and> monitor_inv m' \<and> m_config m' = m_config m \<and>
    open_streams m' = open_streams m"
proof -
  obtain c where c: "m_user m (ev_stream e) = Some c" using assms(3) by (auto simp: open_streams_def)
  obtain w where w: "session_handle_data (ev_client_new e) (ev_server_new e) (enter m (ev_tcp e) c) = Some w"
    "session_inv w" "world_frame w = (m_config m, st_conn (m_status m))"
    using handle_data [OF enter_inv [OF assms(1) c]] unfolding enter_frame by blast
  let ?m = "leave (ev_stream e) (Some (conn_of w)) w m"
  have o: "open_streams ?m = open_streams m" using assms(3) by (auto simp: open_streams_leave)
  then have "monitor_inv ?m"
    using assms(1) w(2,3) by (intro leave_inv) (simp_all add: world_frame_def monitor_inv_def)
  moreover have "tcp_callback ppid e m = Inr ?m" using assms(2,4) c w(1) by (simp add: tcp_callback_def Let_def)
  moreover have "m_config ?m = m_config m" using w(3) by (simp add: leave_def world_frame_def)
  ultimately show ?thesis using o by blast
qed

lemma add_conn_simps [simp]:
  "m_user (add_conn d m) = m_user m" "m_config (add_conn d m) = m_config m"
  "open_streams (add_conn d m) = open_streams m" "st_conn (m_status (add_conn d m)) = st_conn (m_status m) + d"
  by (simp_all add: add_conn_def open_streams_def)

lemma enter_add_conn: "session_inv (enter (add_conn d m) tcp c) = session_inv (enter m tcp c)"
  by (simp add: session_inv_def world_ok_def enter_def add_conn_def)

lemma close_inv:
  assumes "session_inv w"
  shows "session_inv (session_close w ty)" "world_frame (session_close w ty) = world_frame w"
  using assms session_report_ok session_report_parsers [of w ty] parser_inv_init
  by (auto simp: session_close_def session_inv_def)

lemma leave_inv':
  assumes "monitor_inv m" "session_inv w" "w_config w = m_config m"
    "st_conn (w_status w) = of_nat (card (open_streams (leave i c w (add_conn d m))))"
    "c = None \<or> c = Some (conn_of w)"
  shows "monitor_inv (leave i c w (add_conn d m))"
proof -
  have "leave i c w (add_conn d m) = leave i c w m" by (simp add: leave_def add_conn_def)
  then show ?thesis using leave_inv [OF assms(1-3), of i c] assms(4,5) by simp
qed

lemma step_close:
  assumes "monitor_inv m" "ev_stream e \<in> open_streams m"
  shows "\<exists>m'. close_event ty e m = Inr m' \<and> monitor_inv m' \<and> m_config m' = m_config m \<and>
    open_streams m' = open_streams m - {ev_stream e}"
proof -
  obtain c where c: "m_user m (ev_stream e) = Some c" using assms(2) by (auto simp: open_streams_def)
  let ?w = "session_close (enter (add_conn (- 1) m) (ev_tcp e) c) ty"
  let ?m = "leave (ev_stream e) None ?w (add_conn (- 1) m)"
  have w: "session_inv ?w" "world_frame ?w = (m_config m, st_conn (m_status m) - 1)"
    using close_inv [of "enter (add_conn (- 1) m) (ev_tcp e) c" ty] enter_inv [OF assms(1) c]
    by (simp_all add: enter_add_conn enter_frame)
  have o: "open_streams ?m = open_streams m - {ev_stream e}" by (simp add: open_streams_leave)
  have fin: "finite (open_streams m)" using assms(1) by (simp add: monitor_inv_def)
  then have "card (open_streams m) = Suc (card (open_streams m - {ev_stream e}))"
    using assms(2) by (rule card.remove)
  then have "st_conn (m_status m) - 1 = of_nat (card (open_streams m - {ev_stream e}))"
    using assms(1) by (simp add: monitor_inv_def)
  then have "monitor_inv ?m"
    using assms(1) w o by (intro leave_inv') (simp_all add: world_frame_def)
  moreover have "close_event ty e m = Inr ?m" using c by (simp add: close_event_def Let_def)
  moreover have "m_config ?m = m_config m" using w(2) by (simp add: leave_def world_frame_def)
  ultimately show ?thesis using o by blast
qed

lemma step_established:
  assumes "monitor_inv m" "ev_state e = NIDS_JUST_EST" "ev_stream e \<notin> open_streams m" "5 \<le> ppid"
    "test_in_service (m_config m) (tcp_addr (ev_tcp e))"
  shows "\<exists>m'. tcp_callback ppid e m = Inr m' \<and> monitor_inv m' \<and> m_config m' = m_config m \<and>
    open_streams m' = insert (ev_stream e) (open_streams m)"
proof -
  let ?w = "enter (add_conn 1 m) (ev_tcp e) new_conn"
  let ?m = "leave (ev_stream e) (Some (conn_of ?w)) ?w (add_conn 1 m)"
  have new: "conn_of (session_start ?w) = conn_of ?w"
    by (simp add: conn_of_def session_start_def enter_def new_conn_def)
  have "session_inv ?w"
    using assms(1) by (simp add: session_inv_def world_ok_def enter_def add_conn_def new_conn_def
        monitor_inv_def body_ok_def session_zero_def parser_inv_init)
  moreover have o: "open_streams ?m = insert (ev_stream e) (open_streams m)" by (simp add: open_streams_leave)
  moreover have "finite (open_streams m)" using assms(1) by (simp add: monitor_inv_def)
  ultimately have "monitor_inv ?m"
    using assms(1,3) by (intro leave_inv') (simp_all add: enter_def monitor_inv_def)
  moreover have "tcp_callback ppid e m = Inr ?m"
    using assms(2,4,5) new by (simp add: tcp_callback_def Let_def)
  moreover have "m_config ?m = m_config m" by (simp add: leave_def enter_def)
  ultimately show ?thesis using o by blast
qed

lemma callback_unserved:
  "ev_state e = NIDS_EXITING \<or> \<not> test_in_service (m_config m) (tcp_addr (ev_tcp e)) \<Longrightarrow>
   tcp_callback ppid e m = Inr m"
  by (auto simp: tcp_callback_def Let_def)

lemma callback_step:
  assumes "stream_step S e S'" "monitor_inv m" "5 \<le> ppid" "open_streams m = served (m_config m) S"
  shows "\<exists>m'. tcp_callback ppid e m = Inr m' \<and> monitor_inv m' \<and> m_config m' = m_config m \<and>
    open_streams m' = served (m_config m) S'"
proof (cases "ev_state e = NIDS_EXITING \<or> \<not> test_in_service (m_config m) (tcp_addr (ev_tcp e))")
  case True
  with assms(1) have "served (m_config m) S' = served (m_config m) S"
    by (elim stream_stepE) (auto simp: served_def)
  with callback_unserved [OF True] assms(2,4) show ?thesis by simp
next
  case False
  then have in_service: "test_in_service (m_config m) (tcp_addr (ev_tcp e))" by simp
  from assms(1) show ?thesis
  proof cases
    case established
    moreover from this have "ev_stream e \<notin> open_streams m" using assms(4) by (simp add: served_def)
    ultimately show ?thesis
      using step_established [OF assms(2) _ _ assms(3) in_service] assms(4) in_service by (simp add: served_upd)
  next
    case data
    then show ?thesis using step_data [OF assms(2) _ _ in_service, of ppid] in_service assms(4)
      by (simp add: served_def)
  next
    case closed
    moreover from this have "ev_stream e \<in> open_streams m" using in_service assms(4) by (simp add: served_def)
    moreover obtain ty where "tcp_callback ppid e m = close_event ty e m"
      using closed in_service by (auto simp: tcp_callback_def Let_def)
    ultimately show ?thesis using step_close [OF assms(2), of e ty] assms(4) by (simp add: served_upd)
  qed (use False in simp)
qed

section \<open>Properties\<close>

text \<open>
  C7: the number of connections. Whatever the streams of the network do and whatever bytes
  they carry, as long as libnids reports them in order and the parent process lives the
  monitor goes on, every session stays in order, and the counter that the status command
  prints is the number of open streams of the service.
\<close>

theorem connections_counted:
  assumes "stream_events S es T" "monitor_inv m" "5 \<le> ppid"
    "open_streams m = served (m_config m) S"
  shows "\<exists>m'. monitor_run ppid es m = Inr m' \<and> monitor_inv m' \<and>
    open_streams m' = served (m_config m) T \<and>
    st_conn (m_status m') = of_nat (card (served (m_config m) T))"
  using assms
proof (induction arbitrary: m rule: stream_events.induct)
  case (no_event S)
  then show ?case by (auto simp: monitor_inv_def)
next
  case (event S e S' es T)
  from callback_step [OF event.hyps(1) event.prems] obtain m' where
    m': "tcp_callback ppid e m = Inr m'" "monitor_inv m'" "m_config m' = m_config m"
    "open_streams m' = served (m_config m) S'" by blast
  with event.IH [of m'] event.prems(2) show ?case by simp
qed

definition sample_monitor :: monitor where
  "sample_monitor =
     \<lparr>m_config = (default_config empty_config)\<lparr>cf_hostip := [(0, 0)], cf_hostport := [80]\<rparr>,
      m_status = status_init 1, m_now = (\<lambda>n. (1000 + int n, 0)), m_ticks = 0, m_time_string = (\<lambda>_. ''now''),
      m_user = (\<lambda>_. None), m_reports = [], m_faults = []\<rparr>"

definition sample_event :: "nat \<Rightarrow> nids_state \<Rightarrow> string \<Rightarrow> string \<Rightarrow> tcp_event" where
  "sample_event i st c s = \<lparr>ev_stream = i, ev_tcp = w_tcp (sample_world session_zero), ev_state = st,
     ev_client_new = c, ev_server_new = s\<rparr>"

theorem connections_counted_witness:
  "\<exists>m'. monitor_run 100 [sample_event 0 NIDS_JUST_EST [] [], sample_event 1 NIDS_JUST_EST [] [],
       sample_event 0 NIDS_DATA [] ''GET / HTTP/1.1'', sample_event 1 NIDS_RESET [] []] sample_monitor = Inr m' \<and>
     monitor_inv m' \<and> open_streams m' = {0} \<and> st_conn (m_status m') = 1"
proof -
  let ?a = "tcp_addr (w_tcp (sample_world session_zero))"
  have ev: "stream_events Map.empty [sample_event 0 NIDS_JUST_EST [] [], sample_event 1 NIDS_JUST_EST [] [],
       sample_event 0 NIDS_DATA [] ''GET / HTTP/1.1'', sample_event 1 NIDS_RESET [] []] ((Map.empty(0 \<mapsto> ?a, 1 \<mapsto> ?a))(1 := None))"
    using stream_step.established [of "sample_event 0 NIDS_JUST_EST [] []" Map.empty]
      stream_step.established [of "sample_event 1 NIDS_JUST_EST [] []" "[0 \<mapsto> ?a]"]
      stream_step.data [of "sample_event 0 NIDS_DATA [] ''GET / HTTP/1.1''" "[0 \<mapsto> ?a, 1 \<mapsto> ?a]"]
      stream_step.closed [of "sample_event 1 NIDS_RESET [] []" "[0 \<mapsto> ?a, 1 \<mapsto> ?a]"]
    by (simp add: sample_event_def) blast
  have in_service: "test_in_service (m_config sample_monitor) ?a"
    by (simp add: sample_monitor_def sample_world_def test_in_service_def)
  have inv: "monitor_inv sample_monitor"
    by (simp add: monitor_inv_def sample_monitor_def open_streams_def default_config_def empty_config_def
        status_init_def)
  have "open_streams sample_monitor = served (m_config sample_monitor) Map.empty"
    by (simp add: served_def open_streams_def sample_monitor_def)
  moreover have "served (m_config sample_monitor) ((Map.empty(0 \<mapsto> ?a, 1 \<mapsto> ?a))(1 := None)) = {0}"
    using in_service by (auto simp: served_def)
  ultimately show ?thesis using connections_counted [OF ev inv, of 100] by (simp del: monitor_run.simps)
qed

end
