(* ===== verification/Ini.thy ===== *)
theory Ini
  imports Config
begin

text \<open>
  The reader of the configuration file (src/src/ini.c) and \<open>loadconfig\<close> (main.c). A file is
  the list of its bytes, \<open>NULL\<close> when it cannot be opened. The handler is a parameter: it takes
  the section, the name, the value and the user's data, and may end the program.
\<close>

section \<open>Strings\<close>

definition MAX_LINE :: nat where "MAX_LINE = 200"
definition MAX_SECTION :: nat where "MAX_SECTION = 50"
definition MAX_NAME :: nat where "MAX_NAME = 50"

definition rstrip :: "string \<Rightarrow> string" where
  "rstrip s = rev (dropWhile c_isspace (rev s))"

definition lskip :: "string \<Rightarrow> string" where
  "lskip s = dropWhile c_isspace s"

text \<open>
  \<open>find_char_or_comment\<close> as the distance from \<open>s\<close>; the first argument is \<open>was_whitespace\<close>.
\<close>

fun find_char_or_comment :: "bool \<Rightarrow> string \<Rightarrow> char \<Rightarrow> nat" where
  "find_char_or_comment was_whitespace [] c = 0"
| "find_char_or_comment was_whitespace (d # s) c =
     (if d = c \<or> (was_whitespace \<and> d = CHR '';'') then 0
      else Suc (find_char_or_comment (c_isspace d) s c))"

definition strncpy0 :: "string \<Rightarrow> nat \<Rightarrow> string" where
  "strncpy0 src n = take (n - 1) src"

text \<open>
  \<open>fgets\<close> into a buffer of \<open>m\<close> bytes: up to the end of the line, at most \<open>m - 1\<close> bytes.
\<close>

definition fgets :: "nat \<Rightarrow> string \<Rightarrow> string \<times> string" where
  "fgets m file =
     (let body = takeWhile (\<lambda>c. c \<noteq> LF) file; n = min (m - 1) (length body + 1) in
      (take n file, drop n file))"

section \<open>\<open>ini_parse_file\<close>\<close>

record 'c ini =
  ini_section :: string
  ini_prev_name :: string
  ini_lineno :: nat
  ini_error :: nat
  ini_user :: 'c

type_synonym ('e, 'c) ini_handler = "string \<Rightarrow> string \<Rightarrow> string \<Rightarrow> 'c \<Rightarrow> 'e + (bool \<times> 'c)"

definition first_error :: "'c ini \<Rightarrow> 'c ini" where
  "first_error st = (if ini_error st = 0 then st\<lparr>ini_error := ini_lineno st\<rparr> else st)"

definition call_handler :: "('e, 'c) ini_handler \<Rightarrow> string \<Rightarrow> string \<Rightarrow> 'c ini \<Rightarrow> 'e + 'c ini" where
  "call_handler handler name val st =
     (case handler (ini_section st) name val (ini_user st) of
        Inl e \<Rightarrow> Inl e
      | Inr (ok, u) \<Rightarrow>
          let st1 = st\<lparr>ini_user := u\<rparr> in Inr (if ok then st1 else first_error st1))"

text \<open>A \<open>[section]\<close> line: what follows the bracket.\<close>

definition section_line :: "string \<Rightarrow> 'c ini \<Rightarrow> 'c ini" where
  "section_line s st =
     (let k = find_char_or_comment False s (CHR '']'') in
      if k < length s \<and> s ! k = CHR '']''
      then st\<lparr>ini_section := strncpy0 (take k s) MAX_SECTION, ini_prev_name := []\<rparr>
      else first_error st)"

text \<open>A \<open>name=value\<close> or \<open>name:value\<close> line.\<close>

definition pair_line :: "('e, 'c) ini_handler \<Rightarrow> string \<Rightarrow> 'c ini \<Rightarrow> 'e + 'c ini" where
  "pair_line handler start st =
     (let k1 = find_char_or_comment False start (CHR ''='');
          k = (if first_char (drop k1 start) \<noteq> CHR ''='' then find_char_or_comment False start (CHR '':'') else k1);
          d = first_char (drop k start) in
      if d = CHR ''='' \<or> d = CHR '':'' then
        (let name = rstrip (take k start);
             val = lskip (drop (k + 1) start);
             val1 = take (find_char_or_comment False val NUL) val;
             val2 = rstrip val1
         in call_handler handler name val2 (st\<lparr>ini_prev_name := strncpy0 name MAX_NAME\<rparr>))
      else Inr (first_error st))"

definition ini_line :: "('e, 'c) ini_handler \<Rightarrow> string \<Rightarrow> 'c ini \<Rightarrow> 'e + 'c ini" where
  "ini_line handler buf st0 =
     (let st = st0\<lparr>ini_lineno := Suc (ini_lineno st0)\<rparr>;
          line = rstrip (takeWhile (\<lambda>c. c \<noteq> NUL) buf);
          start = lskip line; c = first_char start in
      if c = CHR '';'' \<or> c = CHR ''#'' then Inr st
      else if ini_prev_name st \<noteq> [] \<and> start \<noteq> [] \<and> length start < length line
        then call_handler handler (ini_prev_name st) start st
      else if c = CHR ''['' then Inr (section_line (tl start) st)
      else if start \<noteq> [] then pair_line handler start st
      else Inr st)"

function ini_lines :: "('e, 'c) ini_handler \<Rightarrow> string \<Rightarrow> 'c ini \<Rightarrow> 'e + 'c ini" where
  "ini_lines handler file st =
     (if file = [] then Inr st
      else case fgets MAX_LINE file of (line, rest) \<Rightarrow>
        (case ini_line handler line st of Inl e \<Rightarrow> Inl e | Inr st' \<Rightarrow> ini_lines handler rest st'))"
  by pat_completeness auto
termination
  by (relation "measure (\<lambda>(_, file, _). length file)") (auto simp: fgets_def Let_def MAX_LINE_def)

declare ini_lines.simps [simp del]

definition ini_parse_file :: "('e, 'c) ini_handler \<Rightarrow> string \<Rightarrow> 'c \<Rightarrow> 'e + (nat \<times> 'c)" where
  "ini_parse_file handler file user =
     (case ini_lines handler file
        \<lparr>ini_section = [], ini_prev_name = [], ini_lineno = 0, ini_error = 0, ini_user = user\<rparr> of
        Inl e \<Rightarrow> Inl e
      | Inr st \<Rightarrow> Inr (ini_error st, ini_user st))"

definition ini_parse :: "('e, 'c) ini_handler \<Rightarrow> string option \<Rightarrow> 'c \<Rightarrow> 'e + (int \<times> 'c)" where
  "ini_parse handler file user =
     (case file of
        None \<Rightarrow> Inr (- 1, user)
      | Some f \<Rightarrow>
          (case ini_parse_file handler f user of
             Inl e \<Rightarrow> Inl e
           | Inr (err, u) \<Rightarrow> Inr (int err, u)))"

text \<open>
  \<open>loadconfig\<close>: a file that cannot be opened ends the program (\<open>None\<close>).
\<close>

definition loadconfig :: "string option \<Rightarrow> configuration \<Rightarrow> (cfg_error + (int \<times> configuration)) option" where
  "loadconfig file c =
     (case file of
        None \<Rightarrow> None
      | Some f \<Rightarrow> Some (ini_parse handler_config (Some f) (default_config c)))"


section \<open>Reading a printed file back\<close>

text \<open>
  A configuration as it is written: entries with the name, the value and the white space
  around the equals sign and at the end of the line, under section headings.
\<close>

record entry =
  en_name :: string
  en_value :: string
  en_pad1 :: string
  en_pad2 :: string
  en_pad3 :: string

definition show_entry :: "entry \<Rightarrow> string" where
  "show_entry e = en_name e @ en_pad1 e @ CHR ''='' # en_pad2 e @ en_value e @ en_pad3 e @ [LF]"

definition show_section :: "string \<times> entry list \<Rightarrow> string" where
  "show_section = (\<lambda>(s, es). CHR ''['' # s @ CHR '']'' # LF # concat (map show_entry es))"

definition show_ini :: "(string \<times> entry list) list \<Rightarrow> string" where
  "show_ini ss = concat (map show_section ss)"

text \<open>
  What the reader has to do with it: the handler is called for every entry in turn, and the
  result is the number of the line of the first entry that it refuses, or 0.
\<close>

definition entry_calls :: "nat \<Rightarrow> string \<Rightarrow> entry list \<Rightarrow> (nat \<times> string \<times> string \<times> string) list" where
  "entry_calls n s es = map (\<lambda>(i, e). (i, s, en_name e, en_value e)) (enumerate (Suc n) es)"

fun ini_calls :: "nat \<Rightarrow> (string \<times> entry list) list \<Rightarrow> (nat \<times> string \<times> string \<times> string) list" where
  "ini_calls n [] = []"
| "ini_calls n ((s, es) # ss) = entry_calls (Suc n) s es @ ini_calls (Suc n + length es) ss"

fun handle_all ::
  "('e, 'c) ini_handler \<Rightarrow> (nat \<times> string \<times> string \<times> string) list \<Rightarrow> nat \<Rightarrow> 'c \<Rightarrow> 'e + (nat \<times> 'c)" where
  "handle_all h [] err u = Inr (err, u)"
| "handle_all h ((i, s, n, v) # cs) err u =
     (case h s n v u of
        Inl e \<Rightarrow> Inl e
      | Inr (ok, u') \<Rightarrow> handle_all h cs (if ok \<or> err \<noteq> 0 then err else i) u')"

text \<open>No semicolon after white space: such a one begins a comment.\<close>

fun no_comment :: "bool \<Rightarrow> string \<Rightarrow> bool" where
  "no_comment w [] = True"
| "no_comment w (d # s) \<longleftrightarrow> \<not> (w \<and> d = CHR '';'') \<and> no_comment (c_isspace d) s"

definition trimmed :: "string \<Rightarrow> bool" where
  "trimmed s \<longleftrightarrow> s = [] \<or> \<not> c_isspace (hd s) \<and> \<not> c_isspace (last s)"

definition pad_ok :: "string \<Rightarrow> bool" where
  "pad_ok s \<longleftrightarrow> (\<forall>c \<in> set s. c_isspace c \<and> c \<noteq> LF)"

definition text_ok :: "string \<Rightarrow> bool" where
  "text_ok s \<longleftrightarrow> trimmed s \<and> no_comment False s \<and> LF \<notin> set s \<and> NUL \<notin> set s"

definition entry_ok :: "entry \<Rightarrow> bool" where
  "entry_ok e \<longleftrightarrow> text_ok (en_name e) \<and> text_ok (en_value e) \<and> pad_ok (en_pad1 e) \<and> pad_ok (en_pad2 e) \<and>
     pad_ok (en_pad3 e) \<and> en_name e \<noteq> [] \<and> CHR ''='' \<notin> set (en_name e) \<and>
     hd (en_name e) \<notin> {CHR '';'', CHR ''#'', CHR ''[''} \<and> length (show_entry e) < MAX_LINE"

definition section_ok :: "string \<times> entry list \<Rightarrow> bool" where
  "section_ok = (\<lambda>(s, es). text_ok s \<and> CHR '']'' \<notin> set s \<and> length s < MAX_SECTION \<and> (\<forall>e \<in> set es. entry_ok e))"

lemma isspace_marks [simp]:
  "\<not> c_isspace (CHR ''='')" "\<not> c_isspace (CHR ''['')" "\<not> c_isspace (CHR '']'')" "\<not> c_isspace (CHR '';'')"
  "c_isspace LF" "\<not> c_isspace NUL"
  by (simp_all add: c_isspace_def uchar_def)

lemma rstrip_append: "rstrip (s @ t) = (if rstrip t = [] then rstrip s else s @ rstrip t)"
  by (simp add: rstrip_def dropWhile_append)

lemma rstrip_space: "(\<forall>c \<in> set s. c_isspace c) \<Longrightarrow> rstrip s = []"
  by (simp add: rstrip_def)

lemma rstrip_id: "s = [] \<or> \<not> c_isspace (last s) \<Longrightarrow> rstrip s = s"
  by (induction s rule: rev_induct) (auto simp: rstrip_def)

lemma rstrip_Cons: "\<not> c_isspace c \<Longrightarrow> rstrip (c # t) = c # rstrip t"
  using rstrip_append [of "[c]" t] rstrip_id [of "[c]"] by auto

lemma lskip_append: "(\<forall>c \<in> set s. c_isspace c) \<Longrightarrow> lskip (s @ t) = lskip t"
  by (induction s) (auto simp: lskip_def)

lemma lskip_id: "s = [] \<or> \<not> c_isspace (hd s) \<Longrightarrow> lskip s = s"
  by (cases s) (auto simp: lskip_def)

text \<open>A trimmed text between white space.\<close>

lemma strip_padded:
  assumes "\<forall>c \<in> set a. c_isspace c" "\<forall>c \<in> set b. c_isspace c" "trimmed s"
  shows "lskip (rstrip (a @ s @ b)) = s"
proof (cases "s = []")
  case True
  then show ?thesis using assms by (auto simp: rstrip_append rstrip_space lskip_def)
next
  case False
  then have "rstrip s = s" using assms(3) by (intro rstrip_id) (auto simp: trimmed_def)
  then have "rstrip (a @ s @ b) = a @ s" using assms False by (simp add: rstrip_append rstrip_space)
  then show ?thesis using assms False by (simp add: lskip_append lskip_id trimmed_def)
qed

lemma find_char_or_comment_end:
  assumes "no_comment w s" "c \<notin> set s" "t = [] \<or> hd t = c"
  shows "find_char_or_comment w (s @ t) c = length s"
  using assms by (induction w s rule: no_comment.induct) (cases t; auto)+

lemma no_comment_space:
  assumes "no_comment w s" "\<forall>c \<in> set b. c_isspace c"
  shows "no_comment w (s @ b)"
proof -
  have "no_comment v b" for v
    using assms(2) by (induction b arbitrary: v) auto
  with assms(1) show ?thesis by (induction w s rule: no_comment.induct) auto
qed


section \<open>Lines\<close>

lemma fgets_line:
  assumes "LF \<notin> set body" "length body + 1 < m"
  shows "fgets m (body @ LF # rest) = (body @ [LF], rest)"
proof -
  have "takeWhile (\<lambda>c. c \<noteq> LF) (body @ LF # rest) = body" using assms(1) by (induction body) auto
  with assms(2) show ?thesis by (simp add: fgets_def Let_def)
qed

lemma ini_lines_line:
  assumes "LF \<notin> set body" "length body + 1 < MAX_LINE"
  shows "ini_lines h (body @ LF # rest) st =
    (case ini_line h (body @ [LF]) st of Inl e \<Rightarrow> Inl e | Inr st' \<Rightarrow> ini_lines h rest st')"
  using fgets_line [OF assms, of rest] by (subst ini_lines.simps) simp

lemma no_nul_id: "NUL \<notin> set s \<Longrightarrow> takeWhile (\<lambda>c. c \<noteq> NUL) s = s"
  by (simp add: takeWhile_eq_all_conv) blast

lemma pad_not: "pad_ok p \<Longrightarrow> \<not> c_isspace c \<Longrightarrow> c \<notin> set p"
  by (auto simp: pad_ok_def)

lemma find_in_value: "text_ok v \<Longrightarrow> find_char_or_comment False v NUL = length v"
  using find_char_or_comment_end [of False v NUL "[]"] by (simp add: text_ok_def)

lemma rstrip_text: "text_ok s \<Longrightarrow> rstrip s = s"
  by (auto simp: text_ok_def trimmed_def intro: rstrip_id)

lemma pair_line_entry:
  assumes "entry_ok e"
  shows "pair_line h (en_name e @ en_pad1 e @ CHR ''='' # rstrip (en_pad2 e @ en_value e @ en_pad3 e @ [LF])) st =
    call_handler h (en_name e) (en_value e) (st\<lparr>ini_prev_name := strncpy0 (en_name e) MAX_NAME\<rparr>)"
proof -
  let ?n = "en_name e @ en_pad1 e" let ?r = "rstrip (en_pad2 e @ en_value e @ en_pad3 e @ [LF])"
  have "text_ok (en_name e)" "pad_ok (en_pad1 e)" "CHR ''='' \<notin> set (en_name e)"
    using assms by (auto simp: entry_ok_def)
  then have k: "find_char_or_comment False (?n @ CHR ''='' # ?r) (CHR ''='') = length ?n"
    using pad_not [of "en_pad1 e"]
    by (intro find_char_or_comment_end no_comment_space) (auto simp: text_ok_def pad_ok_def)
  have "rstrip ?n = en_name e"
    using \<open>text_ok (en_name e)\<close> \<open>pad_ok (en_pad1 e)\<close>
    by (simp add: rstrip_append rstrip_space rstrip_text pad_ok_def)
  moreover have "lskip ?r = en_value e"
    using assms strip_padded [of "en_pad2 e" "en_pad3 e @ [LF]" "en_value e"]
    by (auto simp: entry_ok_def pad_ok_def text_ok_def)
  moreover have "text_ok (en_value e)" using assms by (simp add: entry_ok_def)
  ultimately show ?thesis
    using k by (simp add: pair_line_def Let_def first_char_def find_in_value rstrip_text)
qed

lemma ini_line_entry:
  assumes "entry_ok e"
  shows "ini_line h (show_entry e) st =
    call_handler h (en_name e) (en_value e)
      (st\<lparr>ini_lineno := Suc (ini_lineno st), ini_prev_name := strncpy0 (en_name e) MAX_NAME\<rparr>)"
proof -
  let ?l = "en_name e @ en_pad1 e @ CHR ''='' # rstrip (en_pad2 e @ en_value e @ en_pad3 e @ [LF])"
  have ok: "text_ok (en_name e)" "text_ok (en_value e)" "en_name e \<noteq> []" "pad_ok (en_pad1 e)" "pad_ok (en_pad2 e)"
    "pad_ok (en_pad3 e)" "hd (en_name e) \<notin> {CHR '';'', CHR ''#'', CHR ''[''}"
    using assms by (auto simp: entry_ok_def)
  have "NUL \<notin> set (en_pad1 e)" "NUL \<notin> set (en_pad2 e)" "NUL \<notin> set (en_pad3 e)"
    using ok(4-6) by (simp_all add: pad_not)
  then have "NUL \<notin> set (show_entry e)" using ok(1,2) by (simp add: show_entry_def text_ok_def)
  then have "takeWhile (\<lambda>c. c \<noteq> NUL) (show_entry e) = show_entry e" by (rule no_nul_id)
  moreover have "rstrip (show_entry e) = ?l"
    using rstrip_append [of "en_name e @ en_pad1 e" "CHR ''='' # en_pad2 e @ en_value e @ en_pad3 e @ [LF]"]
    unfolding show_entry_def by (simp add: rstrip_Cons)
  ultimately have line: "rstrip (takeWhile (\<lambda>c. c \<noteq> NUL) (show_entry e)) = ?l" by (simp only:)
  have start: "lskip ?l = ?l"
    using ok(1,3) by (intro lskip_id) (auto simp: text_ok_def trimmed_def)
  have "first_char ?l = hd (en_name e)" using ok(3) by (cases "en_name e") (auto simp: first_char_def)
  moreover have "?l \<noteq> []" by simp
  ultimately show ?thesis
    unfolding ini_line_def Let_def line start using ok(7) by (simp add: pair_line_entry [OF assms])
qed

lemma ini_line_section:
  assumes "text_ok s" "CHR '']'' \<notin> set s" "length s < MAX_SECTION"
  shows "ini_line h (CHR ''['' # s @ CHR '']'' # [LF]) st =
    Inr (st\<lparr>ini_lineno := Suc (ini_lineno st), ini_section := s, ini_prev_name := []\<rparr>)"
proof -
  have "NUL \<notin> set (CHR ''['' # s @ CHR '']'' # [LF])" using assms(1) by (auto simp: text_ok_def)
  then have line: "rstrip (takeWhile (\<lambda>c. c \<noteq> NUL) (CHR ''['' # s @ CHR '']'' # [LF])) = CHR ''['' # s @ [CHR '']'']"
    using rstrip_append [of "CHR ''['' # s @ [CHR '']'']" "[LF]"]
    by (simp add: no_nul_id rstrip_space rstrip_id)
  have "find_char_or_comment False (s @ [CHR '']'']) (CHR '']'') = length s"
    using assms by (intro find_char_or_comment_end) (auto simp: text_ok_def)
  with assms(3) line show ?thesis
    by (simp add: ini_line_def Let_def lskip_def first_char_def section_line_def strncpy0_def MAX_SECTION_def)
qed


lemma show_entry_line: "entry_ok e \<Longrightarrow> \<exists>body. show_entry e = body @ [LF] \<and> LF \<notin> set body \<and> length body + 1 < MAX_LINE"
  by (auto simp: entry_ok_def show_entry_def text_ok_def pad_ok_def
      intro!: exI [of _ "en_name e @ en_pad1 e @ CHR ''='' # en_pad2 e @ en_value e @ en_pad3 e"])

lemma ini_lines_entry:
  assumes "entry_ok e"
  shows "ini_lines h (show_entry e @ rest) st =
    (case call_handler h (en_name e) (en_value e)
        (st\<lparr>ini_lineno := Suc (ini_lineno st), ini_prev_name := strncpy0 (en_name e) MAX_NAME\<rparr>) of
       Inl x \<Rightarrow> Inl x | Inr st' \<Rightarrow> ini_lines h rest st')"
proof -
  from show_entry_line [OF assms] obtain body where
    b: "show_entry e = body @ [LF]" "LF \<notin> set body" "length body + 1 < MAX_LINE" by blast
  have "ini_lines h (show_entry e @ rest) st =
      (case ini_line h (show_entry e) st of Inl x \<Rightarrow> Inl x | Inr st' \<Rightarrow> ini_lines h rest st')"
    using ini_lines_line [OF b(2,3), of h rest st] by (simp add: b(1))
  then show ?thesis by (simp only: ini_line_entry [OF assms])
qed

lemma entry_calls_simps [simp]:
  "entry_calls n s [] = []"
  "entry_calls n s (e # es) = (Suc n, s, en_name e, en_value e) # entry_calls (Suc n) s es"
  by (simp_all add: entry_calls_def)

lemma handle_all_append:
  "handle_all h (cs @ ds) err u =
    (case handle_all h cs err u of Inl e \<Rightarrow> Inl e | Inr (err', u') \<Rightarrow> handle_all h ds err' u')"
  by (induction h cs err u rule: handle_all.induct) (auto split: sum.splits)

text \<open>A run over entries: the state after it.\<close>

definition after_entries :: "entry list \<Rightarrow> nat \<Rightarrow> 'c \<Rightarrow> 'c ini \<Rightarrow> 'c ini" where
  "after_entries es err u st = st\<lparr>ini_lineno := ini_lineno st + length es, ini_error := err, ini_user := u,
     ini_prev_name := (if es = [] then ini_prev_name st else strncpy0 (en_name (last es)) MAX_NAME)\<rparr>"

lemma ini_lines_entries:
  assumes "\<forall>e \<in> set es. entry_ok e"
  shows "ini_lines h (concat (map show_entry es) @ rest) st =
    (case handle_all h (entry_calls (ini_lineno st) (ini_section st) es) (ini_error st) (ini_user st) of
       Inl e \<Rightarrow> Inl e
     | Inr (err, u) \<Rightarrow> ini_lines h rest (after_entries es err u st))"
  using assms
proof (induction es arbitrary: st)
  case Nil
  then show ?case by (simp add: after_entries_def)
next
  case (Cons e es)
  let ?st = "st\<lparr>ini_lineno := Suc (ini_lineno st), ini_prev_name := strncpy0 (en_name e) MAX_NAME\<rparr>"
  show ?case
  proof (cases "h (ini_section st) (en_name e) (en_value e) (ini_user st)")
    case (Inl x)
    then show ?thesis using Cons.prems by (simp add: ini_lines_entry call_handler_def)
  next
    case (Inr r)
    obtain ok u where r: "r = (ok, u)" by (cases r)
    let ?err = "if ok \<or> ini_error st \<noteq> 0 then ini_error st else Suc (ini_lineno st)"
    have call: "call_handler h (en_name e) (en_value e) ?st = Inr (?st\<lparr>ini_user := u, ini_error := ?err\<rparr>)"
      using Inr r by (simp add: call_handler_def Let_def first_error_def)
    show ?thesis
      using Cons Inr r by (auto simp: ini_lines_entry call after_entries_def split: sum.splits)
  qed
qed

lemma ini_lines_section:
  assumes "section_ok (s, es)"
  shows "ini_lines h (show_section (s, es) @ rest) st =
    (case handle_all h (entry_calls (Suc (ini_lineno st)) s es) (ini_error st) (ini_user st) of
       Inl e \<Rightarrow> Inl e
     | Inr (err, u) \<Rightarrow> ini_lines h rest (after_entries es err u
         (st\<lparr>ini_lineno := Suc (ini_lineno st), ini_section := s, ini_prev_name := []\<rparr>)))"
proof -
  have s: "text_ok s" "CHR '']'' \<notin> set s" "length s < MAX_SECTION" "\<forall>e \<in> set es. entry_ok e"
    using assms by (simp_all add: section_ok_def)
  then have "LF \<notin> set (CHR ''['' # s @ [CHR '']''])" "length (CHR ''['' # s @ [CHR '']'']) + 1 < MAX_LINE"
    by (simp_all add: text_ok_def MAX_SECTION_def MAX_LINE_def)
  from ini_lines_line [OF this, of h "concat (map show_entry es) @ rest" st] s show ?thesis
    by (simp add: show_section_def ini_line_section ini_lines_entries)
qed

lemma ini_lines_all:
  assumes "\<forall>s \<in> set ss. section_ok s"
  shows "(case ini_lines h (show_ini ss) st of Inl e \<Rightarrow> Inl e | Inr st' \<Rightarrow> Inr (ini_error st', ini_user st')) =
    handle_all h (ini_calls (ini_lineno st) ss) (ini_error st) (ini_user st)"
  using assms
proof (induction ss arbitrary: st)
  case Nil
  then show ?case by (simp add: show_ini_def ini_lines.simps)
next
  case (Cons s ss)
  obtain name es where s: "s = (name, es)" by (cases s)
  let ?st = "st\<lparr>ini_lineno := Suc (ini_lineno st), ini_section := name, ini_prev_name := []\<rparr>"
  have "ini_lines h (show_ini (s # ss)) st =
      (case handle_all h (entry_calls (Suc (ini_lineno st)) name es) (ini_error st) (ini_user st) of
         Inl e \<Rightarrow> Inl e
       | Inr (err, u) \<Rightarrow> ini_lines h (show_ini ss) (after_entries es err u ?st))"
    using Cons.prems ini_lines_section [of name es h "show_ini ss" st] by (simp add: s show_ini_def)
  moreover have "ini_lineno (after_entries es err u ?st) = Suc (ini_lineno st) + length es"
    "ini_error (after_entries es err u ?st) = err" "ini_user (after_entries es err u ?st) = u" for err u
    by (simp_all add: after_entries_def)
  ultimately show ?case
    using Cons.IH [of "after_entries es _ _ ?st"] Cons.prems
    by (auto simp: s handle_all_append split: sum.splits)
qed

text \<open>Text without white space and without the characters the reader looks for.\<close>

definition plain_text :: "string \<Rightarrow> bool" where
  "plain_text s \<longleftrightarrow> (\<forall>c \<in> set s. \<not> c_isspace c \<and> c \<notin> {NUL, CHR ''='', CHR '':'', CHR '';'', CHR ''#'', CHR ''[''})"

lemma plain_text_append [simp]: "plain_text (s @ t) \<longleftrightarrow> plain_text s \<and> plain_text t"
  by (auto simp: plain_text_def)

lemma plain_textD:
  assumes "plain_text s"
  shows "rstrip s = s" "lskip s = s" "takeWhile (\<lambda>c. c \<noteq> NUL) s = s" "LF \<notin> set s"
    "c \<in> {CHR ''='', CHR '':'', NUL} \<Longrightarrow> t = [] \<or> hd t = c \<Longrightarrow> find_char_or_comment False (s @ t) c = length s"
    "s \<noteq> [] \<Longrightarrow> hd s \<notin> {CHR ''='', CHR '':'', CHR '';'', CHR ''#'', CHR ''['', NUL}"
proof -
  have p: "\<not> c_isspace d" "d \<notin> {NUL, CHR ''='', CHR '':'', CHR '';'', CHR ''#'', CHR ''[''}" if "d \<in> set s" for d
    using assms that by (auto simp: plain_text_def)
  show "rstrip s = s" "lskip s = s"
    using p(1) last_in_set [of s] hd_in_set [of s] by (blast intro: rstrip_id lskip_id)+
  show "takeWhile (\<lambda>c. c \<noteq> NUL) s = s" using p(2) by (auto intro: no_nul_id)
  show "LF \<notin> set s" using p(1) by fastforce
  show "s \<noteq> [] \<Longrightarrow> hd s \<notin> {CHR ''='', CHR '':'', CHR '';'', CHR ''#'', CHR ''['', NUL}"
    using p(2) hd_in_set [of s] by blast
  have "no_comment v s" if "CHR '';'' \<notin> set s" for v s
    using that by (induction s arbitrary: v) auto
  with p(2) show "c \<in> {CHR ''='', CHR '':'', NUL} \<Longrightarrow> t = [] \<or> hd t = c \<Longrightarrow> find_char_or_comment False (s @ t) c = length s"
    by (intro find_char_or_comment_end) blast+
qed

lemma fgets_cut:
  assumes "LF \<notin> set body" "length body = m - 1"
  shows "fgets m (body @ rest) = (body, rest)"
proof -
  have "takeWhile (\<lambda>c. c \<noteq> LF) (body @ rest) = body @ takeWhile (\<lambda>c. c \<noteq> LF) rest"
    using assms(1) by (induction body) auto
  with assms(2) show ?thesis by (simp add: fgets_def Let_def)
qed

lemma ini_line_plain_pair:
  assumes "plain_text (n @ v)" "n \<noteq> []"
  shows "ini_line h (n @ CHR ''='' # v) st =
    call_handler h n v (st\<lparr>ini_lineno := Suc (ini_lineno st), ini_prev_name := strncpy0 n MAX_NAME\<rparr>)"
proof -
  have nv: "plain_text n" "plain_text v" using assms(1) by simp_all
  note n = plain_textD [OF nv(1)] and v = plain_textD [OF nv(2)]
  have c: "first_char (n @ CHR ''='' # v) = hd n" using assms(2) by (cases n) (auto simp: first_char_def)
  have "takeWhile (\<lambda>c. c \<noteq> NUL) (n @ CHR ''='' # v) = n @ CHR ''='' # v"
    by (subst takeWhile_append2) (use n(3) v(3) set_takeWhileD in \<open>fastforce simp: takeWhile_eq_all_conv\<close>)+
  then have line: "rstrip (takeWhile (\<lambda>c. c \<noteq> NUL) (n @ CHR ''='' # v)) = n @ CHR ''='' # v"
    by (simp only: rstrip_append [of n] rstrip_Cons [of "CHR ''=''" v, OF isspace_marks(1)] v(1)) simp
  have start: "lskip (n @ CHR ''='' # v) = n @ CHR ''='' # v"
    using assms(2) nv(1) by (intro lskip_id) (simp add: plain_text_def)
  have "find_char_or_comment False (n @ CHR ''='' # v) (CHR ''='') = length n"
    by (rule n(5)) simp_all
  moreover have "find_char_or_comment False v NUL = length v" using v(5) [of NUL "[]"] by simp
  ultimately have "pair_line h (n @ CHR ''='' # v) st' = call_handler h n v (st'\<lparr>ini_prev_name := strncpy0 n MAX_NAME\<rparr>)"
    for st' using n(1) v(1,2) by (simp add: pair_line_def Let_def first_char_def)
  then show ?thesis
    unfolding ini_line_def Let_def line start c using n(6) [OF assms(2)] by simp
qed

lemma ini_line_plain:
  assumes "plain_text w" "w \<noteq> []"
  shows "ini_line h (w @ [LF]) st = Inr (first_error (st\<lparr>ini_lineno := Suc (ini_lineno st)\<rparr>))"
proof -
  note w = plain_textD [OF assms(1)]
  have c: "first_char w = hd w" using assms(2) by (cases w) (auto simp: first_char_def)
  have "takeWhile (\<lambda>c. c \<noteq> NUL) (w @ [LF]) = w @ [LF]"
    by (subst takeWhile_append2) (use w(3) in \<open>auto simp: takeWhile_eq_all_conv\<close>)
  then have line: "rstrip (takeWhile (\<lambda>c. c \<noteq> NUL) (w @ [LF])) = w"
    by (simp add: rstrip_append rstrip_space w(1))
  have "find_char_or_comment False w (CHR ''='') = length w" "find_char_or_comment False w (CHR '':'') = length w"
    using w(5) [of _ "[]"] by simp_all
  then have "pair_line h w st' = Inr (first_error st')" for st'
    by (simp add: pair_line_def Let_def first_char_def)
  then show ?thesis
    unfolding ini_line_def Let_def line w(2) c using w(6) [OF assms(2)] assms(2) by simp
qed

section \<open>What a reader keeps\<close>

text \<open>
  A handler that keeps a property of the user's data keeps it over the whole file, whatever
  the file contains.
\<close>

locale ini_client =
  fixes handler :: "('e, 'c) ini_handler" and ok :: "'c \<Rightarrow> bool"
  assumes keeps: "ok u \<Longrightarrow> handler s n v u = Inr (r, u') \<Longrightarrow> ok u'"
begin

lemma first_error_user [simp]: "ini_user (first_error st) = ini_user st"
  by (simp add: first_error_def)

lemma call_handler_ok: "ok (ini_user st) \<Longrightarrow> call_handler handler n v st = Inr st' \<Longrightarrow> ok (ini_user st')"
  using keeps [of "ini_user st" "ini_section st" n v]
  by (auto simp: call_handler_def Let_def split: sum.splits)

lemma pair_line_ok: "ok (ini_user st) \<Longrightarrow> pair_line handler s st = Inr st' \<Longrightarrow> ok (ini_user st')"
  using call_handler_ok [of "st\<lparr>ini_prev_name := _\<rparr>" _ _ st']
  by (auto simp: pair_line_def Let_def split: if_splits)

lemma section_line_user [simp]: "ini_user (section_line s st) = ini_user st"
  by (simp add: section_line_def Let_def)

lemma ini_line_ok: "ok (ini_user st) \<Longrightarrow> ini_line handler b st = Inr st' \<Longrightarrow> ok (ini_user st')"
  using call_handler_ok [of "st\<lparr>ini_lineno := _\<rparr>" _ _ st'] pair_line_ok [of "st\<lparr>ini_lineno := _\<rparr>" _ st']
  by (auto simp: ini_line_def Let_def split: if_splits)

lemma ini_lines_ok: "ok (ini_user st) \<Longrightarrow> ini_lines handler file st = Inr st' \<Longrightarrow> ok (ini_user st')"
proof (induction "file" arbitrary: st rule: measure_induct_rule [of length])
  case (less f)
  show ?case
  proof (cases "f = []")
    case True
    then show ?thesis using less.prems by (simp add: ini_lines.simps)
  next
    case False
    obtain line rest where g: "fgets MAX_LINE f = (line, rest)" by fastforce
    with False have "length rest < length f" by (auto simp: fgets_def Let_def MAX_LINE_def)
    with less g False show ?thesis
      by (auto simp: ini_lines.simps [of _ f] split: sum.splits dest: ini_line_ok)
  qed
qed

lemma parse_ok: "ok u \<Longrightarrow> ini_parse handler file u = Inr (err, u') \<Longrightarrow> ok u'"
  using ini_lines_ok [of "\<lparr>ini_section = [], ini_prev_name = [], ini_lineno = 0, ini_error = 0, ini_user = u\<rparr>"]
  by (auto simp: ini_parse_def ini_parse_file_def split: option.splits sum.splits)

end

text \<open>The configuration's arrays hold 255 entries, the table of status codes 1000.\<close>

definition config_ok :: "configuration \<Rightarrow> bool" where
  "config_ok c \<longleftrightarrow> length (cf_catch_code c) = 1000 \<and> length (cf_hostname c) \<le> 255 \<and>
     length (cf_hostport c) \<le> 255 \<and> length (cf_hostip c) \<le> 255 \<and> length (cf_catch_req_head c) \<le> 255 \<and>
     length (cf_catch_rsp_head c) \<le> 255 \<and> length (cf_catch_cookie c) \<le> 255 \<and>
     length (cf_catch_get c) \<le> 255 \<and> length (cf_catch_post c) \<le> 255"

lemma add_item_ok: "config_ok c \<Longrightarrow> add_item ty p c = Inr c' \<Longrightarrow> config_ok c'"
  by (cases ty) (auto simp: set_list_def append_entry_def config_ok_def split: sum.splits if_splits)

lemma split_list_ok: "config_ok c \<Longrightarrow> split_list val ty c = Inr c' \<Longrightarrow> config_ok c'"
proof -
  have "config_ok c \<Longrightarrow> add_items ty ps c = Inr c' \<Longrightarrow> config_ok c'" for ps
    by (induction ty ps c rule: add_items.induct) (auto split: sum.splits dest: add_item_ok)
  then show "config_ok c \<Longrightarrow> split_list val ty c = Inr c' \<Longrightarrow> config_ok c'" by (simp add: split_list_def)
qed

lemma config_ok_upd [simp]:
  "config_ok (upd_master f c) = config_ok c" "config_ok (c\<lparr>cf_swap_file := w\<rparr>) = config_ok c"
  "config_ok (c\<lparr>cf_node := x\<rparr>) = config_ok c" "config_ok (c\<lparr>cf_daemon_mode := i\<rparr>) = config_ok c"
  "config_ok (c\<lparr>cf_skip_checksum := y\<rparr>) = config_ok c" "config_ok (c\<lparr>cf_pid_file := w\<rparr>) = config_ok c"
  "config_ok (c\<lparr>cf_netif := w\<rparr>) = config_ok c" "config_ok (default_config c) = config_ok c"
  by (simp_all add: config_ok_def upd_master_def default_config_def)

lemma if_elim:
  assumes "(if b then x else y) = z" "x = z \<Longrightarrow> P" "y = z \<Longrightarrow> P"
  shows P
  using assms by (simp split: if_splits)

interpretation config_reader: ini_client handler_config config_ok
proof
  fix u u' :: configuration and s n v :: string and r :: bool
  assume "config_ok u" "handler_config s n v u = Inr (r, u')"
  moreover have "from_list (split_list v ty u) = Inr (r, u') \<Longrightarrow> config_ok u \<Longrightarrow> config_ok u'" for ty
    by (auto simp: from_list_def split: sum.splits dest: split_list_ok)
  ultimately show "config_ok u'"
    unfolding handler_config_def Let_def by (elim if_elim) (simp_all add: handled_def, auto)
qed

section \<open>Properties\<close>

text \<open>
  C35: a configuration file is read back. Of a printed file the handler is called with the
  section, the name and the value of every entry, in order and without the white space around
  them; the result is the line of the first entry that it refuses, and 0 when it takes all.
\<close>

theorem ini_reads_back:
  assumes "\<forall>s \<in> set ss. section_ok s"
  shows "ini_parse_file h (show_ini ss) u = handle_all h (ini_calls 0 ss) 0 u"
  using ini_lines_all [OF assms, of h "\<lparr>ini_section = [], ini_prev_name = [], ini_lineno = 0, ini_error = 0, ini_user = u\<rparr>"]
  by (simp add: ini_parse_file_def)


theorem ini_reads_back_witness:
  "ini_parse_file (\<lambda>s n v u. Inr (v \<noteq> [], u @ [(s, n, v)]))
     (''[master]'' @ LF # ''host = h '' @ LF # ''[http-scope]'' @ LF # ''catch-get=*'' @ LF # ''pid-file='' @ [LF]) [] =
   (Inr (5, [(''master'', ''host'', ''h''), (''http-scope'', ''catch-get'', ''*''), (''http-scope'', ''pid-file'', [])]) :: unit + _)"
proof -
  let ?e = "\<lambda>n v a b c. \<lparr>en_name = n, en_value = v, en_pad1 = a, en_pad2 = b, en_pad3 = c\<rparr>"
  let ?ss = "[(''master'', [?e ''host'' ''h'' '' '' '' '' '' '']),
    (''http-scope'', [?e ''catch-get'' ''*'' [] [] [], ?e ''pid-file'' [] [] [] []])]"
  let ?h = "\<lambda>s n v u. Inr (v \<noteq> [], u @ [(s, n, v)]) :: unit + (bool \<times> (string \<times> string \<times> string) list)"
  have "\<forall>s \<in> set ?ss. section_ok s" by code_simp
  from ini_reads_back [OF this, of ?h "[]"] show ?thesis
    by (simp add: show_ini_def show_section_def show_entry_def)
qed

text \<open>
   a line of more than 199 bytes is cut in two. The handler gets the beginning of a value
  that is too long; the rest of the line is read as a line of its own, which is an error when it
  has no equals sign. So a long list of headers loses its end.
\<close>

theorem ini_long_line:
  assumes "plain_text (n @ v @ w)" "n \<noteq> []" "w \<noteq> []" "length (n @ v) = 198" "length w < 199"
  shows "ini_parse_file h (n @ CHR ''='' # v @ w @ [LF]) u =
    (case h [] n v u of Inl e \<Rightarrow> Inl e | Inr (ok, u') \<Rightarrow> Inr (if ok then 2 else 1, u'))"
proof -
  have p: "plain_text (n @ v)" "plain_text w" using assms(1) by simp_all
  have "LF \<notin> set (n @ CHR ''='' # v)" using plain_textD(4) [OF p(1)] by simp
  then have g: "fgets MAX_LINE (n @ CHR ''='' # v @ w @ [LF]) = (n @ CHR ''='' # v, w @ [LF])"
    using fgets_cut [of "n @ CHR ''='' # v" MAX_LINE "w @ [LF]"] assms(4) by (simp add: MAX_LINE_def)
  have "ini_lines h (w @ [LF]) st = Inr (first_error (st\<lparr>ini_lineno := Suc (ini_lineno st)\<rparr>))" for st
    using ini_lines_line [of w h "[]" st] plain_textD(4) [OF p(2)] assms(3,5)
    by (simp add: ini_line_plain p(2) MAX_LINE_def ini_lines.simps [of h "[]"])
  then show ?thesis
    by (simp add: ini_parse_file_def ini_lines.simps [of h "n @ CHR ''='' # v @ w @ [LF]"] g
        ini_line_plain_pair [OF p(1) assms(2)] call_handler_def first_error_def Let_def split: sum.splits)
qed

theorem ini_long_line_witness:
  "ini_parse_file (\<lambda>s n v u. Inr (True, (n, v) # u))
     (''name'' @ CHR ''='' # replicate 194 (CHR ''a'') @ replicate 20 (CHR ''b'') @ [LF]) [] =
   (Inr (2, [(''name'', replicate 194 (CHR ''a''))]) :: unit + _)"
proof -
  let ?h = "\<lambda>s n v u. Inr (True, (n, v) # u) :: unit + (bool \<times> (string \<times> string) list)"
  have "plain_text (''name'' @ replicate 194 (CHR ''a'') @ replicate 20 (CHR ''b''))"
    by (simp add: plain_text_def c_isspace_def uchar_def)
  from ini_long_line [OF this, of ?h "[]"] show ?thesis by simp
qed




end
