(* ===== verification/Scan.thy ===== *)
theory Scan
  imports Packet "HOL-Library.Signed_Division"
begin

text \<open>
  The detection of port scans (src/src/libnids-1.24/src/scan.c, scan.h), which is run on every
  TCP packet without an ACK. The hash table is a map from its index to the chain of hosts,
  first one first; \<open>packets\<close> with \<open>n_packets\<close> is the list of the entries in use. The time in
  milliseconds (\<open>gettime\<close>) is a parameter: it is the same within a call.
\<close>

record scan_entry =
  sc_addr :: u32
  sc_port :: u16
  sc_flags :: u8

record host =
  ho_addr :: u32
  ho_modtime :: int
  ho_packets :: "scan_entry list"

record scan_prm =
  sp_num_hosts :: int
  sp_delay :: int
  sp_num_ports :: nat

text \<open>
  An index outside of the table is recorded as \<open>sd_bad_index\<close>; a warning is counted.
\<close>

record scan_table =
  sd_hashhost :: "int \<Rightarrow> host list"
  sd_warnings :: nat
  sd_bad_index :: "int option"

text \<open>\<open>scan_hash\<close> on the address as a signed \<open>int\<close>, with the remainder of C.\<close>

definition scan_hash :: "scan_prm \<Rightarrow> u32 \<Rightarrow> int" where
  "scan_hash prm a = (let n = sint a in ((n smod 65536) XOR drop_bit 16 n) smod sp_num_hosts prm)"

text \<open>
  The walk along a chain: the host when it is there, the number of hosts passed, and the one
  with the oldest time, by its place.
\<close>

fun scan_walk :: "u32 \<Rightarrow> host list \<Rightarrow> nat \<Rightarrow> int \<Rightarrow> nat option \<Rightarrow> nat option \<times> nat \<times> nat option" where
  "scan_walk a [] i mtime oldest = (None, i, oldest)"
| "scan_walk a (h # hs) i mtime oldest =
     (if ho_addr h = a then (Some i, i, oldest)
      else if ho_modtime h < mtime then scan_walk a hs (i + 1) (ho_modtime h) (Some i)
      else scan_walk a hs (i + 1) mtime oldest)"

text \<open>
  The entry of a host: the place in the chain and the chain. \<open>None\<close> is a NULL pointer that is
  written to.
\<close>

definition scan_host :: "u32 \<Rightarrow> int \<Rightarrow> host list \<Rightarrow> (nat \<times> host list) option" where
  "scan_host a now hs =
     (let new = \<lparr>ho_addr = a, ho_modtime = now, ho_packets = []\<rparr> in
      case scan_walk a hs 0 2147483647 None of
        (Some k, _, _) \<Rightarrow> Some (k, hs)
      | (None, i, oldest) \<Rightarrow>
          if i = 10 then (case oldest of None \<Rightarrow> None | Some k \<Rightarrow> Some (k, hs[k := new]))
          else Some (0, new # hs))"

text \<open>The packet is entered unless its target is there already; more than \<open>num_ports\<close> are a scan.\<close>

definition scan_packet :: "scan_prm \<Rightarrow> string \<Rightarrow> int \<Rightarrow> host \<Rightarrow> host \<times> bool" where
  "scan_packet prm pkt now h0 =
     (let th = tcp_header pkt;
          h1 = (if ho_modtime h0 - now > sp_delay prm then h0\<lparr>ho_packets := []\<rparr> else h0);
          h = h1\<lparr>ho_modtime := now\<rparr> in
      if \<exists>q \<in> set (ho_packets h). sc_addr q = ip_dst pkt \<and> sc_port q = th_dport th then (h, False)
      else
        let ps = ho_packets h @ [\<lparr>sc_addr = ip_dst pkt, sc_port = th_dport th, sc_flags = th_flags th\<rparr>] in
        if length ps > sp_num_ports prm then (h\<lparr>ho_packets := []\<rparr>, True) else (h\<lparr>ho_packets := ps\<rparr>, False))"

definition detect_scan :: "scan_prm \<Rightarrow> int \<Rightarrow> string \<Rightarrow> scan_table \<Rightarrow> scan_table" where
  "detect_scan prm now pkt s =
     (if sp_num_hosts prm \<le> 0 then s
      else
        let a = ip_src pkt; k = scan_hash prm a in
        if k < 0 \<or> sp_num_hosts prm \<le> k then s\<lparr>sd_bad_index := Some k\<rparr>
        else
          (case scan_host a now (sd_hashhost s k) of
             None \<Rightarrow> s\<lparr>sd_bad_index := Some k\<rparr>
           | Some (j, hs) \<Rightarrow>
               (case scan_packet prm pkt now (hs ! j) of (h, warn) \<Rightarrow>
                 s\<lparr>sd_hashhost := (sd_hashhost s)(k := hs[j := h]),
                   sd_warnings := sd_warnings s + of_bool warn\<rparr>)))"

section \<open>Its bounds\<close>

text \<open>
  A chain has at most ten hosts, a host at most as many targets as there are ports to make a
  scan, so the entry behind them that the code writes is in its array.
\<close>

definition scan_ok :: "scan_prm \<Rightarrow> scan_table \<Rightarrow> bool" where
  "scan_ok prm s \<longleftrightarrow> (\<forall>k. length (sd_hashhost s k) \<le> 10 \<and>
     (\<forall>h \<in> set (sd_hashhost s k). length (ho_packets h) \<le> sp_num_ports prm \<and> ho_modtime h < 2147483647))"

text \<open>The oldest host of a chain that has one is found, as long as times are below the start value.\<close>

lemma scan_walk_oldest:
  assumes "scan_walk a hs i mtime oldest = (None, n, o')" "\<forall>h \<in> set hs. ho_modtime h < 2147483647"
    "hs \<noteq> []" "mtime = 2147483647 \<or> oldest \<noteq> None"
  shows "o' \<noteq> None"
  using assms
proof (induction a hs i mtime oldest rule: scan_walk.induct)
  case (2 a h hs i mtime oldest)
  then show ?case by (cases "hs = []") (auto split: if_splits)
qed simp

lemma scan_walk_spec:
  assumes "scan_walk a hs i mtime oldest = (r, n, o')"
  shows "(r = None \<longrightarrow> n = i + length hs) \<and> (\<forall>k. r = Some k \<longrightarrow> i \<le> k \<and> k < i + length hs) \<and>
    (\<forall>k. o' = Some k \<longrightarrow> oldest = Some k \<or> (i \<le> k \<and> k < i + length hs))"
  using assms
proof (induction a hs i mtime oldest rule: scan_walk.induct)
  case (2 a h hs i mtime oldest)
  then show ?case by (fastforce split: if_splits)
qed auto

lemma scan_host_ok:
  assumes "length hs \<le> 10" "\<forall>h \<in> set hs. length (ho_packets h) \<le> n \<and> ho_modtime h < 2147483647" "now < 2147483647"
  shows "\<exists>j hs'. scan_host a now hs = Some (j, hs') \<and> j < length hs' \<and> length hs' \<le> 10 \<and>
    (\<forall>h \<in> set hs'. length (ho_packets h) \<le> n \<and> ho_modtime h < 2147483647)"
proof -
  obtain r i old where w: "scan_walk a hs 0 2147483647 None = (r, i, old)" by (metis prod_cases3)
  note spec = scan_walk_spec [OF w]
  show ?thesis
  proof (cases r)
    case None
    have "old \<noteq> None" if "i = 10"
    proof (rule scan_walk_oldest)
      show "scan_walk a hs 0 2147483647 None = (None, i, old)" using w None by simp
      show "hs \<noteq> []" using None spec that by auto
    qed (use assms(2) in simp_all)
    then show ?thesis
      using None assms w spec
      by (auto simp: scan_host_def Let_def dest!: set_update_subset_insert [THEN subsetD])
  next
    case (Some k)
    then show ?thesis using assms w spec by (auto simp: scan_host_def Let_def)
  qed
qed

lemma scan_packet_ok:
  "length (ho_packets h) \<le> sp_num_ports prm \<Longrightarrow>
    length (ho_packets (fst (scan_packet prm pkt now h))) \<le> sp_num_ports prm \<and>
    ho_modtime (fst (scan_packet prm pkt now h)) = now"
  by (auto simp: scan_packet_def Let_def)

lemma smod_less: "0 < b \<Longrightarrow> a smod b < (b :: int)"
  using smod_int_range [of b a] by simp

section \<open>Properties\<close>

text \<open>
  C39: the tables of the scan detector stay in their bounds. Whatever packets come, a chain has
  at most ten hosts and a host at most \<open>scan_num_ports\<close> targets, so the entry that is written
  behind them is in its array; and the table is left, or a NULL pointer followed, only for a
  source address whose hash is negative.
\<close>

theorem detect_scan_bounds:
  assumes "scan_ok prm s" "now < 2147483647"
  shows "scan_ok prm (detect_scan prm now pkt s) \<and>
    (0 \<le> scan_hash prm (ip_src pkt) \<longrightarrow> sd_bad_index (detect_scan prm now pkt s) = sd_bad_index s)"
proof -
  let ?k = "scan_hash prm (ip_src pkt)" let ?hs = "sd_hashhost s ?k"
  have "length ?hs \<le> 10" "\<forall>h \<in> set ?hs. length (ho_packets h) \<le> sp_num_ports prm \<and> ho_modtime h < 2147483647"
    using assms(1) by (auto simp: scan_ok_def)
  from scan_host_ok [OF this assms(2), of "ip_src pkt"] obtain j hs where
    some: "scan_host (ip_src pkt) now ?hs = Some (j, hs)" and
    hs: "j < length hs" "length hs \<le> 10" "\<forall>h \<in> set hs. length (ho_packets h) \<le> sp_num_ports prm \<and> ho_modtime h < 2147483647"
    by blast
  obtain h b where h: "scan_packet prm pkt now (hs ! j) = (h, b)" by fastforce
  with scan_packet_ok [of "hs ! j" prm pkt now] hs
  have "length (ho_packets h) \<le> sp_num_ports prm \<and> ho_modtime h < 2147483647" using assms(2) by simp
  with hs have "\<forall>g \<in> set (hs[j := h]). length (ho_packets g) \<le> sp_num_ports prm \<and> ho_modtime g < 2147483647"
    by (auto dest!: set_update_subset_insert [THEN subsetD])
  with hs assms some h have "scan_ok prm (detect_scan prm now pkt s)"
    by (simp add: detect_scan_def Let_def scan_ok_def)
  moreover have "sd_bad_index (detect_scan prm now pkt s) = sd_bad_index s" if "0 \<le> ?k"
  proof (cases "sp_num_hosts prm \<le> 0")
    case True
    then show ?thesis by (simp add: detect_scan_def)
  next
    case False
    then have "?k < sp_num_hosts prm" unfolding scan_hash_def Let_def by (intro smod_less) simp
    with False that some h show ?thesis by (simp add: detect_scan_def Let_def)
  qed
  ultimately show ?thesis by blast
qed

theorem detect_scan_bounds_witness:
  "scan_ok \<lparr>sp_num_hosts = 256, sp_delay = 3000, sp_num_ports = 10\<rparr>
    (detect_scan \<lparr>sp_num_hosts = 256, sp_delay = 3000, sp_num_ports = 10\<rparr> 5 (replicate 40 (CHR ''E''))
      \<lparr>sd_hashhost = (\<lambda>_. []), sd_warnings = 0, sd_bad_index = None\<rparr>)"
  using detect_scan_bounds [of "\<lparr>sp_num_hosts = 256, sp_delay = 3000, sp_num_ports = 10\<rparr>"
      "\<lparr>sd_hashhost = (\<lambda>_. []), sd_warnings = 0, sd_bad_index = None\<rparr>" 5 "replicate 40 (CHR ''E'')"]
  by (simp add: scan_ok_def)

text \<open>
  An old scan is never forgotten. The test that is to drop the targets of a host that was
  quiet for long subtracts the present from the past, so with a clock that does not go back
  and a delay that is not negative nothing is ever dropped: a new target is always added to
  the old ones.
\<close>

lemma scan_never_expires:
  assumes "ho_modtime h \<le> now" "0 \<le> sp_delay prm"
  shows "ho_packets (fst (scan_packet prm pkt now h)) = [] \<or>
    (\<exists>ps. ho_packets (fst (scan_packet prm pkt now h)) = ho_packets h @ ps)"
  using assms by (auto simp: scan_packet_def Let_def)

text \<open>
   an address that leaves the table. For the source addresses \<open>0.0.c.d\<close> with \<open>d\<close> at least
  128 the remainder is 0 and the shifted address negative, so the index is negative (unless
  it is a multiple of the size of the table).
\<close>

theorem scan_hash_negative:
  assumes "unat a mod 65536 = 0" "sint a < 0" "0 < sp_num_hosts prm"
    "\<not> sp_num_hosts prm dvd drop_bit 16 (sint a)"
  shows "scan_hash prm a < 0"
proof -
  have "65536 dvd unat a" using assms(1) by (rule mod_0_imp_dvd)
  then have "int 65536 dvd int (unat a)" by (simp only: of_nat_dvd_iff)
  then have "(65536 :: int) dvd sint a mod 2 ^ 32"
    by (simp only: of_nat_numeral flip: uint_nat) (simp only: uint_sint take_bit_int_def len_of_numeral_defs, simp)
  then have "(65536 :: int) dvd sint a" by (subst (asm) dvd_mod_iff) simp_all
  then have "sint a smod 65536 = 0" by (simp add: smod_int_alt_def)
  then have "scan_hash prm a = drop_bit 16 (sint a) smod sp_num_hosts prm" by (simp add: scan_hash_def Let_def)
  moreover have neg: "drop_bit 16 (sint a) < 0" using assms(2) by (simp add: drop_bit_int_def)
  moreover have "\<bar>drop_bit 16 (sint a)\<bar> mod \<bar>sp_num_hosts prm\<bar> \<noteq> 0"
    using assms(4) by (simp flip: dvd_eq_mod_eq_0)
  then have "0 < \<bar>drop_bit 16 (sint a)\<bar> mod \<bar>sp_num_hosts prm\<bar>"
    using assms(3) by (simp add: order_less_le)
  ultimately show ?thesis unfolding smod_int_alt_def using neg by simp
qed

theorem scan_hash_negative_witness:
  "scan_hash \<lparr>sp_num_hosts = 256, sp_delay = 3000, sp_num_ports = 10\<rparr> 0x80010000 < 0"
  by (rule scan_hash_negative) (simp_all add: drop_bit_int_def)

end
