(* ===== verification/TcpEngine.thy ===== *)
theory TcpEngine
  imports TcpStream Packet Scan
begin

text \<open>
  The table of the TCP streams of libnids (src/src/libnids-1.24/src/tcp.c, hash.c): adding,
  finding and freeing streams, timeouts, and \<open>process_tcp\<close>, which takes a packet.
\<close>

section \<open>hash.c\<close>

text \<open>
  \<open>init_hash\<close> makes a permutation of twelve places from twelve random bytes (\<open>getrnd\<close>): the
  place taken is removed from the array by moving the rest down.
\<close>

definition hash_remove :: "nat \<Rightarrow> nat list \<Rightarrow> nat list" where
  "hash_remove n p = fold (\<lambda>j p. p[n + j := p ! (n + j + 1)]) [0..<11 - n] p"

fun init_hash_loop :: "nat list \<Rightarrow> nat \<Rightarrow> nat list \<Rightarrow> nat list" where
  "init_hash_loop [] i p = []"
| "init_hash_loop (r # rs) i p =
     (let n = r mod (12 - i) in p ! n # init_hash_loop rs (i + 1) (hash_remove n p))"

record hash_keys =
  hk_perm :: "nat list"
  hk_xor :: "nat list"

definition init_hash :: "nat list \<Rightarrow> nat list \<Rightarrow> hash_keys" where
  "init_hash rnd_xor rnd_perm = \<lparr>hk_perm = init_hash_loop rnd_perm 0 [0..<12], hk_xor = rnd_xor\<rparr>"

definition tuple_bytes :: "u32 \<Rightarrow> u16 \<Rightarrow> u32 \<Rightarrow> u16 \<Rightarrow> nat list" where
  "tuple_bytes src sport dest dport =
     (let b = (\<lambda>n k. unat n div 256 ^ k mod 256) in
      map (b src) [0, 1, 2, 3] @ map (b dest) [0, 1, 2, 3] @
      map (\<lambda>k. unat sport div 256 ^ k mod 256) [0, 1] @ map (\<lambda>k. unat dport div 256 ^ k mod 256) [0, 1])"

definition mkhash :: "hash_keys \<Rightarrow> u32 \<Rightarrow> u16 \<Rightarrow> u32 \<Rightarrow> u16 \<Rightarrow> u32" where
  "mkhash keys src sport dest dport =
     fold (\<lambda>i res. (push_bit 8 res +
         of_nat (tuple_bytes src sport dest dport ! (hk_perm keys ! i) XOR hk_xor keys ! i)) mod 0xff100f)
       [0..<12] 0"

section \<open>The state\<close>

text \<open>
  Streams are the places of \<open>streams_pool\<close>; the chains of \<open>tcp_stream_table\<close>, the list of free
  streams and the list by age, latest first, are lists of places. \<open>te_stuck\<close> is set where the
  code prints \<open>gdb me\<close> and waits.
\<close>

record 'w tcp_engine =
  te_keys :: hash_keys
  te_table_size :: nat
  te_table :: "nat \<Rightarrow> nat list"
  te_max_stream :: nat
  te_pool :: "nat \<Rightarrow> tcp_stream"
  te_free :: "nat list"
  te_time :: "nat list"
  te_num :: nat
  te_timeouts :: "(nat \<times> int) list"
  te_now :: int
  te_procs :: "nat list"
  te_scan :: scan_table
  te_stuck :: bool
  te_client :: 'w

definition mk_hash_index :: "'w tcp_engine \<Rightarrow> tuple4 \<Rightarrow> nat" where
  "mk_hash_index e a =
     unat (mkhash (te_keys e) (t4_saddr a) (t4_source a) (t4_daddr a) (t4_dest a)) mod te_table_size e"

text \<open>\<open>memset\<close> of a stream.\<close>

definition half_zero :: "half_stream" where
  "half_zero = \<lparr>hs_state = TCP_CLOSE, hs_collect = 0, hs_collect_urg = 0, hs_data = [], hs_offset = 0,
     hs_count = 0, hs_count_new = 0, hs_bufsize = 0, hs_rmem_alloc = 0, hs_urg_count = 0, hs_seq = 0,
     hs_ack_seq = 0, hs_first_data_seq = 0, hs_urgdata = NUL, hs_count_new_urg = False, hs_urg_seen = False,
     hs_urg_ptr = 0, hs_window = 0, hs_ts_on = False, hs_wscale_on = False, hs_curr_ts = 0, hs_wscale = 0,
     hs_list = []\<rparr>"

definition stream_zero :: tcp_stream where
  "stream_zero = \<lparr>ts_addr = \<lparr>t4_source = 0, t4_dest = 0, t4_saddr = 0, t4_daddr = 0\<rparr>, ts_nids_state = None,
     ts_listeners = [], ts_client = half_zero, ts_server = half_zero, ts_read = 0, ts_user = 0, ts_hash_index = 0\<rparr>"

text \<open>A function on one stream, in the engine.\<close>

definition on_stream :: "nat \<Rightarrow> ('w tcp_ctx \<Rightarrow> 'w tcp_ctx) \<Rightarrow> 'w tcp_engine \<Rightarrow> 'w tcp_engine" where
  "on_stream i f e =
     (let c = f \<lparr>cx_stream = te_pool e i, cx_timeouts = te_timeouts e, cx_now = te_now e, cx_client = te_client e\<rparr> in
      e\<lparr>te_pool := (te_pool e)(i := cx_stream c), te_timeouts := cx_timeouts c, te_client := cx_client c\<rparr>)"

definition purge_queue :: "half_stream \<Rightarrow> half_stream" where
  "purge_queue h = h\<lparr>hs_list := [], hs_rmem_alloc := 0\<rparr>"

definition nids_free_tcp_stream :: "nids_prm \<Rightarrow> nat \<Rightarrow> 'w tcp_engine \<Rightarrow> 'w tcp_engine" where
  "nids_free_tcp_stream prm i e =
     (let s = te_pool e i; k = ts_hash_index s in
      e\<lparr>te_timeouts := del_tcp_closing_timeout prm i (te_timeouts e),
        te_pool := (te_pool e)(i := s\<lparr>ts_client := purge_queue (ts_client s), ts_server := purge_queue (ts_server s)\<rparr>),
        te_table := (te_table e)(k := remove1 i (te_table e k)),
        te_time := remove1 i (te_time e),
        te_free := i # te_free e,
        te_num := te_num e - 1\<rparr>)"

text \<open>Telling the listeners of a last state and freeing the stream.\<close>

definition end_stream :: "nids_prm \<Rightarrow> 'w lurker_proc \<Rightarrow> nat \<Rightarrow> nids_state \<Rightarrow> 'w tcp_engine \<Rightarrow> 'w tcp_engine" where
  "end_stream prm proc i st e = nids_free_tcp_stream prm i (on_stream i (tell_listeners proc i st) e)"

fun tcp_check_timeouts :: "nids_prm \<Rightarrow> 'w lurker_proc \<Rightarrow> int \<Rightarrow> (nat \<times> int) list \<Rightarrow> 'w tcp_engine \<Rightarrow> 'w tcp_engine" where
  "tcp_check_timeouts prm proc now [] e = e"
| "tcp_check_timeouts prm proc now (t # ts) e =
     (if now < snd t then e
      else tcp_check_timeouts prm proc now ts (end_stream prm proc (fst t) NIDS_TIMED_OUT e))"

section \<open>New streams\<close>

definition tuple_of :: "string \<Rightarrow> string \<Rightarrow> tuple4" where
  "tuple_of th iph = \<lparr>t4_source = th_sport th, t4_dest = th_dport th, t4_saddr = ip_src iph, t4_daddr = ip_dst iph\<rparr>"

text \<open>The client half of a stream whose first packet has the header \<open>th\<close>.\<close>

definition syn_half :: "string \<Rightarrow> half_stream" where
  "syn_half th =
     (let n = th_seq th + 1; (tson, ts) = get_ts th 0; (wson, ws) = get_wscale th in
      half_zero\<lparr>hs_state := TCP_SYN_SENT, hs_seq := n, hs_first_data_seq := n, hs_window := th_win th,
        hs_ts_on := tson, hs_curr_ts := ts, hs_wscale_on := wson, hs_wscale := ws\<rparr>)"

definition add_new_tcp :: "nids_prm \<Rightarrow> 'w lurker_proc \<Rightarrow> string \<Rightarrow> string \<Rightarrow> 'w tcp_engine \<Rightarrow> 'w tcp_engine" where
  "add_new_tcp prm proc th iph e =
     (let a = tuple_of th iph; k = mk_hash_index e a;
          e1 = (if te_num e > te_max_stream e then end_stream prm proc (last (te_time e)) NIDS_TIMED_OUT e else e) in
      case te_free e1 of
        [] \<Rightarrow> e1\<lparr>te_stuck := True\<rparr>
      | i # fs \<Rightarrow>
          e1\<lparr>te_free := fs, te_num := te_num e1 + 1,
             te_pool := (te_pool e1)(i := stream_zero\<lparr>ts_hash_index := k, ts_addr := a, ts_client := syn_half th,
               ts_server := half_zero\<lparr>hs_state := TCP_CLOSE\<rparr>\<rparr>),
             te_table := (te_table e1)(k := i # te_table e1 k),
             te_time := i # te_time e1\<rparr>)"

section \<open>Finding a stream\<close>

definition nids_find_tcp_stream :: "tuple4 \<Rightarrow> 'w tcp_engine \<Rightarrow> nat option" where
  "nids_find_tcp_stream a e = find (\<lambda>i. ts_addr (te_pool e i) = a) (te_table e (mk_hash_index e a))"

definition reversed :: "tuple4 \<Rightarrow> tuple4" where
  "reversed a = \<lparr>t4_source = t4_dest a, t4_dest = t4_source a, t4_saddr = t4_daddr a, t4_daddr = t4_saddr a\<rparr>"

text \<open>The stream and whether the packet is from its client.\<close>

definition find_stream :: "string \<Rightarrow> string \<Rightarrow> 'w tcp_engine \<Rightarrow> (nat \<times> bool) option" where
  "find_stream th iph e =
     (let a = tuple_of th iph in
      case nids_find_tcp_stream a e of
        Some i \<Rightarrow> Some (i, True)
      | None \<Rightarrow>
          (case nids_find_tcp_stream (reversed a) e of
             Some i \<Rightarrow> Some (i, False)
           | None \<Rightarrow> None))"

section \<open>\<open>process_tcp\<close>\<close>

text \<open>A SYN to a known stream: the answer of the server, which must fit.\<close>

definition syn_ack :: "string \<Rightarrow> tcp_stream \<Rightarrow> tcp_stream" where
  "syn_ack th s =
     (let n = th_seq th + 1; cl = ts_client s;
          sv = (ts_server s)\<lparr>hs_state := TCP_SYN_RECV, hs_seq := n, hs_first_data_seq := n,
                 hs_ack_seq := th_ack th, hs_window := th_win th\<rparr>;
          (cl1, sv1) =
            (if hs_ts_on cl then
               (case get_ts th (hs_curr_ts sv) of (on, ts) \<Rightarrow>
                 (if on then cl else cl\<lparr>hs_ts_on := False\<rparr>, sv\<lparr>hs_ts_on := on, hs_curr_ts := ts\<rparr>))
             else (cl, sv\<lparr>hs_ts_on := False\<rparr>));
          (cl2, sv2) =
            (if hs_wscale_on cl1 then
               (case get_wscale th of (on, ws) \<Rightarrow>
                 if on then (cl1, sv1\<lparr>hs_wscale_on := True, hs_wscale := ws\<rparr>)
                 else (cl1\<lparr>hs_wscale_on := False, hs_wscale := 1\<rparr>, sv1\<lparr>hs_wscale_on := False, hs_wscale := 1\<rparr>))
             else (cl1, sv1\<lparr>hs_wscale_on := False, hs_wscale := 1\<rparr>))
      in s\<lparr>ts_client := cl2, ts_server := sv2\<rparr>)"

definition process_syn :: "string \<Rightarrow> nat \<Rightarrow> bool \<Rightarrow> 'w tcp_engine \<Rightarrow> 'w tcp_engine" where
  "process_syn th i from_client e =
     (let s = te_pool e i in
      if from_client \<or> hs_state (ts_client s) \<noteq> TCP_SYN_SENT \<or> hs_state (ts_server s) \<noteq> TCP_CLOSE \<or>
         \<not> flag_set th TH_ACK then e
      else if hs_seq (ts_client s) \<noteq> th_ack th then e
      else e\<lparr>te_pool := (te_pool e)(i := syn_ack th s)\<rparr>)"

text \<open>Packets outside of the window are dropped, except an empty one at its start.\<close>

definition out_of_window :: "string \<Rightarrow> nat \<Rightarrow> half_stream \<Rightarrow> bool" where
  "out_of_window th datalen rcv \<longleftrightarrow>
     \<not> (datalen = 0 \<and> th_seq th = hs_ack_seq rcv) \<and>
     (\<not> before (th_seq th) (hs_ack_seq rcv + ucast (hs_window rcv) * hs_wscale rcv) \<or>
      before (th_seq th + of_nat datalen) (hs_ack_seq rcv))"

text \<open>
  The third packet of the handshake: every registered function is asked, in order, and listens
  from now on if it raised a counter of collectors.
\<close>

fun ask_procs :: "nids_prm \<Rightarrow> 'w lurker_proc \<Rightarrow> nat \<Rightarrow> nat list \<Rightarrow> 'w tcp_ctx \<Rightarrow> 'w tcp_ctx" where
  "ask_procs prm proc i [] c = c"
| "ask_procs prm proc i (f # fs) c =
     (case proc f i (cx_stream c) 0 (cx_client c) of (s1, d, w) \<Rightarrow>
       let s = cx_stream c;
           w0 = (if hs_collect (ts_client s) <s hs_collect (ts_client s1) then COLLECT_cc else 0) OR
                (if hs_collect_urg (ts_client s) <s hs_collect_urg (ts_client s1) then COLLECT_ccu else 0) OR
                (if hs_collect (ts_server s) <s hs_collect (ts_server s1) then COLLECT_sc else 0) OR
                (if hs_collect_urg (ts_server s) <s hs_collect_urg (ts_server s1) then COLLECT_scu else 0);
           (s2, w1) = (if np_one_loop_less prm \<and> \<not> hs_collect (ts_client s1) <s 2
                       then (s1\<lparr>ts_client := (ts_client s1)\<lparr>hs_collect := hs_collect (ts_client s)\<rparr>\<rparr>, w0 AND NOT COLLECT_cc)
                       else (s1, w0));
           (s3, w2) = (if np_one_loop_less prm \<and> \<not> hs_collect (ts_server s2) <s 2
                       then (s2\<lparr>ts_server := (ts_server s2)\<lparr>hs_collect := hs_collect (ts_server s)\<rparr>\<rparr>, w1 AND NOT COLLECT_sc)
                       else (s2, w1));
           s4 = (if w2 \<noteq> 0 then s3\<lparr>ts_listeners := \<lparr>lk_item = f, lk_data = d, lk_whatto = w2\<rparr> # ts_listeners s3\<rparr> else s3)
       in ask_procs prm proc i fs (c\<lparr>cx_stream := s4, cx_client := w\<rparr>))"

definition establish :: "nids_prm \<Rightarrow> 'w lurker_proc \<Rightarrow> nat list \<Rightarrow> nat \<Rightarrow> string \<Rightarrow> 'w tcp_ctx \<Rightarrow> 'w tcp_ctx" where
  "establish prm proc procs i th c =
     ask_procs prm proc i procs (c\<lparr>cx_stream := (cx_stream c)
       \<lparr>ts_client := (ts_client (cx_stream c))\<lparr>hs_state := TCP_ESTABLISHED, hs_ack_seq := th_ack th\<rparr>,
        ts_server := (ts_server (cx_stream c))\<lparr>hs_state := TCP_ESTABLISHED\<rparr>,
        ts_nids_state := Some NIDS_JUST_EST\<rparr>\<rparr>)"

text \<open>What follows the handshake; the result tells whether the stream was freed.\<close>

definition process_established ::
  "nids_prm \<Rightarrow> 'w lurker_proc \<Rightarrow> string \<Rightarrow> nat \<Rightarrow> bool \<Rightarrow> 'w tcp_engine \<Rightarrow> bool \<times> 'w tcp_engine" where
  "process_established prm proc th i from_client e =
     (let s = te_pool e i in
      if flag_set th TH_ACK \<and> from_client \<and> hs_state (ts_client s) = TCP_SYN_SENT \<and>
         hs_state (ts_server s) = TCP_SYN_RECV \<and> th_ack th = hs_seq (ts_server s) then
        let e1 = on_stream i (establish prm proc (te_procs e) i th) e in
        if ts_listeners (te_pool e1 i) = [] then (True, nids_free_tcp_stream prm i e1)
        else (False, e1\<lparr>te_pool := (te_pool e1)(i := (te_pool e1 i)\<lparr>ts_nids_state := Some NIDS_DATA\<rparr>)\<rparr>)
      else (False, e))"

text \<open>The acknowledgement of the sender; both FINs confirmed end the stream.\<close>

definition process_ack ::
  "nids_prm \<Rightarrow> 'w lurker_proc \<Rightarrow> string \<Rightarrow> nat \<Rightarrow> side \<Rightarrow> 'w tcp_engine \<Rightarrow> bool \<times> 'w tcp_engine" where
  "process_ack prm proc th i x e =
     (if flag_set th TH_ACK then
        let e1 = on_stream i (\<lambda>c. upd_half x (\<lambda>h. if hs_state h = FIN_SENT then h\<lparr>hs_state := FIN_CONFIRMED\<rparr> else h)
                   (upd_half (opposite x) (handle_ack (th_ack th)) c)) e;
            s = te_pool e1 i in
        if hs_state (half x s) = FIN_CONFIRMED \<and> hs_state (half (opposite x) s) = FIN_CONFIRMED
        then (True, end_stream prm proc i NIDS_CLOSE e1) else (False, e1)
      else (False, e))"

definition process_data ::
  "nids_prm \<Rightarrow> 'w lurker_proc \<Rightarrow> string \<Rightarrow> nat \<Rightarrow> int \<Rightarrow> nat \<Rightarrow> side \<Rightarrow> 'w tcp_engine \<Rightarrow> 'w tcp_engine" where
  "process_data prm proc th datalen skblen i x e =
     (let e1 = on_stream i (\<lambda>c.
            let c1 = (if datalen > 0 \<or> flag_set th TH_FIN
                      then tcp_queue prm proc i x th (drop (4 * th_off th) th) datalen skblen c else c);
                c2 = upd_half (opposite x) (\<lambda>h. h\<lparr>hs_window := th_win th\<rparr>) c1
            in if hs_rmem_alloc (half x (cx_stream c2)) > 65535 then upd_half x prune_queue c2 else c2) e
      in if ts_listeners (te_pool e1 i) = [] then nids_free_tcp_stream prm i e1 else e1)"

text \<open>A packet of a known stream.\<close>

definition process_known ::
  "nids_prm \<Rightarrow> 'w lurker_proc \<Rightarrow> string \<Rightarrow> nat \<Rightarrow> int \<Rightarrow> nat \<Rightarrow> bool \<Rightarrow> 'w tcp_engine \<Rightarrow> 'w tcp_engine" where
  "process_known prm proc th datalen skblen i from_client e =
     (let x = (if from_client then Server else Client); s = te_pool e i;
          rcv = half x s; snd_half = half (opposite x) s in
      if flag_set th TH_SYN then process_syn th i from_client e
      else if out_of_window th datalen rcv then e
      else if flag_set th TH_RST then
        (if ts_nids_state s = Some NIDS_DATA then end_stream prm proc i NIDS_RESET e
         else nids_free_tcp_stream prm i e)
      else if hs_ts_on rcv \<and> (case get_ts th 0 of (on, ts) \<Rightarrow> on \<and> before ts (hs_curr_ts snd_half)) then e
      else
        (case process_established prm proc th i from_client e of
           (True, e1) \<Rightarrow> e1
         | (False, e1) \<Rightarrow>
             (case process_ack prm proc th i x e1 of
                (True, e2) \<Rightarrow> e2
              | (False, e2) \<Rightarrow> process_data prm proc th datalen skblen i x e2)))"

definition process_tcp ::
  "nids_prm \<Rightarrow> scan_prm \<Rightarrow> 'w lurker_proc \<Rightarrow> int \<Rightarrow> string \<Rightarrow> int \<Rightarrow> 'w tcp_engine \<Rightarrow> 'w tcp_engine" where
  "process_tcp prm sprm proc ms iph skblen e =
     (let th = tcp_header iph; iplen = unat (ip_len iph); hl = ip_hl iph;
          datalen = int iplen - 4 * int hl - 4 * int (th_off th) in
      if iplen < 4 * hl + TCPHDR_SIZE then e
      else if datalen < 0 then e
      else if ip_src iph OR ip_dst iph = 0 then e
      else
        let e1 = (if \<not> flag_set th TH_ACK then e\<lparr>te_scan := detect_scan sprm ms iph (te_scan e)\<rparr> else e) in
        if np_n_tcp_streams prm = 0 then e1
        else if my_tcp_check (np_skip_checksum prm) (np_chksum_ctl prm) th (iplen - 4 * hl) (ip_src iph) (ip_dst iph) \<noteq> 0
          then e1
        else
          (case find_stream th iph e1 of
             None \<Rightarrow>
               if flag_set th TH_SYN \<and> \<not> flag_set th TH_ACK \<and> \<not> flag_set th TH_RST
               then add_new_tcp prm proc th iph e1 else e1
           | Some (i, from_client) \<Rightarrow> process_known prm proc th (nat datalen) skblen i from_client e1))"

section \<open>\<open>process_icmp\<close>\<close>

text \<open>
  An ICMP message that a destination is unreachable ends a stream that is being set up. The
  half that is looked at is chosen by comparing the destination port of the stream with an IP
  address.
\<close>

definition ICMP_SIZE :: nat where "ICMP_SIZE = 8"
definition IP_SIZE :: nat where "IP_SIZE = 20"

definition process_icmp :: "nids_prm \<Rightarrow> 'w lurker_proc \<Rightarrow> string \<Rightarrow> 'w tcp_engine \<Rightarrow> 'w tcp_engine" where
  "process_icmp prm proc iph e =
     (let len = unat (ip_len iph) - 4 * ip_hl iph; pkt = drop (4 * ip_hl iph) iph;
          kind = byte_at pkt 0; code = byte_at pkt 1; orig_ip = drop 8 pkt in
      if len < ICMP_SIZE then e
      else if ip_compute_csum pkt len \<noteq> 0 then e
      else if kind \<noteq> 3 then e
      else if len - ICMP_SIZE < IP_SIZE then e
      else if len - ICMP_SIZE < 4 * ip_hl orig_ip + 8 then e
      else if code > 15 then e
      else if (code mod 16 = 2 \<or> code mod 16 = 3) \<and> ip_src iph \<noteq> ip_dst orig_ip then e
      else if ip_p orig_ip \<noteq> 6 then e
      else
        (case find_stream (tcp_header orig_ip) orig_ip e of
           None \<Rightarrow> e
         | Some (i, _) \<Rightarrow>
             let s = te_pool e i;
                 h = (if (ucast (t4_dest (ts_addr s)) :: u32) = ip_dst iph then ts_server s else ts_client s) in
             if hs_state h \<noteq> TCP_SYN_SENT \<and> hs_state h \<noteq> TCP_SYN_RECV then e
             else end_stream prm proc i NIDS_RESET e))"

section \<open>\<open>gen_ip_proc\<close>\<close>

text \<open>
  A UDP datagram for the registered functions (libnids.c): the addresses and the payload.
\<close>

definition process_udp :: "nids_prm \<Rightarrow> string \<Rightarrow> (tuple4 \<times> string) option" where
  "process_udp prm data =
     (let hlen = 4 * ip_hl data; len = int (unat (ip_len data)); udph = drop hlen data;
          ulen = int (unat (be16 udph 4)) in
      if len - int hlen < 8 then None
      else if len - int hlen < ulen \<or> ulen < 8 then None
      else if be16 udph 6 \<noteq> 0 \<and>
          my_udp_check (np_skip_checksum prm) (np_chksum_ctl prm) udph (nat ulen) (ip_src data) (ip_dst data) \<noteq> 0
        then None
      else Some (\<lparr>t4_source = be16 udph 0, t4_dest = be16 udph 2, t4_saddr = ip_src data, t4_daddr = ip_dst data\<rparr>,
                 take (nat (ulen - 8)) (drop 8 udph)))"

text \<open>
  A whole IP packet. The functions registered for UDP are a parameter that works on the client
  program.
\<close>

definition gen_ip_proc ::
  "nids_prm \<Rightarrow> scan_prm \<Rightarrow> 'w lurker_proc \<Rightarrow> (tuple4 \<Rightarrow> string \<Rightarrow> 'w \<Rightarrow> 'w) list \<Rightarrow> int \<Rightarrow> string \<Rightarrow> int \<Rightarrow>
   'w tcp_engine \<Rightarrow> 'w tcp_engine" where
  "gen_ip_proc prm sprm proc udp_procs ms data skblen e =
     (if ip_p data = 6 then process_tcp prm sprm proc ms data skblen e
      else if ip_p data = 17 then
        (case process_udp prm data of
           None \<Rightarrow> e
         | Some (a, payload) \<Rightarrow> e\<lparr>te_client := fold (\<lambda>f. f a payload) udp_procs (te_client e)\<rparr>)
      else if ip_p data = 1 then (if np_n_tcp_streams prm \<noteq> 0 then process_icmp prm proc data e else e)
      else e)"

section \<open>Start and end\<close>

text \<open>\<open>tcp_exit\<close>: every stream of every chain is told and freed, and the table dropped.\<close>

definition tcp_exit :: "nids_prm \<Rightarrow> 'w lurker_proc \<Rightarrow> 'w tcp_engine \<Rightarrow> 'w tcp_engine" where
  "tcp_exit prm proc e =
     (let e1 = fold (\<lambda>k e. fold (\<lambda>i. end_stream prm proc i NIDS_EXITING) (te_table e k) e) [0..<te_table_size e] e in
      e1\<lparr>te_table := (\<lambda>_. []), te_time := [], te_free := [], te_num := 0\<rparr>)"

definition tcp_init :: "hash_keys \<Rightarrow> nat \<Rightarrow> nat list \<Rightarrow> scan_table \<Rightarrow> 'w \<Rightarrow> 'w tcp_engine" where
  "tcp_init keys n procs sd w =
     \<lparr>te_keys = keys, te_table_size = n, te_table = (\<lambda>_. []), te_max_stream = 3 * n div 4,
      te_pool = (\<lambda>_. stream_zero), te_free = [0..<3 * n div 4 + 1], te_time = [], te_num = 0,
      te_timeouts = [], te_now = 0, te_procs = procs, te_scan = sd, te_stuck = False, te_client = w\<rparr>"

text \<open>\<open>register_callback\<close> and \<open>unregister_callback\<close> (util.c).\<close>

definition register_callback :: "nat \<Rightarrow> nat list \<Rightarrow> nat list" where
  "register_callback f procs = (if f \<in> set procs then procs else f # procs)"

definition unregister_callback :: "nat \<Rightarrow> nat list \<Rightarrow> nat list" where
  "unregister_callback f procs = remove1 f procs"

end
