(* ===== verification/TcpListener.thy ===== *)
theory TcpListener
  imports TcpEngine
begin

text \<open>
  What libnids promises to a program that listens to TCP streams: which streams there are, and
  in which order it is told of them. The contract with the listener is the locale
  \<open>tcp_listener\<close>.
\<close>

section \<open>The listener\<close>

text \<open>The listener may change its counters of collectors, \<open>read\<close> and \<open>user\<close>, nothing else.\<close>

definition half_frame :: "half_stream \<Rightarrow> half_stream" where
  "half_frame h = h\<lparr>hs_collect := 0, hs_collect_urg := 0\<rparr>"

definition stream_frame :: "tcp_stream \<Rightarrow> tcp_stream" where
  "stream_frame s = s\<lparr>ts_client := half_frame (ts_client s), ts_server := half_frame (ts_server s),
     ts_read := 0, ts_user := 0\<rparr>"

definition collecting :: "tcp_stream \<Rightarrow> tcp_stream \<Rightarrow> bool" where
  "collecting s s' \<longleftrightarrow>
     hs_collect (ts_client s) <s hs_collect (ts_client s') \<or> hs_collect_urg (ts_client s) <s hs_collect_urg (ts_client s') \<or>
     hs_collect (ts_server s) <s hs_collect (ts_server s') \<or> hs_collect_urg (ts_server s) <s hs_collect_urg (ts_server s')"

text \<open>
  The listener keeps \<open>ok\<close>, which speaks about its state and the streams it listens to, with
  their addresses.
\<close>

locale tcp_listener =
  fixes prm :: nids_prm and proc :: "'w lurker_proc" and f :: nat
    and ok :: "'w \<Rightarrow> (nat \<Rightarrow> tuple4 option) \<Rightarrow> bool"
  assumes plain: "\<not> np_tcp_workarounds prm" "\<not> np_one_loop_less prm"
    and keeps: "proc f i s d w = (s', d', w') \<Longrightarrow> stream_frame s' = stream_frame s"
    and collects: "proc f i s d w = (s', d', w') \<Longrightarrow> ts_nids_state s \<noteq> Some NIDS_JUST_EST \<Longrightarrow>
      ts_client s' = ts_client s \<and> ts_server s' = ts_server s"
    and established: "ok w S \<Longrightarrow> S i = None \<Longrightarrow> ts_nids_state s = Some NIDS_JUST_EST \<Longrightarrow>
      hs_collect (ts_client s) = 0 \<and> hs_collect (ts_server s) = 0 \<Longrightarrow>
      proc f i s d w = (s', d', w') \<Longrightarrow> ok w' (if collecting s s' then S(i \<mapsto> ts_addr s) else S)"
    and data: "ok w S \<Longrightarrow> S i = Some (ts_addr s) \<Longrightarrow> ts_nids_state s = Some NIDS_DATA \<Longrightarrow>
      proc f i s d w = (s', d', w') \<Longrightarrow> ok w' S"
    and closed: "ok w S \<Longrightarrow> S i = Some (ts_addr s) \<Longrightarrow>
      ts_nids_state s \<in> {Some NIDS_CLOSE, Some NIDS_RESET, Some NIDS_TIMED_OUT} \<Longrightarrow>
      proc f i s d w = (s', d', w') \<Longrightarrow> ok w' (S(i := None))"
begin

text \<open>
  A stream is either being set up, with nobody listening, or established with the listener;
  the second kind is what the listener knows of.
\<close>

definition stream_inv :: "tuple4 option \<Rightarrow> tcp_stream \<Rightarrow> bool" where
  "stream_inv a s \<longleftrightarrow>
     a = None \<and> ts_listeners s = [] \<and> ts_nids_state s = None \<and>
       hs_collect (ts_client s) = 0 \<and> hs_collect (ts_server s) = 0 \<or>
     a = Some (ts_addr s) \<and> ts_nids_state s = Some NIDS_DATA \<and> hs_state (ts_client s) \<noteq> TCP_SYN_SENT \<and>
       (\<exists>l. ts_listeners s = [l] \<and> lk_item l = f \<and> lk_whatto l \<noteq> 0)"

definition ctx_inv :: "nat \<Rightarrow> (nat \<Rightarrow> tuple4 option) \<Rightarrow> tuple4 \<times> nat \<Rightarrow> 'w tcp_ctx \<Rightarrow> bool" where
  "ctx_inv i S F c \<longleftrightarrow> ok (cx_client c) S \<and> stream_inv (S i) (cx_stream c) \<and> cx_timeouts c = [] \<and>
     F = (ts_addr (cx_stream c), ts_hash_index (cx_stream c))"

lemma keepsD:
  assumes "proc f i s d w = (s', d', w')"
  shows "ts_addr s' = ts_addr s" "ts_hash_index s' = ts_hash_index s" "ts_nids_state s' = ts_nids_state s"
    "ts_listeners s' = ts_listeners s" "hs_state (ts_client s') = hs_state (ts_client s)"
  using arg_cong [OF keeps [OF assms], of ts_listeners] arg_cong [OF keeps [OF assms], of "\<lambda>s. hs_state (ts_client s)"]
  using arg_cong [OF keeps [OF assms], of ts_addr] arg_cong [OF keeps [OF assms], of ts_hash_index]
    arg_cong [OF keeps [OF assms], of ts_nids_state]
  by (simp_all add: stream_frame_def half_frame_def)

lemma upd_half_inv [intro]:
  assumes "ctx_inv i S F c" "\<And>h. hs_state (g h) = TCP_SYN_SENT \<Longrightarrow> hs_state h = TCP_SYN_SENT"
    "\<And>h. hs_collect (g h) = hs_collect h"
  shows "ctx_inv i S F (upd_half x g c)"
  using assms by (cases x) (auto simp: ctx_inv_def stream_inv_def upd_half_def)

lemma whatto_same [simp]: "ts_client s' = ts_client s \<Longrightarrow> ts_server s' = ts_server s \<Longrightarrow> whatto_after s s' w = w"
  by (simp add: whatto_after_def whatto_step_def)

lemma ride_lurkers_inv [intro]:
  assumes "ctx_inv i S F c"
  shows "ctx_inv i S F (ride_lurkers proc i m c)"
proof (cases "ts_listeners (cx_stream c)")
  case Nil
  then show ?thesis using assms by (simp add: ride_lurkers_def set_listeners_def ctx_inv_def stream_inv_def)
next
  case (Cons l ls)
  with assms have l: "ls = []" "lk_item l = f" "lk_whatto l \<noteq> 0" "S i = Some (ts_addr (cx_stream c))"
    "ts_nids_state (cx_stream c) = Some NIDS_DATA" "ok (cx_client c) S"
    by (auto simp: ctx_inv_def stream_inv_def)
  obtain s' d w where p: "proc f i (cx_stream c) (lk_data l) (cx_client c) = (s', d, w)" by (metis prod_cases3)
  from l have "ok w S" by (intro data [OF _ _ _ p]) simp_all
  moreover have "ts_client s' = ts_client (cx_stream c)" "ts_server s' = ts_server (cx_stream c)"
    using collects [OF p] l by simp_all
  ultimately show ?thesis
    using assms l p keepsD [OF p] Cons
    by (auto simp: ride_lurkers_def set_listeners_def ctx_inv_def stream_inv_def)
qed

lemma read_inv [intro]: "ctx_inv i S F c \<Longrightarrow> ctx_inv i S F (c\<lparr>cx_stream := (cx_stream c)\<lparr>ts_read := n\<rparr>\<rparr>)"
  by (simp add: ctx_inv_def stream_inv_def)

lemma prune_listeners_inv [intro]: "ctx_inv i S F c \<Longrightarrow> ctx_inv i S F (prune_listeners c)"
  by (auto simp: ctx_inv_def stream_inv_def prune_listeners_def)

lemma notify_body_inv [intro]: "ctx_inv i S F c \<Longrightarrow> ctx_inv i S F (notify_body proc i x m c)"
  unfolding notify_body_def Let_def by (intro upd_half_inv ride_lurkers_inv read_inv) (simp_all split: if_splits)

lemma notify_inv [intro]: "ctx_inv i S F c \<Longrightarrow> ctx_inv i S F (notify prm proc i x c)"
proof -
  have "notify_loop prm proc i x m n c = notify_body proc i x m c" for m n c
    using plain by (cases n) (simp_all add: Let_def)
  then show "ctx_inv i S F c \<Longrightarrow> ctx_inv i S F (notify prm proc i x c)"
    unfolding notify_def Let_def by (auto intro!: prune_listeners_inv)
qed

lemma deliver_inv [intro]: "ctx_inv i S F c \<Longrightarrow> ctx_inv i S F (deliver prm proc i x new n c)"
  unfolding deliver_def by (auto intro!: notify_inv upd_half_inv simp: add2buf_def Let_def)

lemma add_urgent_inv [intro]: "ctx_inv i S F c \<Longrightarrow> ctx_inv i S F (add_urgent prm proc i x dat n sq lost c)"
  unfolding add_urgent_def Let_def by (auto intro!: deliver_inv upd_half_inv notify_inv)

lemma timeout_id [simp]: "add_tcp_closing_timeout prm i c = c"
  using plain by (simp add: add_tcp_closing_timeout_def)

lemma add_from_skb_inv [intro]:
  "ctx_inv i S F c \<Longrightarrow> ctx_inv i S F (add_from_skb prm proc i x dat n sq fin urg up c)"
  unfolding add_from_skb_def Let_def by (auto intro!: deliver_inv upd_half_inv add_urgent_inv split: if_splits)

lemma queue_loop_inv [intro]: "ctx_inv i S F c \<Longrightarrow> ctx_inv i S F (queue_loop prm proc i x ps c)"
proof (induction ps arbitrary: c)
  case (Cons p ps)
  show ?case
    unfolding queue_loop.simps Let_def
    by (auto intro!: Cons upd_half_inv add_from_skb_inv)
qed simp

lemma tcp_queue_inv [intro]: "ctx_inv i S F c \<Longrightarrow> ctx_inv i S F (tcp_queue prm proc i x th dat n sk c)"
  unfolding tcp_queue_def Let_def by (auto intro!: queue_loop_inv upd_half_inv add_from_skb_inv)


text \<open>The engine: its lists, chains and streams. \<open>X\<close> is the set of streams about to be freed.\<close>

definition live_map :: "'w tcp_engine \<Rightarrow> nat \<Rightarrow> tuple4 option" where
  "live_map e i = (if i \<in> set (te_time e) \<and> ts_listeners (te_pool e i) \<noteq> [] then Some (ts_addr (te_pool e i)) else None)"

definition struct_inv :: "'w tcp_engine \<Rightarrow> bool" where
  "struct_inv e \<longleftrightarrow> distinct (te_time e @ te_free e) \<and>
     length (te_time e @ te_free e) = te_max_stream e + 1 \<and> te_num e = length (te_time e) \<and>
     (\<forall>i \<in> set (te_time e). ts_hash_index (te_pool e i) = mk_hash_index e (ts_addr (te_pool e i))) \<and>
     (\<forall>k. distinct (te_table e k) \<and> set (te_table e k) = {i \<in> set (te_time e). ts_hash_index (te_pool e i) = k}) \<and>
     inj_on (\<lambda>i. ts_addr (te_pool e i)) (set (te_time e))"

definition inv_but :: "nat set \<Rightarrow> 'w tcp_engine \<Rightarrow> bool" where
  "inv_but X e \<longleftrightarrow> struct_inv e \<and> te_timeouts e = [] \<and> te_procs e = [f] \<and> \<not> te_stuck e \<and>
     (\<forall>i \<in> set (te_time e) - X. stream_inv (live_map e i) (te_pool e i)) \<and>
     ok (te_client e) (\<lambda>i. if i \<in> X then None else live_map e i)"

abbreviation engine_inv :: "'w tcp_engine \<Rightarrow> bool" where "engine_inv \<equiv> inv_but {}"

lemma engine_invI:
  "struct_inv e \<Longrightarrow> te_timeouts e = [] \<Longrightarrow> te_procs e = [f] \<Longrightarrow> \<not> te_stuck e \<Longrightarrow>
   (\<And>i. i \<in> set (te_time e) \<Longrightarrow> stream_inv (live_map e i) (te_pool e i)) \<Longrightarrow>
   ok (te_client e) (live_map e) \<Longrightarrow> engine_inv e"
  by (simp add: inv_but_def)

lemma on_stream_fields [simp]:
  "te_time (on_stream i g e) = te_time e" "te_free (on_stream i g e) = te_free e"
  "te_table (on_stream i g e) = te_table e" "te_num (on_stream i g e) = te_num e"
  "te_max_stream (on_stream i g e) = te_max_stream e" "te_procs (on_stream i g e) = te_procs e"
  "te_stuck (on_stream i g e) = te_stuck e" "mk_hash_index (on_stream i g e) = mk_hash_index e"
  by (simp_all add: on_stream_def Let_def mk_hash_index_def fun_eq_iff)

lemma struct_inv_pool:
  assumes "struct_inv e" "ts_addr s = ts_addr (te_pool e i)" "ts_hash_index s = ts_hash_index (te_pool e i)"
  shows "struct_inv (e\<lparr>te_pool := (te_pool e)(i := s)\<rparr>)"
proof -
  have [simp]: "mk_hash_index (e\<lparr>te_pool := p\<rparr>) = mk_hash_index e" for p
    by (simp add: mk_hash_index_def fun_eq_iff)
  have a: "ts_addr (((te_pool e)(i := s)) j) = ts_addr (te_pool e j)"
    "ts_hash_index (((te_pool e)(i := s)) j) = ts_hash_index (te_pool e j)" for j
    using assms(2,3) by simp_all
  show ?thesis using assms(1) by (simp add: struct_inv_def a del: fun_upd_apply)
qed

lemma struct_inv_cong:
  "te_time e' = te_time e \<Longrightarrow> te_free e' = te_free e \<Longrightarrow> te_table e' = te_table e \<Longrightarrow> te_num e' = te_num e \<Longrightarrow>
   te_max_stream e' = te_max_stream e \<Longrightarrow> te_pool e' = te_pool e \<Longrightarrow> mk_hash_index e' = mk_hash_index e \<Longrightarrow>
   struct_inv e' = struct_inv e"
  by (simp add: struct_inv_def)

lemma struct_inv_on_stream:
  assumes "struct_inv e" "ts_addr (te_pool (on_stream i g e) i) = ts_addr (te_pool e i)"
    "ts_hash_index (te_pool (on_stream i g e) i) = ts_hash_index (te_pool e i)"
  shows "struct_inv (on_stream i g e)"
proof -
  let ?s = "te_pool (on_stream i g e) i"
  have "struct_inv (on_stream i g e) = struct_inv (e\<lparr>te_pool := (te_pool e)(i := ?s)\<rparr>)"
    by (rule struct_inv_cong) (simp_all add: mk_hash_index_def fun_eq_iff on_stream_def Let_def)
  with struct_inv_pool [OF assms] show ?thesis by (simp only:)
qed

text \<open>A function that keeps the invariant of a stream keeps the engine's.\<close>

lemma on_stream_inv:
  assumes "engine_inv e" "i \<in> set (te_time e)" "\<And>S F c. ctx_inv i S F c \<Longrightarrow> ctx_inv i S F (g c)"
  shows "engine_inv (on_stream i g e)"
proof -
  let ?c = "\<lparr>cx_stream = te_pool e i, cx_timeouts = te_timeouts e, cx_now = te_now e, cx_client = te_client e\<rparr>"
  let ?F = "(ts_addr (te_pool e i), ts_hash_index (te_pool e i))" and ?e = "on_stream i g e"
  have e: "te_pool ?e = (te_pool e)(i := cx_stream (g ?c))" "te_timeouts ?e = cx_timeouts (g ?c)"
    "te_client ?e = cx_client (g ?c)"
    by (simp_all add: on_stream_def Let_def)
  have "ctx_inv i (live_map e) ?F ?c" using assms(1,2) by (simp add: ctx_inv_def inv_but_def)
  then have c: "ctx_inv i (live_map e) ?F (g ?c)" by (rule assms(3))
  then have i: "live_map e i = (if ts_listeners (cx_stream (g ?c)) \<noteq> [] then Some (ts_addr (cx_stream (g ?c))) else None)"
    by (auto simp: ctx_inv_def stream_inv_def)
  have "live_map ?e j = live_map e j" for j
    by (cases "j = i") (use assms(2) i in \<open>simp_all add: live_map_def [of ?e] e\<close>, simp add: live_map_def)
  then have lm: "live_map ?e = live_map e" by blast
  have "struct_inv ?e" using assms(1) c by (intro struct_inv_on_stream) (simp_all add: inv_but_def e ctx_inv_def)
  with c assms(1) lm show ?thesis by (auto simp: inv_but_def ctx_inv_def e)
qed

text \<open>The end of a stream.\<close>

lemma tell_inv:
  assumes "engine_inv e" "i \<in> set (te_time e)" "st \<in> {NIDS_CLOSE, NIDS_RESET, NIDS_TIMED_OUT}"
  shows "inv_but {i} (on_stream i (tell_listeners proc i st) e)"
proof -
  let ?c = "\<lparr>cx_stream = te_pool e i, cx_timeouts = te_timeouts e, cx_now = te_now e, cx_client = te_client e\<rparr>"
  let ?e = "on_stream i (tell_listeners proc i st) e" let ?c' = "tell_listeners proc i st ?c"
  have e: "te_pool ?e = (te_pool e)(i := cx_stream ?c')" "te_timeouts ?e = cx_timeouts ?c'" "te_client ?e = cx_client ?c'"
    by (simp_all add: on_stream_def Let_def)
  have inv: "stream_inv (live_map e i) (te_pool e i)" "ok (te_client e) (live_map e)" "te_timeouts e = []"
    using assms(1,2) by (auto simp: inv_but_def)
  have "ok (cx_client ?c') ((live_map e)(i := None)) \<and> ts_addr (cx_stream ?c') = ts_addr (te_pool e i) \<and>
      ts_hash_index (cx_stream ?c') = ts_hash_index (te_pool e i) \<and> cx_timeouts ?c' = []"
  proof (cases "ts_listeners (te_pool e i)")
    case Nil
    then have "live_map e i = None" by (simp add: live_map_def)
    then have "(live_map e)(i := None) = live_map e" by auto
    with Nil inv show ?thesis by (simp add: tell_listeners_def set_listeners_def Let_def)
  next
    case (Cons l ls)
    with inv(1) have l: "ls = []" "lk_item l = f" "live_map e i = Some (ts_addr (te_pool e i))"
      by (auto simp: stream_inv_def)
    let ?s = "(te_pool e i)\<lparr>ts_nids_state := Some st\<rparr>"
    obtain s' d w where p: "proc f i ?s (lk_data l) (te_client e) = (s', d, w)" by (metis prod_cases3)
    have "ok w ((live_map e)(i := None))" using assms(3) l by (intro closed [OF inv(2) _ _ p]) auto
    with p l Cons inv(3) keepsD [OF p] show ?thesis
      by (simp add: tell_listeners_def set_listeners_def Let_def)
  qed
  then have c: "ok (cx_client ?c') ((live_map e)(i := None))" "ts_addr (cx_stream ?c') = ts_addr (te_pool e i)"
    "ts_hash_index (cx_stream ?c') = ts_hash_index (te_pool e i)" "cx_timeouts ?c' = []" by auto
  have lm: "live_map ?e j = live_map e j" if "j \<noteq> i" for j using that by (simp add: live_map_def e)
  then have "(\<lambda>j. if j \<in> {i} then None else live_map ?e j) = (live_map e)(i := None)" by auto
  moreover have "struct_inv ?e" using assms(1) c by (intro struct_inv_on_stream) (simp_all add: inv_but_def e)
  ultimately show ?thesis using assms(1) c lm by (simp add: inv_but_def e)
qed

lemma mk_hash_index_cong: "te_keys e' = te_keys e \<Longrightarrow> te_table_size e' = te_table_size e \<Longrightarrow> mk_hash_index e' = mk_hash_index e"
  by (simp add: mk_hash_index_def fun_eq_iff)

lemma free_inv:
  assumes "inv_but {i} e" "i \<in> set (te_time e)"
  shows "engine_inv (nids_free_tcp_stream prm i e)"
proof -
  let ?e = "nids_free_tcp_stream prm i e"
  have st: "distinct (te_time e @ te_free e)" "length (te_time e @ te_free e) = te_max_stream e + 1"
    "te_num e = length (te_time e)" "inj_on (\<lambda>i. ts_addr (te_pool e i)) (set (te_time e))"
    "\<forall>i \<in> set (te_time e). ts_hash_index (te_pool e i) = mk_hash_index e (ts_addr (te_pool e i))"
    and tb: "distinct (te_table e k)" "set (te_table e k) = {i \<in> set (te_time e). ts_hash_index (te_pool e i) = k}" for k
    using assms(1) by (auto simp: inv_but_def struct_inv_def)
  have pool: "ts_addr (te_pool ?e j) = ts_addr (te_pool e j)" "ts_hash_index (te_pool ?e j) = ts_hash_index (te_pool e j)"
    "ts_listeners (te_pool ?e j) = ts_listeners (te_pool e j)" "j \<noteq> i \<Longrightarrow> te_pool ?e j = te_pool e j" for j
    by (simp_all add: nids_free_tcp_stream_def Let_def)
  have time: "set (te_time ?e) = set (te_time e) - {i}" "te_time ?e = remove1 i (te_time e)"
    using st(1) by (simp_all add: nids_free_tcp_stream_def Let_def)
  have tab: "distinct (te_table ?e k) \<and> set (te_table ?e k) = {j \<in> set (te_time ?e). ts_hash_index (te_pool ?e j) = k}" for k
    using tb [of k] time pool by (auto simp: nids_free_tcp_stream_def Let_def)
  have fields: "te_free ?e = i # te_free e" "te_num ?e = te_num e - 1" "te_max_stream ?e = te_max_stream e"
    by (simp_all add: nids_free_tcp_stream_def Let_def)
  have "mk_hash_index ?e = mk_hash_index e"
    by (rule mk_hash_index_cong) (simp_all add: nids_free_tcp_stream_def Let_def)
  moreover have len: "length (te_time e) = Suc (length (remove1 i (te_time e)))"
    using Suc_pred [OF length_pos_if_in_set [OF assms(2)]] assms(2) by (simp add: length_remove1)
  moreover have "distinct (te_time ?e @ te_free ?e)" "length (te_time ?e @ te_free ?e) = te_max_stream e + 1"
    "te_num ?e = length (te_time ?e)"
    using st(1-3) assms(2) len by (auto simp: time(2) fields)
  moreover have "inj_on (\<lambda>i. ts_addr (te_pool e i)) (set (te_time ?e))"
    by (rule inj_on_subset [OF st(4)]) (simp add: time(1))
  ultimately have "struct_inv ?e"
    unfolding struct_inv_def using tab st(5) time(1) pool(1,2) fields(3) by simp
  moreover have "live_map ?e j = (if j \<in> {i} then None else live_map e j)" for j
    using time(1) pool by (simp add: live_map_def)
  then have "live_map ?e = (\<lambda>j. if j \<in> {i} then None else live_map e j)" by blast
  moreover from this have "stream_inv (live_map ?e j) (te_pool ?e j)" if "j \<in> set (te_time ?e)" for j
  proof -
    have "j \<noteq> i" "j \<in> set (te_time e)" using that time(1) by auto
    with this assms(1) pool(4) [of j] \<open>live_map ?e = _\<close> show ?thesis by (simp add: inv_but_def)
  qed
  moreover have "te_timeouts ?e = []" using assms(1) plain
    by (simp add: nids_free_tcp_stream_def Let_def inv_but_def del_tcp_closing_timeout_def)
  ultimately show ?thesis using assms(1)
    by (auto simp: inv_but_def nids_free_tcp_stream_def Let_def)
qed

lemma inv_but_unheard:
  "engine_inv e \<Longrightarrow> ts_listeners (te_pool e i) = [] \<Longrightarrow> inv_but {i} e"
proof -
  assume a: "engine_inv e" "ts_listeners (te_pool e i) = []"
  then have "(\<lambda>j. if j \<in> {i} then None else live_map e j) = live_map e" by (auto simp: live_map_def)
  with a show "inv_but {i} e" by (simp add: inv_but_def)
qed

lemma end_stream_inv:
  "engine_inv e \<Longrightarrow> i \<in> set (te_time e) \<Longrightarrow> st \<in> {NIDS_CLOSE, NIDS_RESET, NIDS_TIMED_OUT} \<Longrightarrow>
   engine_inv (end_stream prm proc i st e)"
  unfolding end_stream_def by (intro free_inv tell_inv) simp_all


lemma inv_but_cong:
  assumes "te_time e' = te_time e" "te_free e' = te_free e" "te_table e' = te_table e" "te_num e' = te_num e"
    "te_max_stream e' = te_max_stream e" "te_pool e' = te_pool e" "te_keys e' = te_keys e"
    "te_table_size e' = te_table_size e" "te_timeouts e' = te_timeouts e" "te_procs e' = te_procs e"
    "te_stuck e' = te_stuck e" "te_client e' = te_client e"
  shows "inv_but X e' = inv_but X e"
proof -
  have "live_map e' = live_map e" using assms by (simp add: live_map_def fun_eq_iff)
  moreover have "struct_inv e' = struct_inv e" using assms by (intro struct_inv_cong mk_hash_index_cong) simp_all
  ultimately show ?thesis using assms by (simp add: inv_but_def cong: if_cong)
qed

text \<open>Finding a stream: by the invariant of the chains, there is one exactly if it is alive.\<close>

lemma find_Some_iff_live:
  assumes "engine_inv e"
  shows "nids_find_tcp_stream a e = Some i \<Longrightarrow> i \<in> set (te_time e) \<and> ts_addr (te_pool e i) = a"
    and "nids_find_tcp_stream a e = None \<Longrightarrow> i \<in> set (te_time e) \<Longrightarrow> ts_addr (te_pool e i) \<noteq> a"
  using assms by (auto simp: nids_find_tcp_stream_def find_Some_iff find_None_iff inv_but_def struct_inv_def dest: nth_mem)

lemma find_stream_live:
  assumes "engine_inv e" "find_stream th iph e = Some (i, b)"
  shows "i \<in> set (te_time e)"
  using assms find_Some_iff_live(1) [OF assms(1)]
  by (auto simp: find_stream_def Let_def split: option.splits)

lemma find_stream_none:
  assumes "engine_inv e" "find_stream th iph e = None" "i \<in> set (te_time e)"
  shows "ts_addr (te_pool e i) \<noteq> tuple_of th iph"
  using assms find_Some_iff_live(2) [OF assms(1) _ assms(3)]
  by (auto simp: find_stream_def Let_def split: option.splits)

text \<open>A new stream, when no stream has its addresses.\<close>

lemma link_inv:
  assumes "engine_inv e" "te_free e = i # fs" "\<forall>j \<in> set (te_time e). ts_addr (te_pool e j) \<noteq> ts_addr s"
    "ts_hash_index s = mk_hash_index e (ts_addr s)" "ts_listeners s = []" "ts_nids_state s = None"
    "hs_collect (ts_client s) = 0" "hs_collect (ts_server s) = 0"
  shows "engine_inv (e\<lparr>te_free := fs, te_num := te_num e + 1, te_pool := (te_pool e)(i := s),
    te_table := (te_table e)(ts_hash_index s := i # te_table e (ts_hash_index s)), te_time := i # te_time e\<rparr>)"
    (is "engine_inv ?e")
proof -
  have st: "distinct (te_time e @ te_free e)" "length (te_time e @ te_free e) = te_max_stream e + 1"
    "te_num e = length (te_time e)" "inj_on (\<lambda>i. ts_addr (te_pool e i)) (set (te_time e))"
    "\<forall>i \<in> set (te_time e). ts_hash_index (te_pool e i) = mk_hash_index e (ts_addr (te_pool e i))"
    and tb: "distinct (te_table e k)" "set (te_table e k) = {i \<in> set (te_time e). ts_hash_index (te_pool e i) = k}" for k
    using assms(1) by (auto simp: inv_but_def struct_inv_def)
  have i: "i \<notin> set (te_time e)" using st(1) assms(2) by simp
  then have pool: "te_pool ?e j = te_pool e j" if "j \<in> set (te_time e)" for j using that by auto
  have mk: "mk_hash_index ?e = mk_hash_index e" by (rule mk_hash_index_cong) simp_all
  have "distinct (te_table ?e k) \<and> set (te_table ?e k) = {j \<in> set (te_time ?e). ts_hash_index (te_pool ?e j) = k}" for k
    using tb [of k] i by auto
  moreover have "inj_on (\<lambda>j. ts_addr (te_pool ?e j)) (set (te_time ?e))"
  proof -
    have "inj_on (\<lambda>j. ts_addr (te_pool ?e j)) (set (te_time e))"
      by (rule inj_on_cong [THEN iffD2, OF _ st(4)]) (simp only: pool)
    moreover have "ts_addr (te_pool ?e i) \<noteq> ts_addr (te_pool ?e j)" if "j \<in> set (te_time e)" for j
    proof -
      have "te_pool ?e i = s" by simp
      then show ?thesis using assms(3) that pool [OF that] by metis
    qed
    then have "ts_addr (te_pool ?e i) \<notin> (\<lambda>j. ts_addr (te_pool ?e j)) ` (set (te_time e) - {i})" by blast
    moreover have "set (te_time ?e) = insert i (set (te_time e))" by simp
    ultimately show ?thesis by (simp only: inj_on_insert) blast
  qed
  moreover have "\<forall>j \<in> set (te_time ?e). ts_hash_index (te_pool ?e j) = mk_hash_index e (ts_addr (te_pool ?e j))"
    using st(5) pool assms(4) by auto
  moreover have "distinct (te_time ?e @ te_free ?e)" "length (te_time ?e @ te_free ?e) = te_max_stream ?e + 1"
    "te_num ?e = length (te_time ?e)"
    using st(1-3) assms(2) by simp_all
  ultimately have "struct_inv ?e" unfolding struct_inv_def mk by blast
  moreover have lm: "live_map ?e = live_map e"
    using i assms(5) by (auto simp: live_map_def fun_eq_iff)
  moreover have "stream_inv (live_map e j) (te_pool ?e j)" if "j \<in> set (te_time ?e)" for j
  proof (cases "j = i")
    case True
    then show ?thesis using i assms(5-8) by (simp add: live_map_def stream_inv_def)
  next
    case False
    then show ?thesis using assms(1) that by (simp add: inv_but_def)
  qed
  ultimately show ?thesis using assms(1) by (simp add: inv_but_def del: fun_upd_apply)
qed

lemma nids_free_fields:
  "te_time (nids_free_tcp_stream prm i e) = remove1 i (te_time e)" "te_free (nids_free_tcp_stream prm i e) = i # te_free e"
  "mk_hash_index (nids_free_tcp_stream prm i e) = mk_hash_index e"
  by (simp_all add: nids_free_tcp_stream_def Let_def mk_hash_index_def fun_eq_iff)

lemma nids_free_addr [simp]: "ts_addr (te_pool (nids_free_tcp_stream prm i e) j) = ts_addr (te_pool e j)"
  by (simp add: nids_free_tcp_stream_def Let_def)

lemma tell_addr:
  assumes "stream_inv a (cx_stream c)"
  shows "ts_addr (cx_stream (tell_listeners proc i st c)) = ts_addr (cx_stream c)"
proof (cases "ts_listeners (cx_stream c)")
  case Nil
  then show ?thesis by (simp add: tell_listeners_def set_listeners_def Let_def)
next
  case (Cons l ls)
  with assms have l: "ls = []" "lk_item l = f" by (auto simp: stream_inv_def)
  obtain s' d w where "proc f i ((cx_stream c)\<lparr>ts_nids_state := Some st\<rparr>) (lk_data l) (cx_client c) = (s', d, w)"
    by (metis prod_cases3)
  with keepsD [OF this] l Cons show ?thesis by (simp add: tell_listeners_def set_listeners_def Let_def)
qed

lemma add_new_inv:
  assumes "engine_inv e" "find_stream th iph e = None"
  shows "engine_inv (add_new_tcp prm proc th iph e)"
proof -
  let ?e1 = "if te_num e > te_max_stream e then end_stream prm proc (last (te_time e)) NIDS_TIMED_OUT e else e"
  let ?a = "tuple_of th iph"
  have st: "distinct (te_time e @ te_free e)" "length (te_time e @ te_free e) = te_max_stream e + 1" "te_num e = length (te_time e)"
    using assms(1) by (auto simp: inv_but_def struct_inv_def)
  have last: "last (te_time e) \<in> set (te_time e)" if "te_num e > te_max_stream e"
    using st(3) that by (intro last_in_set) auto
  have inv: "engine_inv ?e1" using assms(1) last end_stream_inv [of e "last (te_time e)" NIDS_TIMED_OUT] by simp
  have "te_free ?e1 \<noteq> []" using st by (auto simp: end_stream_def nids_free_fields)
  then obtain i fs where fs: "te_free ?e1 = i # fs" by (cases "te_free ?e1") auto
  have "te_time ?e1 = te_time e \<or> te_time ?e1 = remove1 (last (te_time e)) (te_time e)"
    by (simp add: end_stream_def nids_free_fields)
  then have "set (te_time ?e1) \<subseteq> set (te_time e)" using set_remove1_subset [of "last (te_time e)" "te_time e"] by auto
  moreover have "ts_addr (te_pool ?e1 j) = ts_addr (te_pool e j)" if "j \<in> set (te_time e)" for j
  proof -
    have "stream_inv (live_map e (last (te_time e))) (te_pool e (last (te_time e)))" if "te_num e > te_max_stream e"
      using assms(1) last [OF that] by (simp add: inv_but_def)
    then show ?thesis
      using tell_addr [of "live_map e (last (te_time e))"
          "\<lparr>cx_stream = te_pool e (last (te_time e)), cx_timeouts = te_timeouts e, cx_now = te_now e, cx_client = te_client e\<rparr>"
          "last (te_time e)" NIDS_TIMED_OUT]
      by (simp add: end_stream_def on_stream_def Let_def)
  qed
  ultimately have new: "\<forall>j \<in> set (te_time ?e1). ts_addr (te_pool ?e1 j) \<noteq> ?a"
    using find_stream_none [OF assms] by (metis subsetD)
  have hash: "mk_hash_index ?e1 = mk_hash_index e" by (simp add: end_stream_def nids_free_fields)
  show ?thesis
    using link_inv [OF inv fs, of "stream_zero\<lparr>ts_hash_index := mk_hash_index e ?a, ts_addr := ?a, ts_client := syn_half th,
        ts_server := half_zero\<lparr>hs_state := TCP_CLOSE\<rparr>\<rparr>"] new hash fs
    by (simp add: add_new_tcp_def Let_def stream_zero_def syn_half_def half_zero_def split: prod.splits)
qed


text \<open>The handshake: the listener is asked, and becomes one or not.\<close>

lemma new_whatto:
  "((if hs_collect (ts_client s) <s hs_collect (ts_client s1) then COLLECT_cc else 0) OR
    (if hs_collect_urg (ts_client s) <s hs_collect_urg (ts_client s1) then COLLECT_ccu else 0) OR
    (if hs_collect (ts_server s) <s hs_collect (ts_server s1) then COLLECT_sc else 0) OR
    (if hs_collect_urg (ts_server s) <s hs_collect_urg (ts_server s1) then COLLECT_scu else 0)) = 0 \<longleftrightarrow> \<not> collecting s s1"
  by (simp add: collecting_def COLLECT_cc_def COLLECT_ccu_def COLLECT_sc_def COLLECT_scu_def)

lemma ask_inv:
  assumes "ts_listeners (cx_stream c) = []" "ts_nids_state (cx_stream c) = Some NIDS_JUST_EST"
    "hs_state (ts_client (cx_stream c)) \<noteq> TCP_SYN_SENT" "ok (cx_client c) S" "S i = None"
    "hs_collect (ts_client (cx_stream c)) = 0 \<and> hs_collect (ts_server (cx_stream c)) = 0"
  shows "\<exists>s l. cx_stream (ask_procs prm proc i [f] c) = s \<and> ts_addr s = ts_addr (cx_stream c) \<and>
    ts_hash_index s = ts_hash_index (cx_stream c) \<and> hs_state (ts_client s) \<noteq> TCP_SYN_SENT \<and>
    cx_timeouts (ask_procs prm proc i [f] c) = cx_timeouts c \<and>
    (ts_listeners s = [] \<and> ok (cx_client (ask_procs prm proc i [f] c)) S \<or>
     ts_listeners s = [l] \<and> lk_item l = f \<and> lk_whatto l \<noteq> 0 \<and>
       ok (cx_client (ask_procs prm proc i [f] c)) (S(i \<mapsto> ts_addr s)))"
proof -
  obtain s1 d w where p: "proc f i (cx_stream c) 0 (cx_client c) = (s1, d, w)" by (metis prod_cases3)
  note k = keepsD [OF p]
  have "ok w (if collecting (cx_stream c) s1 then S(i \<mapsto> ts_addr (cx_stream c)) else S)"
    by (rule established [OF assms(4,5,2,6) p])
  with assms(1-3) k plain p new_whatto [of "cx_stream c" s1] show ?thesis
    by (cases "collecting (cx_stream c) s1") (simp_all add: Let_def)
qed

lemma establish_inv:
  assumes "engine_inv e" "i \<in> set (te_time e)" "ts_listeners (te_pool e i) = []"
  shows "process_established prm proc th i b e = (r, e') \<Longrightarrow> engine_inv e' \<and> (\<not> r \<longrightarrow> i \<in> set (te_time e'))"
proof -
  let ?g = "establish prm proc [f] i th" and ?e1 = "on_stream i (establish prm proc [f] i th) e"
  let ?c = "\<lparr>cx_stream = te_pool e i, cx_timeouts = te_timeouts e, cx_now = te_now e, cx_client = te_client e\<rparr>"
  have e1: "te_pool ?e1 = (te_pool e)(i := cx_stream (?g ?c))" "te_timeouts ?e1 = cx_timeouts (?g ?c)"
    "te_client ?e1 = cx_client (?g ?c)"
    by (simp_all add: on_stream_def Let_def)
  have procs: "te_procs e = [f]" and tm: "te_timeouts e = []" and okc: "ok (te_client e) (live_map e)"
    using assms(1) by (simp_all add: inv_but_def)
  have none: "live_map e i = None" using assms(3) by (simp add: live_map_def)
  have zero: "hs_collect (ts_client (te_pool e i)) = 0 \<and> hs_collect (ts_server (te_pool e i)) = 0"
    using assms by (auto simp: inv_but_def stream_inv_def)
  obtain l where g: "ts_addr (cx_stream (?g ?c)) = ts_addr (te_pool e i)" "ts_hash_index (cx_stream (?g ?c)) = ts_hash_index (te_pool e i)"
    "hs_state (ts_client (cx_stream (?g ?c))) \<noteq> TCP_SYN_SENT" "cx_timeouts (?g ?c) = []"
    "ts_listeners (cx_stream (?g ?c)) = [] \<and> ok (cx_client (?g ?c)) (live_map e) \<or>
     ts_listeners (cx_stream (?g ?c)) = [l] \<and> lk_item l = f \<and> lk_whatto l \<noteq> 0 \<and>
       ok (cx_client (?g ?c)) ((live_map e)(i \<mapsto> ts_addr (te_pool e i)))"
    using ask_inv [of "?c\<lparr>cx_stream := (te_pool e i)\<lparr>ts_client := (ts_client (te_pool e i))\<lparr>hs_state := TCP_ESTABLISHED,
        hs_ack_seq := th_ack th\<rparr>, ts_server := (ts_server (te_pool e i))\<lparr>hs_state := TCP_ESTABLISHED\<rparr>,
        ts_nids_state := Some NIDS_JUST_EST\<rparr>\<rparr>" "live_map e" i] assms(3) okc none zero
    unfolding establish_def by (auto simp: tm)
  have lm: "live_map ?e1 j = live_map e j" if "j \<noteq> i" for j using that by (simp add: live_map_def e1)
  have st: "struct_inv ?e1" using assms(1) g by (intro struct_inv_on_stream) (simp_all add: inv_but_def e1)
  have but: "inv_but {i} ?e1" if "ts_listeners (te_pool ?e1 i) = []"
  proof -
    have "(\<lambda>j. if j \<in> {i} then None else live_map ?e1 j) = live_map e" using lm none by auto
    with that g(4,5) st assms(1) lm show ?thesis by (auto simp: inv_but_def e1)
  qed
  have inv: "engine_inv (?e1\<lparr>te_pool := (te_pool ?e1)(i := (te_pool ?e1 i)\<lparr>ts_nids_state := Some NIDS_DATA\<rparr>)\<rparr>)"
    (is "engine_inv ?e2") if "ts_listeners (te_pool ?e1 i) \<noteq> []"
  proof -
    have lm2: "live_map ?e2 = (live_map e)(i \<mapsto> ts_addr (te_pool e i))"
      using that assms(2) g(1) lm by (auto simp: live_map_def fun_eq_iff e1)
    have l: "ts_listeners (cx_stream (?g ?c)) = [l]" "lk_item l = f" "lk_whatto l \<noteq> 0"
      "ok (cx_client (?g ?c)) ((live_map e)(i \<mapsto> ts_addr (te_pool e i)))"
      using g(5) that by (simp_all add: e1)
    have "struct_inv ?e2" using struct_inv_pool [OF st] by simp
    moreover have "stream_inv (live_map ?e2 j) (te_pool ?e2 j)" if "j \<in> set (te_time ?e2)" for j
    proof (cases "j = i")
      case True
      then show ?thesis unfolding lm2 using g l(1-3) by (simp add: e1 stream_inv_def)
    next
      case False
      then show ?thesis unfolding lm2 using that assms(1) by (simp add: e1 inv_but_def)
    qed
    moreover have "ok (te_client ?e2) (live_map ?e2)" unfolding lm2 using l(4) by (simp add: e1)
    moreover have "te_timeouts ?e2 = []" "te_procs ?e2 = [f]" "\<not> te_stuck ?e2"
      using g(4) procs assms(1) by (simp_all add: e1 inv_but_def)
    ultimately show ?thesis by (intro engine_invI)
  qed
  show "process_established prm proc th i b e = (r, e') \<Longrightarrow> ?thesis"
    using but inv free_inv [of i ?e1] assms(1,2)
    by (auto simp: process_established_def Let_def procs split: if_splits)
qed

text \<open>The further steps of a packet.\<close>

lemma established_skip:
  assumes "engine_inv e" "i \<in> set (te_time e)" "process_established prm proc th i b e = (r, e')"
  shows "engine_inv e' \<and> (\<not> r \<longrightarrow> i \<in> set (te_time e'))"
proof (cases "ts_listeners (te_pool e i) = []")
  case True
  then show ?thesis using establish_inv [OF assms(1,2) _ assms(3)] by simp
next
  case False
  then have "hs_state (ts_client (te_pool e i)) \<noteq> TCP_SYN_SENT"
    using assms(1,2) by (auto simp: inv_but_def stream_inv_def)
  then show ?thesis using assms by (simp add: process_established_def Let_def split: if_splits)
qed

lemma ack_inv:
  assumes "engine_inv e" "i \<in> set (te_time e)" "process_ack prm proc th i x e = (r, e')"
  shows "engine_inv e' \<and> (\<not> r \<longrightarrow> i \<in> set (te_time e'))"
proof -
  let ?e1 = "on_stream i (\<lambda>c. upd_half x (\<lambda>h. if hs_state h = FIN_SENT then h\<lparr>hs_state := FIN_CONFIRMED\<rparr> else h)
                   (upd_half (opposite x) (handle_ack (th_ack th)) c)) e"
  have "engine_inv ?e1"
    using assms(1,2) by (intro on_stream_inv upd_half_inv) (auto simp: handle_ack_def split: if_splits)
  with assms end_stream_inv [of ?e1 i NIDS_CLOSE] show ?thesis
    by (auto simp: process_ack_def Let_def split: if_splits)
qed

lemma data_inv:
  assumes "engine_inv e" "i \<in> set (te_time e)"
  shows "engine_inv (process_data prm proc th n sk i x e)"
proof -
  have "ctx_inv i S F c \<Longrightarrow> ctx_inv i S F (
      let c1 = (if n > 0 \<or> flag_set th TH_FIN
                then tcp_queue prm proc i x th (drop (4 * th_off th) th) n sk c else c);
          c2 = upd_half (opposite x) (\<lambda>h. h\<lparr>hs_window := th_win th\<rparr>) c1
      in if hs_rmem_alloc (half x (cx_stream c2)) > 65535 then upd_half x prune_queue c2 else c2)" for S F c
    unfolding Let_def by (auto intro!: upd_half_inv tcp_queue_inv simp: prune_queue_def)
  from on_stream_inv [OF assms this] show ?thesis
    unfolding process_data_def Let_def using assms(2) by (auto intro!: free_inv inv_but_unheard)
qed

lemma syn_ack_fields [simp]:
  "ts_addr (syn_ack th s) = ts_addr s" "ts_hash_index (syn_ack th s) = ts_hash_index s"
  "ts_listeners (syn_ack th s) = ts_listeners s" "ts_nids_state (syn_ack th s) = ts_nids_state s"
  "hs_collect (ts_client (syn_ack th s)) = hs_collect (ts_client s)"
  "hs_collect (ts_server (syn_ack th s)) = hs_collect (ts_server s)"
  by (simp_all add: syn_ack_def Let_def split: prod.splits)

lemma syn_inv:
  assumes "engine_inv e" "i \<in> set (te_time e)"
  shows "engine_inv (process_syn th i b e)"
proof (cases "ts_listeners (te_pool e i) = []")
  case True
  let ?e = "e\<lparr>te_pool := (te_pool e)(i := syn_ack th (te_pool e i))\<rparr>"
  have lm: "live_map ?e = live_map e" using True by (auto simp: live_map_def fun_eq_iff)
  have "struct_inv ?e" using assms(1) by (intro struct_inv_pool) (simp_all add: inv_but_def)
  moreover have "stream_inv (live_map e j) (te_pool ?e j)" if "j \<in> set (te_time e)" for j
    using assms(1) that True by (auto simp: inv_but_def stream_inv_def)
  ultimately have "engine_inv ?e" using assms(1) lm by (auto simp: inv_but_def)
  with assms(1) show ?thesis by (simp add: process_syn_def Let_def)
next
  case False
  then have "hs_state (ts_client (te_pool e i)) \<noteq> TCP_SYN_SENT"
    using assms by (auto simp: inv_but_def stream_inv_def)
  with assms(1) show ?thesis by (simp add: process_syn_def Let_def)
qed

lemma known_inv:
  assumes "engine_inv e" "i \<in> set (te_time e)"
  shows "engine_inv (process_known prm proc th n sk i b e)"
proof -
  let ?x = "if b then Server else Client"
  have free: "engine_inv (nids_free_tcp_stream prm i e)" if "ts_nids_state (te_pool e i) \<noteq> Some NIDS_DATA"
  proof -
    have "ts_listeners (te_pool e i) = []" using assms that by (auto simp: inv_but_def stream_inv_def)
    with assms show ?thesis by (intro free_inv inv_but_unheard)
  qed
  have "engine_inv (case process_established prm proc th i b e of
        (True, e1) \<Rightarrow> e1
      | (False, e1) \<Rightarrow> (case process_ack prm proc th i ?x e1 of
          (True, e2) \<Rightarrow> e2 | (False, e2) \<Rightarrow> process_data prm proc th n sk i ?x e2))"
  proof -
    obtain r1 e1 where 1: "process_established prm proc th i b e = (r1, e1)" by fastforce
    obtain r2 e2 where 2: "process_ack prm proc th i ?x e1 = (r2, e2)" by fastforce
    from established_skip [OF assms 1] have inv1: "engine_inv e1" "\<not> r1 \<Longrightarrow> i \<in> set (te_time e1)" by auto
    show ?thesis
    proof (cases r1)
      case False
      with ack_inv [OF inv1(1) inv1(2) 2] have "engine_inv e2" "\<not> r2 \<Longrightarrow> i \<in> set (te_time e2)" by auto
      with False show ?thesis by (cases r2) (simp_all add: 1 2 data_inv)
    qed (use inv1 1 in simp)
  qed
  then show ?thesis
    using assms free syn_inv [OF assms] end_stream_inv [OF assms, of NIDS_RESET]
    by (simp add: process_known_def Let_def)
qed

lemma process_tcp_inv:
  assumes "engine_inv e"
  shows "engine_inv (process_tcp prm sprm proc ms iph sk e)"
proof -
  have scan: "engine_inv (e\<lparr>te_scan := s\<rparr>)" for s
    using assms by (subst inv_but_cong) simp_all
  have "engine_inv (case find_stream (tcp_header iph) iph e' of
        None \<Rightarrow> if c then add_new_tcp prm proc (tcp_header iph) iph e' else e'
      | Some (i, b) \<Rightarrow> process_known prm proc (tcp_header iph) n sk i b e')" if "engine_inv e'" for e' c n
    using that find_stream_live [OF that] add_new_inv [OF that] known_inv [OF that]
    by (auto split: option.splits)
  with assms scan show ?thesis by (simp add: process_tcp_def Let_def)
qed

lemma process_icmp_inv: "engine_inv e \<Longrightarrow> engine_inv (process_icmp prm proc iph e)"
  using find_stream_live [of e] end_stream_inv [of e _ NIDS_RESET]
  by (auto simp: process_icmp_def Let_def split: option.splits)

lemma tcp_init_inv:
  assumes "ok w Map.empty"
  shows "engine_inv (tcp_init keys n [f] sd w)"
proof (rule engine_invI)
  have "live_map (tcp_init keys n [f] sd w) = Map.empty" by (simp add: live_map_def tcp_init_def fun_eq_iff)
  with assms show "ok (te_client (tcp_init keys n [f] sd w)) (live_map (tcp_init keys n [f] sd w))"
    by (simp only:) (simp add: tcp_init_def)
  show "struct_inv (tcp_init keys n [f] sd w)" by (simp add: struct_inv_def tcp_init_def)
qed (simp_all add: tcp_init_def)

end

end
