(* ===== verification/Network.thy ===== *)
theory Network
  imports Monitor TcpListener
begin

text \<open>
  The monitor behind libnids: \<open>tcp_callback\<close> of main.c as the listener of the TCP streams, and
  what holds of the whole for any packets of the network.
\<close>

section \<open>The callback as a listener\<close>

text \<open>The parameters that \<open>start_nids\<close> leaves at the defaults of libnids.c.\<close>

definition start_prm :: "bool \<Rightarrow> nids_prm" where
  "start_prm skip = \<lparr>np_n_tcp_streams = 1040, np_one_loop_less = False, np_tcp_workarounds = False,
     np_skip_checksum = skip, np_chksum_ctl = []\<rparr>"

text \<open>What the callback reads of \<open>struct tcp_stream\<close>.\<close>

definition tcp_info_of :: "tcp_stream \<Rightarrow> tcp_info" where
  "tcp_info_of s = \<lparr>tcp_addr = ts_addr s, tcp_client_count = sint (hs_count (ts_client s)),
     tcp_server_count = sint (hs_count (ts_server s))\<rparr>"

definition new_data :: "half_stream \<Rightarrow> string" where
  "new_data h = take (nat (hs_count_new h)) (hs_data h)"

definition event_of :: "nat \<Rightarrow> nids_state \<Rightarrow> tcp_stream \<Rightarrow> tcp_event" where
  "event_of i st s = \<lparr>ev_stream = i, ev_tcp = tcp_info_of s, ev_state = st,
     ev_client_new = new_data (ts_client s), ev_server_new = new_data (ts_server s)\<rparr>"

text \<open>
  A new stream of the service is collected in both directions. After \<open>exit\<close> nothing happens
  any more. A stream of which \<open>nids_state\<close> is not set is never passed to a listener.
\<close>

definition collect_both :: "tcp_stream \<Rightarrow> tcp_stream" where
  "collect_both s = s\<lparr>ts_client := (ts_client s)\<lparr>hs_collect := hs_collect (ts_client s) + 1\<rparr>,
     ts_server := (ts_server s)\<lparr>hs_collect := hs_collect (ts_server s) + 1\<rparr>\<rparr>"

definition bscope_proc :: "int \<Rightarrow> (stop + monitor) lurker_proc" where
  "bscope_proc ppid f i s d w =
     (case (w, ts_nids_state s) of
        (Inr m, Some st) \<Rightarrow>
          (case tcp_callback ppid (event_of i st s) m of
             Inl r \<Rightarrow> (s, d, Inl r)
           | Inr m' \<Rightarrow>
               (if st = NIDS_JUST_EST \<and> test_in_service (m_config m) (ts_addr s) then collect_both s else s, d, Inr m'))
      | _ \<Rightarrow> (s, d, w))"

definition TCP_CALLBACK :: nat where "TCP_CALLBACK = 0"

text \<open>
  What the callback keeps, for the configuration \<open>cfg\<close> and the streams \<open>S\<close> it listens to: the
  invariant of the monitor, and exactly one session for each of the streams, which are all of
  the service. The process ends only with its parent.
\<close>

definition bscope_ok :: "configuration \<Rightarrow> int \<Rightarrow> stop + monitor \<Rightarrow> streams \<Rightarrow> bool" where
  "bscope_ok cfg ppid w S \<longleftrightarrow>
     (ppid < 5 \<and> w = Inl ParentGone) \<or>
     (\<exists>m. w = Inr m \<and> monitor_inv m \<and> m_config m = cfg \<and> open_streams m = dom S \<and>
        (\<forall>i a. S i = Some a \<longrightarrow> test_in_service cfg a))"

lemma bscope_okE:
  assumes "bscope_ok cfg ppid w S"
  obtains (gone) "w = Inl ParentGone"
    | (up) m where "w = Inr m" "monitor_inv m" "m_config m = cfg" "open_streams m = served cfg S" "served cfg S = dom S"
proof (cases w)
  case (Inr m)
  then show ?thesis using assms up by (auto simp: bscope_ok_def served_def dom_def)
qed (use assms gone in \<open>auto simp: bscope_ok_def\<close>)

lemma bscope_okI:
  "monitor_inv m \<Longrightarrow> m_config m = cfg \<Longrightarrow> open_streams m = served cfg S \<Longrightarrow> served cfg S = dom S \<Longrightarrow>
   bscope_ok cfg ppid (Inr m) S"
  by (force simp: bscope_ok_def served_def dom_def)

lemma bscope_ok_gone [simp]: "bscope_ok cfg ppid (Inl ParentGone) S \<longleftrightarrow> ppid < 5"
  by (simp add: bscope_ok_def)

lemma event_of_simps [simp]:
  "ev_stream (event_of i st s) = i" "ev_state (event_of i st s) = st" "tcp_addr (ev_tcp (event_of i st s)) = ts_addr s"
  by (simp_all add: event_of_def tcp_info_of_def)

lemma bscope_proc_gone [simp]: "bscope_proc ppid f i s d (Inl r) = (s, d, Inl r)"
  by (simp add: bscope_proc_def)

lemma bscope_proc_step:
  "ts_nids_state s = Some st \<Longrightarrow> tcp_callback ppid (event_of i st s) m = Inr m' \<Longrightarrow>
   bscope_proc ppid f i s d (Inr m) =
     (if st = NIDS_JUST_EST \<and> test_in_service (m_config m) (ts_addr s) then collect_both s else s, d, Inr m')"
  by (simp add: bscope_proc_def)

lemma bscope_collects:
  "bscope_proc ppid f i s d w = (s', d', w') \<Longrightarrow> s' = s \<or> s' = collect_both s \<and> ts_nids_state s = Some NIDS_JUST_EST"
  by (auto simp: bscope_proc_def split: sum.splits option.splits if_splits)

lemma stream_frame_collect [simp]: "stream_frame (collect_both s) = stream_frame s"
  by (simp add: stream_frame_def collect_both_def half_frame_def)

lemma not_collecting [simp]: "\<not> collecting s s"
  by (simp add: collecting_def)

lemma collecting_both: "hs_collect (ts_client s) = 0 \<Longrightarrow> collecting s (collect_both s)"
  by (simp add: collecting_def collect_both_def word_sless_alt)

lemma bscope_established:
  assumes "bscope_ok cfg ppid w S" "S i = None" "ts_nids_state s = Some NIDS_JUST_EST"
    "hs_collect (ts_client s) = 0" "bscope_proc ppid f i s d w = (s', d', w')"
  shows "bscope_ok cfg ppid w' (if collecting s s' then S(i \<mapsto> ts_addr s) else S)"
  using assms(1)
proof (cases rule: bscope_okE)
  case gone
  with assms show ?thesis by auto
next
  case (up m)
  let ?e = "event_of i NIDS_JUST_EST s"
  show ?thesis
  proof (cases "test_in_service cfg (ts_addr s)")
    case False
    then have "tcp_callback ppid ?e m = Inr m" using up by (intro callback_unserved) simp
    from bscope_proc_step [OF assms(3) this] False assms(1,5) up have "s' = s" "w' = w" by auto
    with assms(1) show ?thesis by simp
  next
    case True
    show ?thesis
    proof (cases "ppid < 5")
      case True
      with \<open>test_in_service cfg (ts_addr s)\<close> up have "tcp_callback ppid ?e m = Inl ParentGone"
        by (simp add: tcp_callback_def Let_def)
      with assms(3,5) up(1) have "s' = s" "w' = Inl ParentGone" by (simp_all add: bscope_proc_def)
      with True show ?thesis by simp
    next
      case False
      obtain m' where m': "tcp_callback ppid ?e m = Inr m'" "monitor_inv m'" "m_config m' = cfg"
        "open_streams m' = served cfg (S(i \<mapsto> ts_addr s))"
        using callback_step [of S ?e "S(i \<mapsto> ts_addr s)" m ppid] stream_step.established [of ?e S] assms(2) up False
        by auto
      have p: "s' = collect_both s" "w' = Inr m'"
        using bscope_proc_step [OF assms(3) m'(1)] assms(5) up True by auto
      have "served cfg (S(i \<mapsto> ts_addr s)) = dom (S(i \<mapsto> ts_addr s))"
        using True up(5) by (simp add: served_upd)
      then show ?thesis unfolding p using collecting_both [OF assms(4)] m' by (simp add: bscope_okI)
    qed
  qed
qed

lemma bscope_known:
  assumes "bscope_ok cfg ppid w S" "ts_nids_state s = Some st" "st \<noteq> NIDS_JUST_EST"
    "stream_step S (event_of i st s) S'" "dom S' = served cfg S'" "bscope_proc ppid f i s d w = (s', d', w')"
  shows "bscope_ok cfg ppid w' S'"
  using assms(1)
proof (cases rule: bscope_okE)
  case gone
  with assms show ?thesis by auto
next
  case (up m)
  obtain m' where m': "tcp_callback ppid (event_of i st s) m = Inr m'" "monitor_inv m'" "m_config m' = cfg"
    "open_streams m' = served cfg S'"
  proof (cases "ppid < 5")
    case False
    with callback_step [OF assms(4) up(2), of ppid] up that show thesis by auto
  next
    case True
    have "tcp_callback ppid (event_of i st s) m = tcp_callback 5 (event_of i st s) m"
      using assms(3) by (cases st) (simp_all add: tcp_callback_def Let_def)
    with callback_step [OF assms(4) up(2), of 5] up that show thesis by auto
  qed
  have "w' = Inr m'" using bscope_proc_step [OF assms(2) m'(1)] assms(3,6) up(1) by simp
  with m' assms(5) show ?thesis by (simp add: bscope_okI)
qed

lemma served_dom: "bscope_ok cfg ppid (Inr m) S \<Longrightarrow> dom S = served cfg S"
  by (auto elim: bscope_okE)

interpretation bscope: tcp_listener "start_prm skip" "bscope_proc ppid" TCP_CALLBACK "bscope_ok cfg ppid"
  for skip ppid cfg
proof unfold_locales
  fix i s d and s' :: tcp_stream and d' S and w w' :: "stop + monitor"
  assume p: "bscope_proc ppid TCP_CALLBACK i s d w = (s', d', w')"
  show "stream_frame s' = stream_frame s" using bscope_collects [OF p] by auto
  show "ts_client s' = ts_client s \<and> ts_server s' = ts_server s" if "ts_nids_state s \<noteq> Some NIDS_JUST_EST"
    using bscope_collects [OF p] that by auto
  show "bscope_ok cfg ppid w' S"
    if ok: "bscope_ok cfg ppid w S" and S: "S i = Some (ts_addr s)" "ts_nids_state s = Some NIDS_DATA"
    using ok
  proof (cases rule: bscope_okE)
    case (up m)
    have "stream_step S (event_of i NIDS_DATA s) S" using S by (intro stream_step.data) simp_all
    from bscope_known [OF ok S(2) _ this _ p] up show ?thesis by simp
  qed (use p ok in auto)
  show "bscope_ok cfg ppid w' (S(i := None))"
    if ok: "bscope_ok cfg ppid w S" and S: "S i = Some (ts_addr s)"
      and st: "ts_nids_state s \<in> {Some NIDS_CLOSE, Some NIDS_RESET, Some NIDS_TIMED_OUT}"
    using ok
  proof (cases rule: bscope_okE)
    case (up m)
    from st obtain t where t: "ts_nids_state s = Some t" "t \<in> {NIDS_CLOSE, NIDS_RESET, NIDS_TIMED_OUT}" by auto
    have "stream_step S (event_of i t s) (S(i := None))" using S t
      by (intro stream_step.closed [of "event_of i t s", simplified]) simp_all
    moreover have "dom (S(i := None)) = served cfg (S(i := None))" using up(5) by (simp add: served_upd)
    ultimately show ?thesis using bscope_known [OF ok t(1) _ _ _ p] t(2) by auto
  qed (use p ok in auto)
qed (simp_all add: start_prm_def bscope_established)

section \<open>Packets\<close>

text \<open>
  One IP packet: the time in milliseconds, its bytes and what it is charged for. bscope
  registers no function for UDP.
\<close>

type_synonym packet = "int \<times> string \<times> int"

definition take_packet ::
  "bool \<Rightarrow> scan_prm \<Rightarrow> int \<Rightarrow> packet \<Rightarrow> (stop + monitor) tcp_engine \<Rightarrow> (stop + monitor) tcp_engine" where
  "take_packet skip sprm ppid = (\<lambda>(ms, data, skblen). gen_ip_proc (start_prm skip) sprm (bscope_proc ppid) [] ms data skblen)"

definition start_engine :: "hash_keys \<Rightarrow> scan_table \<Rightarrow> monitor \<Rightarrow> (stop + monitor) tcp_engine" where
  "start_engine keys sd m = tcp_init keys 1040 (register_callback TCP_CALLBACK []) sd (Inr m)"

lemma take_packet_inv:
  "bscope.engine_inv cfg ppid e \<Longrightarrow> bscope.engine_inv cfg ppid (take_packet skip sprm ppid p e)"
  by (cases p) (simp add: take_packet_def gen_ip_proc_def bscope.process_tcp_inv bscope.process_icmp_inv
      split: option.splits prod.splits)

lemma start_engine_inv:
  assumes "monitor_inv m" "open_streams m = {}"
  shows "bscope.engine_inv (m_config m) ppid (start_engine keys sd m)"
  using bscope.tcp_init_inv [of "m_config m" ppid "Inr m"] assms
  by (simp add: start_engine_def register_callback_def bscope_ok_def)

text \<open>What the invariant says of the monitor: a session for each stream that has a listener.\<close>

definition heard :: "'w tcp_engine \<Rightarrow> nat set" where
  "heard e = {i \<in> set (te_time e). ts_listeners (te_pool e i) \<noteq> []}"

lemma engine_inv_monitor:
  assumes "bscope.engine_inv cfg ppid e" "5 \<le> ppid"
  shows "\<exists>m. te_client e = Inr m \<and> monitor_inv m \<and> open_streams m = heard e \<and>
    st_conn (m_status m) = of_nat (card (heard e)) \<and> \<not> te_stuck e"
proof -
  have "dom (bscope.live_map e) = heard e" by (auto simp: bscope.live_map_def heard_def split: if_splits)
  with assms show ?thesis by (auto simp: bscope.inv_but_def bscope_ok_def monitor_inv_def)
qed

end
