(* ===== verification/TcpReassembly.thy ===== *)
theory TcpReassembly
  imports Network
begin

text \<open>
  The reassembly of TCP segments: what a listener that reads all it is offered gets of a
  message that arrives in segments, in any order, repeated or overlapping.
\<close>

section \<open>Sequence numbers\<close>

lemma sint_of_nat_diff:
  assumes "a < 2 ^ 31" "b < 2 ^ 31"
  shows "sint (of_nat a - of_nat b :: u32) = int a - int b"
proof -
  have "of_nat a - of_nat b = (of_int (int a - int b) :: u32)" by simp
  moreover have "sint (of_int (int a - int b) :: u32) = int a - int b"
    using assms by (subst signed_of_int) (simp add: signed_take_bit_int_eq_self)
  ultimately show ?thesis by (simp only:)
qed

lemma after_of_nat:
  "a < 2 ^ 31 \<Longrightarrow> b < 2 ^ 31 \<Longrightarrow> after (isn + of_nat a) (isn + of_nat b) \<longleftrightarrow> b < a"
  using sint_of_nat_diff [of b a] by (simp add: after_def)

lemma unat_of_nat_diff:
  assumes "b \<le> a" "a < 2 ^ 32"
  shows "unat (of_nat a - of_nat b :: u32) = a - b"
proof -
  have "of_nat a - of_nat b = (of_nat (a - b) :: u32)" using assms(1) by simp
  moreover have "unat (of_nat (a - b) :: u32) = a - b" using assms(2) by (simp add: unat_of_nat)
  ultimately show ?thesis by (simp only:)
qed

section \<open>Segments of a message\<close>

text \<open>
  A segment: its TCP header, what follows the header, the length of its data and what it is
  charged for. It carries a piece of the message that starts at sequence number \<open>isn\<close>.
\<close>

type_synonym segment = "string \<times> string \<times> nat \<times> int"

definition place :: "u32 \<Rightarrow> segment \<Rightarrow> nat \<times> nat" where
  "place isn = (\<lambda>(th, dat, n, sk). (unat (th_seq th - isn), n))"

definition carried :: "u32 \<Rightarrow> string \<Rightarrow> segment \<Rightarrow> bool" where
  "carried isn msg = (\<lambda>(th, dat, n, sk). let a = unat (th_seq th - isn) in
     \<not> flag_set th TH_URG \<and> a + n \<le> length msg \<and> take n dat = take n (drop a msg))"

definition arrived :: "u32 \<Rightarrow> segment list \<Rightarrow> nat \<Rightarrow> bool" where
  "arrived isn segs j \<longleftrightarrow> (\<exists>sg \<in> set segs. case place isn sg of (a, n) \<Rightarrow> a \<le> j \<and> j < a + n)"

definition take_segments ::
  "nids_prm \<Rightarrow> 'w lurker_proc \<Rightarrow> nat \<Rightarrow> side \<Rightarrow> segment list \<Rightarrow> 'w tcp_ctx \<Rightarrow> 'w tcp_ctx" where
  "take_segments prm proc i x segs c = fold (\<lambda>(th, dat, n, sk). tcp_queue prm proc i x th dat n sk) segs c"

text \<open>A stream whose half \<open>x\<close> is collected by the function \<open>f\<close> and that has received nothing yet.\<close>

definition receiving :: "nat \<Rightarrow> nat \<Rightarrow> side \<Rightarrow> u32 \<Rightarrow> 'w tcp_ctx \<Rightarrow> bool" where
  "receiving f i x isn c \<longleftrightarrow>
     (let s = cx_stream c; h = half x s; h' = half (opposite x) s in
      ts_nids_state s = Some NIDS_DATA \<and>
      (\<exists>l. ts_listeners s = [l] \<and> lk_item l = f \<and> lk_whatto l AND (if x = Client then COLLECT_cc else COLLECT_sc) \<noteq> 0) \<and>
      hs_collect h \<noteq> 0 \<and> hs_count h = 0 \<and> hs_offset h = 0 \<and> hs_urg_count h = 0 \<and>
      \<not> hs_urg_seen h \<and> \<not> hs_count_new_urg h \<and> hs_list h = [] \<and>
      hs_first_data_seq h' = isn \<and> hs_count_new h' = 0)"

section \<open>Halves and queues\<close>

lemma half_simps [simp]:
  "half x (set_half x h s) = h" "half (opposite x) (set_half x h s) = half (opposite x) s"
  "half x (set_half (opposite x) h s) = half x s" "opposite (opposite x) = x"
  "ts_nids_state (set_half x h s) = ts_nids_state s" "ts_listeners (set_half x h s) = ts_listeners s"
  "ts_addr (set_half x h s) = ts_addr s"
  "ts_read (set_half x h s) = ts_read s" "set_half x h (set_half x h' s) = set_half x h s"
  "half x (s\<lparr>ts_read := n\<rparr>) = half x s" "half x (s\<lparr>ts_listeners := ls\<rparr>) = half x s"
  "set_half x (half x s) s = s"
  by (cases x; simp)+

lemma upd_half_simps [simp]:
  "cx_stream (upd_half x g c) = set_half x (g (half x (cx_stream c))) (cx_stream c)"
  "cx_client (upd_half x g c) = cx_client c"
  by (simp_all add: upd_half_def)

text \<open>The queue: segments of the message, by their place in it.\<close>

definition pos :: "u32 \<Rightarrow> skbuff \<Rightarrow> nat" where
  "pos isn p = unat (sk_seq p - isn)"

definition slice :: "u32 \<Rightarrow> string \<Rightarrow> skbuff \<Rightarrow> bool" where
  "slice isn msg p \<longleftrightarrow> pos isn p + sk_len p \<le> length msg \<and> \<not> sk_urg p \<and>
     take (sk_len p) (sk_data p) = take (sk_len p) (drop (pos isn p) msg)"

definition holds :: "u32 \<Rightarrow> skbuff \<Rightarrow> nat \<Rightarrow> bool" where
  "holds isn p j \<longleftrightarrow> pos isn p \<le> j \<and> j < pos isn p + sk_len p"

lemma sk_seq_pos: "sk_seq p = isn + of_nat (pos isn p)"
  by (simp add: pos_def)

lemma insert_skb_split:
  obtains us vs where "ps = us @ vs" "insert_skb p ps = us @ p # vs" "\<forall>q \<in> set vs. after (sk_seq q) (sk_seq p)"
    "us \<noteq> [] \<longrightarrow> \<not> after (sk_seq (last us)) (sk_seq p)"
proof
  let ?P = "\<lambda>q. after (sk_seq q) (sk_seq p)"
  have "rev ps = takeWhile ?P (rev ps) @ dropWhile ?P (rev ps)" by simp
  then show ps: "ps = rev (dropWhile ?P (rev ps)) @ rev (takeWhile ?P (rev ps))"
    by (metis rev_append rev_rev_ident)
  have "length ps = length (dropWhile ?P (rev ps)) + length (takeWhile ?P (rev ps))"
    by (metis length_append length_rev ps)
  then have "take (length ps - length (takeWhile ?P (rev ps))) ps = rev (dropWhile ?P (rev ps))"
    by (metis append_eq_conv_conj diff_add_inverse2 length_rev ps)
  then show "insert_skb p ps = rev (dropWhile ?P (rev ps)) @ p # rev (takeWhile ?P (rev ps))"
    by (simp add: insert_skb_def Let_def)
  show "\<forall>q \<in> set (rev (takeWhile ?P (rev ps))). after (sk_seq q) (sk_seq p)"
    by (auto dest: set_takeWhileD)
  show "rev (dropWhile ?P (rev ps)) \<noteq> [] \<longrightarrow> \<not> after (sk_seq (last (rev (dropWhile ?P (rev ps))))) (sk_seq p)"
    using hd_dropWhile [of ?P "rev ps"] by (simp add: last_rev)
qed

lemma insert_skb_sorted:
  assumes "sorted (map (pos isn) ps)" "\<forall>q \<in> set ps. pos isn q < 2 ^ 31" "pos isn p < 2 ^ 31"
  shows "sorted (map (pos isn) (insert_skb p ps)) \<and> set (insert_skb p ps) = insert p (set ps)"
proof -
  obtain us vs where uv: "ps = us @ vs" "insert_skb p ps = us @ p # vs" "\<forall>q \<in> set vs. after (sk_seq q) (sk_seq p)"
    "us \<noteq> [] \<longrightarrow> \<not> after (sk_seq (last us)) (sk_seq p)"
    by (rule insert_skb_split [where p = p and ps = ps])
  have aft: "after (sk_seq q) (sk_seq p) \<longleftrightarrow> pos isn p < pos isn q" if "q \<in> set ps" for q
    using after_of_nat [of "pos isn q" "pos isn p" isn] assms(2,3) that by (simp flip: sk_seq_pos)
  have "pos isn q \<le> pos isn p" if q: "q \<in> set us" for q
  proof -
    obtain bs b where us: "us = bs @ [b]" using q by (cases us rule: rev_cases) auto
    then have "pos isn q \<le> pos isn b" using q assms(1) uv(1) by (auto simp: sorted_append)
    moreover have "pos isn b \<le> pos isn p" using uv(1,4) us aft [of b] by simp
    ultimately show ?thesis by simp
  qed
  moreover have "pos isn p \<le> pos isn q" if "q \<in> set vs" for q using uv(1,3) aft that by auto
  ultimately show ?thesis using assms(1) uv(1,2) by (auto simp: sorted_append)
qed

section \<open>A listener that reads everything\<close>

text \<open>
  \<open>fed w i x bs\<close>: the client program \<open>w\<close> was given the bytes \<open>bs\<close> of the half \<open>x\<close> of stream \<open>i\<close>,
  whose addresses are \<open>adr\<close>. The listener leaves the stream as it is, so \<open>read\<close> says that all was
  read; it is never called without new data.
\<close>

locale tcp_reader =
  fixes prm :: nids_prm and proc :: "'w lurker_proc" and f :: nat and adr :: tuple4 and fed :: "'w \<Rightarrow> nat \<Rightarrow> side \<Rightarrow> string \<Rightarrow> bool"
  assumes one_loop: "\<not> np_one_loop_less prm"
    and reads: "proc f i s d w = (s', d', w') \<Longrightarrow> ts_nids_state s = Some NIDS_DATA \<Longrightarrow> s' = s"
    and feeds: "proc f i s d w = (s', d', w') \<Longrightarrow> ts_nids_state s = Some NIDS_DATA \<Longrightarrow>
      ts_addr s = adr \<Longrightarrow> new_data (half x s) \<noteq> [] \<Longrightarrow>
      hs_count_new (half (opposite x) s) = 0 \<Longrightarrow> fed w i x bs \<Longrightarrow> fed w' i x (bs @ new_data (half x s))"
begin

definition listens :: "side \<Rightarrow> lurker_node \<Rightarrow> bool" where
  "listens x l \<longleftrightarrow> lk_item l = f \<and> lk_whatto l AND (if x = Client then COLLECT_cc else COLLECT_sc) \<noteq> 0"

text \<open>
  The receiver has the first \<open>k\<close> bytes of the message, which start at the sequence number
  \<open>isn\<close>; its buffer is empty and nothing is urgent.
\<close>

definition rcv_inv :: "nat \<Rightarrow> side \<Rightarrow> u32 \<Rightarrow> string \<Rightarrow> nat \<Rightarrow> 'w tcp_ctx \<Rightarrow> bool" where
  "rcv_inv i x isn msg k c \<longleftrightarrow>
     (let s = cx_stream c; h = half x s; h' = half (opposite x) s in
      ts_nids_state s = Some NIDS_DATA \<and> ts_addr s = adr \<and> (\<exists>l. ts_listeners s = [l] \<and> listens x l) \<and>
      hs_collect h \<noteq> 0 \<and> hs_count h = of_nat k \<and> hs_offset h = of_nat k \<and> hs_urg_count h = 0 \<and>
      \<not> hs_urg_seen h \<and> \<not> hs_count_new_urg h \<and> hs_first_data_seq h' = isn \<and> hs_count_new h' = 0 \<and>
      fed (cx_client c) i x (take k msg) \<and> k \<le> length msg)"

lemma ride_reads:
  assumes "ts_nids_state (cx_stream c) = Some NIDS_DATA" "ts_listeners (cx_stream c) = [l]" "listens x l"
    "hs_count_new (half (opposite x) (cx_stream c)) = 0" "fed (cx_client c) i x bs"
    "ts_addr (cx_stream c) = adr" "new_data (half x (cx_stream c)) \<noteq> []"
  shows "\<exists>d w. ride_lurkers proc i (if x = Client then COLLECT_cc else COLLECT_sc) c =
      c\<lparr>cx_stream := (cx_stream c)\<lparr>ts_listeners := [l\<lparr>lk_data := d\<rparr>]\<rparr>, cx_client := w\<rparr> \<and>
    fed w i x (bs @ new_data (half x (cx_stream c)))"
proof -
  obtain s' d w where p: "proc f i (cx_stream c) (lk_data l) (cx_client c) = (s', d, w)" by (metis prod_cases3)
  from reads [OF p assms(1)] feeds [OF p assms(1,6,7,4,5)] have "s' = cx_stream c"
    "fed w i x (bs @ new_data (half x (cx_stream c)))" by auto
  with p assms(2,3) show ?thesis
    by (intro exI [of _ d] exI [of _ w])
      (simp add: ride_lurkers_def set_listeners_def listens_def whatto_after_def whatto_step_def)
qed

lemma notify_once: "notify_loop prm proc i x m n c = notify_body proc i x m c"
  using one_loop by (cases n) (simp_all add: Let_def)

abbreviation queued :: "side \<Rightarrow> 'w tcp_ctx \<Rightarrow> skbuff list" where
  "queued x c \<equiv> hs_list (half x (cx_stream c))"

text \<open>What comes in order goes through the buffer to the listener.\<close>

lemma deliver_rcv:
  assumes "rcv_inv i x isn msg k c" "0 < n" "k + n \<le> length msg" "length msg < 2 ^ 31 - 1"
    "take n new = take n (drop k msg)"
  shows "rcv_inv i x isn msg (k + n) (deliver prm proc i x new n c) \<and>
    queued x (deliver prm proc i x new n c) = queued x c"
proof -
  let ?m = "if x = Client then COLLECT_cc else COLLECT_sc"
  define h where "h = half x (cx_stream c)"
  define c1 where "c1 = upd_half x (add2buf new n) c"
  define s where "s = (cx_stream c1)\<lparr>ts_read := int n\<rparr>"
  from assms(1) obtain l where inv: "ts_nids_state (cx_stream c) = Some NIDS_DATA" "ts_listeners (cx_stream c) = [l]" "listens x l"
    "hs_collect h \<noteq> 0" "hs_count h = of_nat k" "hs_offset h = of_nat k" "hs_urg_count h = 0"
    "\<not> hs_urg_seen h" "\<not> hs_count_new_urg h" "hs_first_data_seq (half (opposite x) (cx_stream c)) = isn"
    "hs_count_new (half (opposite x) (cx_stream c)) = 0" "fed (cx_client c) i x (take k msg)" "ts_addr (cx_stream c) = adr"
    unfolding rcv_inv_def Let_def h_def by blast
  have h1: "half x (cx_stream c1) = add2buf new n h" by (simp add: c1_def h_def)
  have buf: "hs_data (add2buf new n h) = take n new" "hs_count (add2buf new n h) = of_nat (k + n)"
    "hs_offset (add2buf new n h) = of_nat k" "hs_count_new (add2buf new n h) = int n"
    "hs_collect (add2buf new n h) = hs_collect h" "hs_count_new_urg (add2buf new n h) = hs_count_new_urg h"
    "hs_urg_seen (add2buf new n h) = hs_urg_seen h" "hs_urg_count (add2buf new n h) = hs_urg_count h"
    "hs_list (add2buf new n h) = hs_list h"
    using inv(5,6) by (simp_all add: add2buf_def Let_def)
  have total: "sint (of_nat (k + n) - of_nat k :: u32) = int n"
    using assms(3,4) by (subst sint_of_nat_diff) simp_all
  have "take n new \<noteq> []" unfolding assms(5) using assms(2,3) by simp
  then obtain d w where ride: "ride_lurkers proc i ?m (c1\<lparr>cx_stream := s\<rparr>) =
      c1\<lparr>cx_stream := s\<lparr>ts_listeners := [l\<lparr>lk_data := d\<rparr>]\<rparr>, cx_client := w\<rparr>"
    and got: "fed w i x (take k msg @ take n new)"
    using ride_reads [of "c1\<lparr>cx_stream := s\<rparr>" l x i "take k msg"] inv(1-3,11-13) h1 buf
    by (auto simp: s_def c1_def new_data_def h_def [symmetric])
  have body: "notify_body proc i x ?m c1 = upd_half x (\<lambda>h. h\<lparr>hs_count_new := 0,
      hs_data := drop n (take (unat (of_nat (k + n) - of_nat k :: u32)) (take n new)), hs_offset := of_nat k + of_int (int n)\<rparr>)
     (c1\<lparr>cx_stream := s\<lparr>ts_listeners := [l\<lparr>lk_data := d\<rparr>]\<rparr>, cx_client := w\<rparr>)"
    using assms(2) unfolding notify_body_def Let_def h1 buf total s_def [symmetric] ride
    by (simp add: s_def upd_half_def h1 buf)
  have deliver: "deliver prm proc i x new n c = prune_listeners (upd_half x (\<lambda>h. h\<lparr>hs_count_new := 0\<rparr>) (notify_body proc i x ?m c1))"
    using inv(4,9) unfolding deliver_def notify_def Let_def notify_once c1_def [symmetric] h1 h_def [symmetric] buf by simp
  have "take (k + n) msg = take k msg @ take n new" using assms(5) by (simp add: take_add)
  moreover have "lk_whatto l \<noteq> 0" using inv(3) by (auto simp: listens_def)
  ultimately show ?thesis
    using inv assms(3) buf got unfolding deliver body rcv_inv_def Let_def
    by (simp add: prune_listeners_def h1 s_def listens_def) (simp add: c1_def h_def)
qed

lemma rcv_exp: "rcv_inv i x isn msg k c \<Longrightarrow> EXP_SEQ x (cx_stream c) = isn + of_nat k"
  by (simp add: rcv_inv_def EXP_SEQ_def Let_def)

lemma rcv_upd:
  "rcv_inv i x isn msg k c \<Longrightarrow> (\<And>h. hs_first_data_seq (e h) = hs_first_data_seq h \<and> hs_count_new (e h) = hs_count_new h) \<Longrightarrow>
   rcv_inv i x isn msg k (upd_half (opposite x) e c)"
  "rcv_inv i x isn msg k c \<Longrightarrow> (\<And>h. hs_collect (e' h) = hs_collect h \<and> hs_count (e' h) = hs_count h \<and>
     hs_offset (e' h) = hs_offset h \<and> hs_urg_count (e' h) = hs_urg_count h \<and> hs_urg_seen (e' h) = hs_urg_seen h \<and>
     hs_count_new_urg (e' h) = hs_count_new_urg h) \<Longrightarrow>
   rcv_inv i x isn msg k (upd_half x e' c)"
  "rcv_inv i x isn msg k (add_tcp_closing_timeout prm i c) = rcv_inv i x isn msg k c"
  by (simp_all add: rcv_inv_def Let_def add_tcp_closing_timeout_def)

lemma queued_simps [simp]:
  "queued x (upd_half (opposite x) e c) = queued x c"
  "queued x (add_tcp_closing_timeout prm i c) = queued x c"
  by (simp_all add: add_tcp_closing_timeout_def)

text \<open>A segment that starts in what is known and reaches to its end or behind it.\<close>

lemma add_rcv:
  assumes "rcv_inv i x isn msg k c" "a \<le> k" "k < a + n + of_bool fin" "a + n \<le> length msg" "length msg < 2 ^ 31 - 1"
    "take n dat = take n (drop a msg)"
  shows "rcv_inv i x isn msg (a + n) (add_from_skb prm proc i x dat n (isn + of_nat a) fin False u c) \<and>
    queued x (add_from_skb prm proc i x dat n (isn + of_nat a) fin False u c) = queued x c"
proof -
  have kn: "k \<le> a + n" using assms(3) by (cases fin) simp_all
  define l :: u32 where "l = of_nat k - of_nat a"
  have lost: "unat l = k - a" "unat (of_nat n - l) = a + n - k"
    using assms(2,4,5) kn unat_of_nat_diff [of a k] unat_of_nat_diff [of "k" "a + n"]
    by (simp_all add: l_def algebra_simps)
  have nz: "of_nat n = l \<longleftrightarrow> k = a + n"
    using lost(2) kn by (metis diff_is_0_eq le_antisym unat_eq_zero eq_iff_diff_eq_0)
  have id: "upd_half x (\<lambda>h. h) c = c" by (simp add: upd_half_def)
  have seen: "\<not> hs_urg_seen (half x (cx_stream c))" using assms(1) by (simp add: rcv_inv_def Let_def)
  define c2 where "c2 = (if k = a + n then c else deliver prm proc i x (drop (k - a) dat) (a + n - k) c)"
  have new: "take (a + n - k) (drop (k - a) dat) = take (a + n - k) (drop k msg)"
  proof -
    have "take (a + n - k) (drop (k - a) dat) = drop (k - a) (take n dat)"
      using assms(2) kn by (simp add: drop_take add.commute)
    also have "\<dots> = take (a + n - k) (drop k msg)" unfolding assms(6) using assms(2) kn by (simp add: drop_take add.commute)
    finally show ?thesis .
  qed
  have c2: "rcv_inv i x isn msg (a + n) c2 \<and> queued x c2 = queued x c"
    using deliver_rcv [OF assms(1) _ _ assms(5) new] assms(1,4) kn by (auto simp: c2_def)
  have "add_from_skb prm proc i x dat n (isn + of_nat a) fin False u c =
    (if fin then (let c3 = upd_half (opposite x) (\<lambda>h. h\<lparr>hs_state := FIN_SENT\<rparr>) c2 in
       if hs_state (half x (cx_stream c3)) = TCP_CLOSING then add_tcp_closing_timeout prm i c3 else c3) else c2)"
    unfolding add_from_skb_def rcv_exp [OF assms(1)] Let_def c2_def
    by (simp add: id seen lost nz l_def [symmetric])
  with c2 show ?thesis by (simp add: rcv_upd Let_def)
qed

lemma queue_rcv:
  assumes "rcv_inv i x isn msg k c" "queued x c = ps" "\<forall>p \<in> set ps. slice isn msg p"
    "sorted (map (pos isn) ps)" "length msg < 2 ^ 31 - 1"
  shows "\<exists>k' ds qs. ps = ds @ qs \<and> rcv_inv i x isn msg k' (queue_loop prm proc i x ps c) \<and>
    queued x (queue_loop prm proc i x ps c) = qs \<and> k \<le> k' \<and> (\<forall>q \<in> set qs. k' < pos isn q) \<and>
    (\<forall>p \<in> set ds. pos isn p + sk_len p \<le> k') \<and> (\<forall>j. k \<le> j \<longrightarrow> j < k' \<longrightarrow> (\<exists>p \<in> set ds. holds isn p j))"
  using assms(1,2,3,4)
proof (induction ps arbitrary: k c)
  case Nil
  then show ?case by auto
next
  case (Cons p ps)
  let ?a = "pos isn p" and ?n = "sk_len p"
  have sl: "?a + ?n \<le> length msg" "\<not> sk_urg p" "take ?n (sk_data p) = take ?n (drop ?a msg)"
    using Cons.prems(3) by (simp_all add: slice_def)
  have km: "k \<le> length msg" using Cons.prems(1) by (simp add: rcv_inv_def Let_def)
  have aft: "after (sk_seq p) (EXP_SEQ x (cx_stream c)) \<longleftrightarrow> k < ?a"
    "after (sk_seq p + of_nat ?n + of_bool (sk_fin p)) (EXP_SEQ x (cx_stream c)) \<longleftrightarrow> k < ?a + ?n + of_bool (sk_fin p)"
  proof -
    show "after (sk_seq p) (EXP_SEQ x (cx_stream c)) \<longleftrightarrow> k < ?a"
      unfolding rcv_exp [OF Cons.prems(1)] sk_seq_pos [of p isn] using sl(1) km assms(5) by (intro after_of_nat) simp_all
    have "sk_seq p + of_nat ?n + of_bool (sk_fin p) = isn + of_nat (?a + ?n + of_bool (sk_fin p))"
      by (subst sk_seq_pos [of p isn]) simp
    moreover have "?a + ?n + of_bool (sk_fin p) < 2 ^ 31" using sl(1) assms(5) by (cases "sk_fin p") simp_all
    ultimately show "after (sk_seq p + of_nat ?n + of_bool (sk_fin p)) (EXP_SEQ x (cx_stream c)) \<longleftrightarrow> k < ?a + ?n + of_bool (sk_fin p)"
      unfolding rcv_exp [OF Cons.prems(1)] using km assms(5) by (simp only:) (intro after_of_nat, simp_all)
  qed
  show ?case
  proof (cases "k < ?a")
    case True
    moreover have "k < pos isn q" if "q \<in> set ps" for q
      using True Cons.prems(4) that by (auto dest!: bspec [of _ _ q])
    ultimately show ?thesis
      using Cons.prems aft by (intro exI [of _ k] exI [of _ "[]"] exI [of _ "p # ps"]) (auto simp: Let_def)
  next
    case False
    define c1 where "c1 = (if k < ?a + ?n + of_bool (sk_fin p)
       then add_from_skb prm proc i x (sk_data p) ?n (sk_seq p) (sk_fin p) (sk_urg p) (ucast (sk_urg_ptr p) + sk_seq p - 1) c else c)"
    define k1 where "k1 = max k (?a + ?n)"
    define c2 where "c2 = upd_half x (\<lambda>h. h\<lparr>hs_rmem_alloc := hs_rmem_alloc h - sk_truesize p, hs_list := ps\<rparr>) c1"
    have "rcv_inv i x isn msg k1 c1"
    proof (cases "k < ?a + ?n + of_bool (sk_fin p)")
      case True
      then have "max k (?a + ?n) = ?a + ?n" by (cases "sk_fin p") simp_all
      with True sl False show ?thesis
        using add_rcv [OF Cons.prems(1) _ True sl(1) assms(5) sl(3)] sk_seq_pos [of p isn] by (simp add: c1_def k1_def)
    next
      case False
      then have "k1 = k" by (simp add: k1_def)
      with False Cons.prems(1) show ?thesis by (simp add: c1_def)
    qed
    then have "rcv_inv i x isn msg k1 c2" unfolding c2_def by (intro rcv_upd) simp_all
    moreover have "queued x c2 = ps" by (simp add: c2_def)
    ultimately obtain k' ds qs where ih: "ps = ds @ qs" "rcv_inv i x isn msg k' (queue_loop prm proc i x ps c2)"
      "queued x (queue_loop prm proc i x ps c2) = qs" "k1 \<le> k'" "\<forall>q \<in> set qs. k' < pos isn q"
      "\<forall>p \<in> set ds. pos isn p + sk_len p \<le> k'" "\<forall>j. k1 \<le> j \<longrightarrow> j < k' \<longrightarrow> (\<exists>p \<in> set ds. holds isn p j)"
      using Cons.IH [of k1 c2] Cons.prems(3,4) by auto
    have step: "queue_loop prm proc i x (p # ps) c = queue_loop prm proc i x ps c2"
      using aft False by (simp add: Let_def c2_def c1_def)
    have "\<exists>q \<in> set (p # ds). holds isn q j" if "k \<le> j" "j < k'" for j
    proof (cases "k1 \<le> j")
      case False
      then have "holds isn p j" using \<open>\<not> k < ?a\<close> that by (auto simp: k1_def holds_def)
      then show ?thesis by simp
    qed (use ih(7) that in auto)
    moreover have "k \<le> k'" "pos isn p + sk_len p \<le> k'" using ih(4) by (simp_all add: k1_def)
    ultimately show ?thesis
      unfolding step using ih by (intro exI [of _ k'] exI [of _ "p # ds"] exI [of _ qs]) auto
  qed
qed

text \<open>What has arrived, as a set of places and lengths; and what holds after every segment.\<close>

definition reasm_inv :: "nat \<Rightarrow> side \<Rightarrow> u32 \<Rightarrow> string \<Rightarrow> (nat \<times> nat) set \<Rightarrow> nat \<Rightarrow> 'w tcp_ctx \<Rightarrow> bool" where
  "reasm_inv i x isn msg A k c \<longleftrightarrow> rcv_inv i x isn msg k c \<and>
     (\<forall>p \<in> set (queued x c). slice isn msg p \<and> k < pos isn p \<and> (pos isn p, sk_len p) \<in> A) \<and>
     sorted (map (pos isn) (queued x c)) \<and>
     (\<forall>(a, n) \<in> A. a + n \<le> k \<or> (\<exists>p \<in> set (queued x c). pos isn p = a \<and> sk_len p = n)) \<and>
     (\<forall>j < k. \<exists>(a, n) \<in> A. a \<le> j \<and> j < a + n)"

lemma tcp_queue_reasm:
  assumes "reasm_inv i x isn msg A k c" "th_seq th = isn + of_nat a" "\<not> flag_set th TH_URG"
    "take n dat = take n (drop a msg)" "a + n \<le> length msg" "length msg < 2 ^ 31 - 1"
  shows "\<exists>k'. reasm_inv i x isn msg (insert (a, n) A) k' (tcp_queue prm proc i x th dat n sk c)"
proof -
  let ?fin = "flag_set th TH_FIN" and ?c' = "tcp_queue prm proc i x th dat n sk c"
  from assms(1) have inv: "rcv_inv i x isn msg k c" "\<forall>p \<in> set (queued x c). slice isn msg p"
    "\<forall>p \<in> set (queued x c). k < pos isn p" "\<forall>p \<in> set (queued x c). (pos isn p, sk_len p) \<in> A"
    "sorted (map (pos isn) (queued x c))"
    "\<forall>(a, n) \<in> A. a + n \<le> k \<or> (\<exists>p \<in> set (queued x c). pos isn p = a \<and> sk_len p = n)"
    "\<forall>j < k. \<exists>(a, n) \<in> A. a \<le> j \<and> j < a + n"
    by (simp_all add: reasm_inv_def)
  have km: "k \<le> length msg" using inv(1) by (simp add: rcv_inv_def Let_def)
  have aft: "after (th_seq th) (EXP_SEQ x (cx_stream c)) \<longleftrightarrow> k < a"
    "after (th_seq th + of_nat n + of_bool ?fin) (EXP_SEQ x (cx_stream c)) \<longleftrightarrow> k < a + n + of_bool ?fin"
  proof -
    show "after (th_seq th) (EXP_SEQ x (cx_stream c)) \<longleftrightarrow> k < a"
      unfolding rcv_exp [OF inv(1)] assms(2) using assms(5,6) km by (intro after_of_nat) simp_all
    have "th_seq th + of_nat n + of_bool ?fin = isn + of_nat (a + n + of_bool ?fin)" by (simp add: assms(2))
    moreover have "a + n + of_bool ?fin < 2 ^ 31" using assms(5,6) by (cases ?fin) simp_all
    ultimately show "after (th_seq th + of_nat n + of_bool ?fin) (EXP_SEQ x (cx_stream c)) \<longleftrightarrow> k < a + n + of_bool ?fin"
      unfolding rcv_exp [OF inv(1)] using km assms(6) by (simp only:) (intro after_of_nat, simp_all)
  qed
  consider (later) "k < a" | (old) "a \<le> k" "\<not> k < a + n + of_bool ?fin" | (now) "a \<le> k" "k < a + n + of_bool ?fin"
    by linarith
  then show ?thesis
  proof cases
    case later
    define p where "p = \<lparr>sk_data = take n dat, sk_len = n, sk_truesize = sk, sk_urg_ptr = th_urp th,
                 sk_fin = ?fin, sk_urg = flag_set th TH_URG, sk_seq = th_seq th\<rparr>"
    have "pos isn p = a" using assms(5,6) by (simp add: p_def pos_def assms(2) unat_of_nat)
    then have p: "pos isn p = a" "sk_len p = n" "slice isn msg p"
      using assms(3-5) by (simp_all add: slice_def) (simp_all add: p_def)
    have "\<forall>q \<in> set (queued x c). pos isn q < 2 ^ 31" using inv(2) assms(6) by (fastforce simp: slice_def)
    then have ins: "sorted (map (pos isn) (insert_skb p (queued x c)))" "set (insert_skb p (queued x c)) = insert p (set (queued x c))"
      using insert_skb_sorted [OF inv(5), of p] p(1) assms(5,6) by simp_all
    have c': "rcv_inv i x isn msg k ?c'" "queued x ?c' = insert_skb p (queued x c)"
      using later aft inv(1) by (auto simp: tcp_queue_def Let_def p_def [symmetric] rcv_upd(3) intro!: rcv_upd(1,2))
    show ?thesis
      unfolding reasm_inv_def c'(2) ins(2) using c'(1) ins(1) inv p later
      by (intro exI [of _ k]) auto
  next
    case old
    then have "?c' = c" using aft by (simp add: tcp_queue_def Let_def)
    with assms(1) old show ?thesis by (intro exI [of _ k]) (auto simp: reasm_inv_def)
  next
    case now
    define c1 where "c1 = upd_half (opposite x) (\<lambda>h. h\<lparr>hs_curr_ts := snd (get_ts th (hs_curr_ts h))\<rparr>) c"
    define c2 where "c2 = add_from_skb prm proc i x dat n (th_seq th) ?fin (flag_set th TH_URG) (ucast (th_urp th) + th_seq th - 1) c1"
    have "rcv_inv i x isn msg k c1" "queued x c1 = queued x c"
      unfolding c1_def using inv(1) by (auto intro!: rcv_upd)
    from add_rcv [OF this(1) now(1,2) assms(5,6,4)] this(2) have c2: "rcv_inv i x isn msg (a + n) c2" "queued x c2 = queued x c"
      using assms(3) by (simp_all add: c2_def assms(2))
    have c': "?c' = queue_loop prm proc i x (queued x c) c2"
      using now aft c2(2) by (simp add: tcp_queue_def Let_def c1_def [symmetric] c2_def [symmetric])
    from queue_rcv [OF c2 inv(2,5) assms(6)] obtain k' ds qs where q: "queued x c = ds @ qs"
      "rcv_inv i x isn msg k' ?c'" "queued x ?c' = qs" "a + n \<le> k'" "\<forall>q \<in> set qs. k' < pos isn q"
      "\<forall>p \<in> set ds. pos isn p + sk_len p \<le> k'" "\<forall>j. a + n \<le> j \<longrightarrow> j < k' \<longrightarrow> (\<exists>p \<in> set ds. holds isn p j)"
      unfolding c' [symmetric] by blast
    have ka: "k \<le> a + n" using now(2) by (cases ?fin) simp_all
    have "\<exists>(b, m) \<in> insert (a, n) A. b \<le> j \<and> j < b + m" if j: "j < k'" for j
    proof -
      consider "j < k" | "k \<le> j" "j < a + n" | "a + n \<le> j" by linarith
      then show ?thesis
      proof cases
        case 3
        then obtain p where "p \<in> set ds" "holds isn p j" using q(7) j by blast
        moreover then have "(pos isn p, sk_len p) \<in> A" using inv(4) q(1) by simp
        ultimately show ?thesis by (auto simp: holds_def)
      qed (use inv(7) now(1) in auto)
    qed
    moreover have "b + m \<le> k' \<or> (\<exists>p \<in> set qs. pos isn p = b \<and> sk_len p = m)" if "(b, m) \<in> insert (a, n) A" for b m
      using that inv(6) q(1,4,6) ka by fastforce
    ultimately show ?thesis
      unfolding reasm_inv_def q(3) using q inv(2,4,5) by (intro exI [of _ k']) (auto simp: sorted_append)
  qed
qed

lemma segments_reasm:
  assumes "reasm_inv i x isn msg A k c" "\<forall>sg \<in> set segs. carried isn msg sg" "length msg < 2 ^ 31 - 1"
  shows "\<exists>k'. reasm_inv i x isn msg (A \<union> place isn ` set segs) k' (take_segments prm proc i x segs c)"
  using assms(1,2)
proof (induction segs arbitrary: A k c)
  case Nil
  then show ?case by (auto simp: take_segments_def)
next
  case (Cons sg segs)
  obtain th dat n sk where sg: "sg = (th, dat, n, sk)" by (metis prod_cases4)
  let ?a = "unat (th_seq th - isn)"
  have "th_seq th = isn + of_nat ?a" by simp
  with Cons.prems sg assms(3) obtain k1 where
    "reasm_inv i x isn msg (insert (?a, n) A) k1 (tcp_queue prm proc i x th dat n sk c)"
    using tcp_queue_reasm [of i x isn msg A k c th ?a n dat sk] by (auto simp: carried_def Let_def)
  from Cons.IH [OF this] Cons.prems(2) sg show ?case by (simp add: take_segments_def place_def Un_commute)
qed

text \<open>The receiver has exactly the bytes before the first one that did not arrive.\<close>

lemma reasm_prefix:
  assumes "receiving f i x isn c" "ts_addr (cx_stream c) = adr" "fed (cx_client c) i x []" "\<forall>sg \<in> set segs. carried isn msg sg" "length msg < 2 ^ 31 - 1"
  shows "\<exists>k. fed (cx_client (take_segments prm proc i x segs c)) i x (take k msg) \<and> k \<le> length msg \<and>
    (\<forall>j < k. arrived isn segs j) \<and> \<not> arrived isn segs k"
proof -
  have "reasm_inv i x isn msg {} 0 c"
    using assms(1-3) by (simp add: reasm_inv_def rcv_inv_def receiving_def listens_def Let_def)
  from segments_reasm [OF this assms(4,5)] obtain k where
    k: "reasm_inv i x isn msg (place isn ` set segs) k (take_segments prm proc i x segs c)" by auto
  then have "\<not> arrived isn segs k" by (fastforce simp: reasm_inv_def arrived_def)
  moreover have "\<forall>j < k. arrived isn segs j" using k by (fastforce simp: reasm_inv_def arrived_def)
  ultimately show ?thesis using k by (auto simp: reasm_inv_def rcv_inv_def Let_def)
qed

end

section \<open>The monitor as a reader\<close>

text \<open>
  The monitor was given the bytes in events of the stream that have new data on this side and
  on no other.
\<close>

primrec new_of :: "side \<Rightarrow> tcp_event \<Rightarrow> string" where
  "new_of Client e = ev_client_new e"
| "new_of Server e = ev_server_new e"

definition data_event :: "tuple4 \<Rightarrow> nat \<Rightarrow> side \<Rightarrow> tcp_event \<Rightarrow> bool" where
  "data_event a i x e \<longleftrightarrow> ev_stream e = i \<and> tcp_addr (ev_tcp e) = a \<and> ev_state e = NIDS_DATA \<and>
     new_of x e \<noteq> [] \<and> new_of (opposite x) e = []"

definition bscope_fed :: "int \<Rightarrow> tuple4 \<Rightarrow> monitor \<Rightarrow> stop + monitor \<Rightarrow> nat \<Rightarrow> side \<Rightarrow> string \<Rightarrow> bool" where
  "bscope_fed ppid a m w i x bs \<longleftrightarrow>
     (\<exists>es. w = monitor_run ppid es m \<and> (\<forall>e \<in> set es. data_event a i x e) \<and> concat (map (new_of x) es) = bs)"

lemma monitor_run_snoc:
  "monitor_run ppid (es @ [e]) m = (case monitor_run ppid es m of Inl r \<Rightarrow> Inl r | Inr m' \<Rightarrow> tcp_callback ppid e m')"
  by (induction es arbitrary: m) (auto split: sum.split)

interpretation bscope_reader: tcp_reader "start_prm skip" "bscope_proc ppid" TCP_CALLBACK a "bscope_fed ppid a m"
  for skip ppid a m
proof unfold_locales
  fix i s d and s' :: tcp_stream and d' x bs and w w' :: "stop + monitor"
  assume p: "bscope_proc ppid TCP_CALLBACK i s d w = (s', d', w')" and st: "ts_nids_state s = Some NIDS_DATA"
  show "s' = s" using bscope_collects [OF p] st by auto
  assume adr: "ts_addr s = a" "new_data (half x s) \<noteq> []" and other: "hs_count_new (half (opposite x) s) = 0" and "bscope_fed ppid a m w i x bs"
  then obtain es where es: "w = monitor_run ppid es m" "\<forall>e \<in> set es. data_event a i x e" "concat (map (new_of x) es) = bs"
    by (auto simp: bscope_fed_def)
  let ?e = "event_of i NIDS_DATA s"
  have e: "data_event a i x ?e" "new_of x ?e = new_data (half x s)"
    using other adr by (cases x; simp add: data_event_def event_of_def tcp_info_of_def new_data_def)+
  have "w' = monitor_run ppid (es @ [?e]) m"
    using p st es(1) by (auto simp: bscope_proc_def monitor_run_snoc split: sum.splits)
  with es(2,3) e show "bscope_fed ppid a m w' i x (bs @ new_data (half x s))"
    unfolding bscope_fed_def by (intro exI [of _ "es @ [?e]"]) simp
qed (simp add: start_prm_def)

lemma bscope_fed_start: "bscope_fed ppid a m (Inr m) i x []"
  unfolding bscope_fed_def by (intro exI [of _ "[]"]) simp

section \<open>Properties\<close>

text \<open>
  C11: reassembly. Segments of a message arrive at a stream that the monitor collects, in any
  order, repeated or overlapping, some perhaps not at all. Then what the monitor was given, in
  data events of this stream, is the beginning of the message up to the first byte that did
  not arrive: no byte twice, none out of order, none that has arrived held back behind it.
\<close>

theorem tcp_reassembly:
  assumes "receiving TCP_CALLBACK i x isn c" "cx_client c = Inr m"
    "\<forall>sg \<in> set segs. carried isn msg sg" "length msg < 2 ^ 31 - 1"
  shows "\<exists>es k. cx_client (take_segments (start_prm skip) (bscope_proc ppid) i x segs c) = monitor_run ppid es m \<and>
    (\<forall>e \<in> set es. data_event (ts_addr (cx_stream c)) i x e) \<and> concat (map (new_of x) es) = take k msg \<and>
    (\<forall>j < k. arrived isn segs j) \<and> \<not> arrived isn segs k"
proof -
  have "bscope_fed ppid (ts_addr (cx_stream c)) m (cx_client c) i x []" using bscope_fed_start assms(2) by simp
  from bscope_reader.reasm_prefix [OF assms(1) refl this assms(3,4), of skip] show ?thesis
    unfolding bscope_fed_def by blast
qed


text \<open>A sample: two segments in the wrong order for the server.\<close>

definition sample_header :: "nat \<Rightarrow> string" where
  "sample_header a = [CHR 0x00, CHR 0x50, CHR 0x00, CHR 0x50, CHR 0x00, CHR 0x00, CHR 0x01, char_of a,
     NUL, NUL, NUL, NUL, CHR 0x50, CHR 0x10, NUL, NUL, NUL, NUL, NUL, NUL]"

definition sample_stream :: tcp_stream where
  "sample_stream = stream_zero
     \<lparr>ts_addr := tcp_addr (w_tcp (sample_world session_zero)), ts_nids_state := Some NIDS_DATA,
      ts_listeners := [\<lparr>lk_item = TCP_CALLBACK, lk_data = 0, lk_whatto = COLLECT_cc OR COLLECT_sc\<rparr>],
      ts_client := half_zero\<lparr>hs_state := TCP_ESTABLISHED, hs_collect := 1, hs_first_data_seq := 256\<rparr>,
      ts_server := half_zero\<lparr>hs_state := TCP_ESTABLISHED, hs_collect := 1\<rparr>\<rparr>"

definition sample_ctx :: "(stop + monitor) tcp_ctx" where
  "sample_ctx = \<lparr>cx_stream = sample_stream, cx_timeouts = [], cx_now = 0, cx_client = Inr sample_monitor\<rparr>"

lemma sample_receiving: "receiving TCP_CALLBACK 0 Server 256 sample_ctx"
  by (simp add: receiving_def sample_ctx_def sample_stream_def half_zero_def COLLECT_cc_def COLLECT_sc_def Let_def)

lemma sample_carried:
  "\<forall>sg \<in> set [(sample_header 3, '' / '', 3, 300), (sample_header 0, ''GET'', 3, 300)]. carried 256 ''GET / '' sg"
  by (simp add: carried_def sample_header_def th_seq_def be32_def byte_at_def uchar_def flag_set_def th_flags_def TH_URG_def Let_def)

lemma sample_arrived:
  "arrived 256 [(sample_header 3, '' / '', 3, 300), (sample_header 0, ''GET'', 3, 300)] j \<longleftrightarrow> j < 6"
  by (auto simp: arrived_def place_def sample_header_def th_seq_def be32_def byte_at_def uchar_def)

theorem tcp_reassembly_witness:
  "\<exists>es. cx_client (take_segments (start_prm False) (bscope_proc 100) 0 Server
       [(sample_header 3, '' / '', 3, 300), (sample_header 0, ''GET'', 3, 300)] sample_ctx) = monitor_run 100 es sample_monitor \<and>
     (\<forall>e \<in> set es. data_event (ts_addr (cx_stream sample_ctx)) 0 Server e) \<and> concat (map (new_of Server) es) = ''GET / ''"
proof -
  have "cx_client sample_ctx = Inr sample_monitor" by (simp add: sample_ctx_def)
  from tcp_reassembly [OF sample_receiving this sample_carried, of False 100] obtain es k where
    "cx_client (take_segments (start_prm False) (bscope_proc 100) 0 Server
       [(sample_header 3, '' / '', 3, 300), (sample_header 0, ''GET'', 3, 300)] sample_ctx) = monitor_run 100 es sample_monitor"
    "\<forall>e \<in> set es. data_event (ts_addr (cx_stream sample_ctx)) 0 Server e" "concat (map (new_of Server) es) = take k ''GET / ''" "\<not> k < 6"
    unfolding sample_arrived by auto
  then show ?thesis by auto
qed


end
