(* ===== verification/IpFragment.thy ===== *)
theory IpFragment
  imports Config Packet
begin

text \<open>
  The reassembly of IP fragments (src/src/libnids-1.24/src/ip_fragment.c).
\<close>

section \<open>The state\<close>

definition IP_MF :: u16 where "IP_MF = 0x2000"
definition IP_OFFSET :: u16 where "IP_OFFSET = 0x1FFF"
definition IP_FRAG_TIME :: int where "IP_FRAG_TIME = 30 * 1000"
definition IPFRAG_HIGH_THRESH :: int where "IPFRAG_HIGH_THRESH = 256 * 1024"
definition IPFRAG_LOW_THRESH :: int where "IPFRAG_LOW_THRESH = 192 * 1024"

text \<open>The sizes of \<open>struct ipq\<close>, \<open>struct ipfrag\<close> and of the copy of a header, in bytes (LP64).\<close>

definition IPQ_SIZE :: int where "IPQ_SIZE = 96"
definition IPFRAG_SIZE :: int where "IPFRAG_SIZE = 48"
definition IPH_SIZE :: int where "IPH_SIZE = 72"

definition ip_id :: "string \<Rightarrow> u16" where "ip_id p = be16 p 4"
definition ip_off :: "string \<Rightarrow> u16" where "ip_off p = be16 p 6"

text \<open>
  \<open>struct ipfrag\<close>: its place in the datagram, the packet it came in (\<open>skb\<close>) and the index of
  its data there (\<open>ptr\<close>).
\<close>

record ipfrag =
  fr_offset :: int
  fr_end :: int
  fr_len :: int
  fr_skb :: string
  fr_ptr :: int
  fr_truesize :: int

text \<open>
  \<open>struct ipq\<close>, a datagram that is not complete. \<open>iq_no\<close> stands for the address of the structure;
  the header is kept with the eight bytes behind it.
\<close>

record ipq =
  iq_no :: nat
  iq_iph :: string
  iq_len :: int
  iq_ihlen :: nat
  iq_expires :: int
  iq_fragments :: "ipfrag list"

text \<open>\<open>struct hostfrags\<close>: the datagrams to one address and the memory charged for them.\<close>

record hostfrags =
  hf_ip :: u32
  hf_ipqueue :: "ipq list"
  hf_mem :: int

text \<open>
  The variables of the file. \<open>fg_this\<close> is the host that \<open>this_host\<close> points to, by its address;
  a timer is the address of the host and that of the queue it will free. The result of
  \<open>panic\<close> is \<open>fg_panic\<close>; \<open>fg_warnings\<close> counts the calls of \<open>syslog\<close>.
\<close>

record frag_state =
  fg_table :: "nat \<Rightarrow> hostfrags list"
  fg_hash_size :: nat
  fg_this :: "u32 option"
  fg_timers :: "(u32 \<times> nat) list"
  fg_next :: nat
  fg_warnings :: nat
  fg_panic :: bool

text \<open>The parameters of libnids that count.\<close>

record frag_prm =
  fp_dev_addon :: int
  fp_sk_buff_size :: int

definition frag_warn :: "frag_state \<Rightarrow> frag_state" where
  "frag_warn s = s\<lparr>fg_warnings := fg_warnings s + 1\<rparr>"

section \<open>Hosts\<close>

definition frag_index :: "frag_state \<Rightarrow> u32 \<Rightarrow> nat" where
  "frag_index s dst = unat (ntohl dst) mod fg_hash_size s"

definition host_of :: "frag_state \<Rightarrow> u32 \<Rightarrow> hostfrags option" where
  "host_of s a = find (\<lambda>h. hf_ip h = a) (fg_table s (frag_index s a))"

definition on_host :: "u32 \<Rightarrow> (hostfrags \<Rightarrow> hostfrags) \<Rightarrow> frag_state \<Rightarrow> frag_state" where
  "on_host a f s = s\<lparr>fg_table := (fg_table s)(frag_index s a :=
     map (\<lambda>h. if hf_ip h = a then f h else h) (fg_table s (frag_index s a)))\<rparr>"

definition on_this :: "(hostfrags \<Rightarrow> hostfrags) \<Rightarrow> frag_state \<Rightarrow> frag_state" where
  "on_this f s = (case fg_this s of None \<Rightarrow> s | Some a \<Rightarrow> on_host a f s)"

definition this_host :: "frag_state \<Rightarrow> hostfrags option" where
  "this_host s = (case fg_this s of None \<Rightarrow> None | Some a \<Rightarrow> host_of s a)"

definition hostfrag_find :: "string \<Rightarrow> frag_state \<Rightarrow> frag_state" where
  "hostfrag_find iph s = s\<lparr>fg_this := (case host_of s (ip_dst iph) of None \<Rightarrow> None | Some h \<Rightarrow> Some (ip_dst iph))\<rparr>"

definition hostfrag_create :: "string \<Rightarrow> frag_state \<Rightarrow> frag_state" where
  "hostfrag_create iph s =
     (let a = ip_dst iph; k = frag_index s a in
      s\<lparr>fg_table := (fg_table s)(k := \<lparr>hf_ip = a, hf_ipqueue = [], hf_mem = 0\<rparr> # fg_table s k), fg_this := Some a\<rparr>)"

definition rmthis_host :: "frag_state \<Rightarrow> frag_state" where
  "rmthis_host s =
     (case fg_this s of
        None \<Rightarrow> s
      | Some a \<Rightarrow> s\<lparr>fg_table := (fg_table s)(frag_index s a :=
          filter (\<lambda>h. hf_ip h \<noteq> a) (fg_table s (frag_index s a))), fg_this := None\<rparr>)"

text \<open>What \<open>frag_kmalloc\<close>, \<open>frag_kfree_s\<close> and \<open>frag_kfree_skb\<close> do to the account of the host.\<close>

definition atomic_add :: "int \<Rightarrow> frag_state \<Rightarrow> frag_state" where
  "atomic_add n = on_this (\<lambda>h. h\<lparr>hf_mem := hf_mem h + n\<rparr>)"

section \<open>Queues\<close>

definition add_timer :: "nat \<Rightarrow> frag_state \<Rightarrow> frag_state" where
  "add_timer q s = (case fg_this s of None \<Rightarrow> s | Some a \<Rightarrow> s\<lparr>fg_timers := fg_timers s @ [(a, q)]\<rparr>)"

definition del_timer :: "nat \<Rightarrow> frag_state \<Rightarrow> frag_state" where
  "del_timer q s = s\<lparr>fg_timers := filter (\<lambda>t. snd t \<noteq> q) (fg_timers s)\<rparr>"

definition same_datagram :: "string \<Rightarrow> ipq \<Rightarrow> bool" where
  "same_datagram iph q \<longleftrightarrow> ip_id iph = ip_id (iq_iph q) \<and> ip_src iph = ip_src (iq_iph q) \<and>
     ip_dst iph = ip_dst (iq_iph q) \<and> ip_p iph = ip_p (iq_iph q)"

text \<open>The queue of a datagram; its timer is stopped.\<close>

definition ip_find :: "string \<Rightarrow> frag_state \<Rightarrow> ipq option \<times> frag_state" where
  "ip_find iph s =
     (case this_host s of
        None \<Rightarrow> (None, s)
      | Some h \<Rightarrow>
          (case find (same_datagram iph) (hf_ipqueue h) of
             None \<Rightarrow> (None, s)
           | Some q \<Rightarrow> (Some q, del_timer (iq_no q) s)))"

definition frag_charge :: "ipfrag \<Rightarrow> int" where
  "frag_charge f = fr_truesize f + IPFRAG_SIZE"

definition queue_charge :: "ipq \<Rightarrow> int" where
  "queue_charge q = sum_list (map frag_charge (iq_fragments q)) + IPH_SIZE + IPQ_SIZE"

text \<open>The last queue of a host takes the host with it; otherwise the memory is given back to it.\<close>

definition ip_free :: "ipq \<Rightarrow> frag_state \<Rightarrow> frag_state" where
  "ip_free q s =
     (let s1 = on_this (\<lambda>h. h\<lparr>hf_ipqueue := filter (\<lambda>p. iq_no p \<noteq> iq_no q) (hf_ipqueue h)\<rparr>) (del_timer (iq_no q) s) in
      case this_host s1 of
        None \<Rightarrow> s1
      | Some h \<Rightarrow> atomic_add (- queue_charge q) (if hf_ipqueue h = [] then rmthis_host s1 else s1))"

text \<open>
  The memory limit. Every round frees a queue, so the number of queues of the host bounds the
  rounds.
\<close>

fun ip_evictor :: "nat \<Rightarrow> frag_state \<Rightarrow> frag_state" where
  "ip_evictor 0 s = s"
| "ip_evictor (Suc n) s =
     (case this_host s of
        None \<Rightarrow> s
      | Some h \<Rightarrow>
          if hf_mem h > IPFRAG_LOW_THRESH then
            (case hf_ipqueue h of
               [] \<Rightarrow> s\<lparr>fg_panic := True\<rparr>
             | q # qs \<Rightarrow> ip_evictor n (ip_free q s))
          else s)"

definition upd_queue :: "nat \<Rightarrow> (ipq \<Rightarrow> ipq) \<Rightarrow> frag_state \<Rightarrow> frag_state" where
  "upd_queue q f = on_this (\<lambda>h. h\<lparr>hf_ipqueue := map (\<lambda>p. if iq_no p = q then f p else p) (hf_ipqueue h)\<rparr>)"

definition ip_create :: "int \<Rightarrow> string \<Rightarrow> frag_state \<Rightarrow> ipq \<times> frag_state" where
  "ip_create now iph s =
     (let ihlen = ip_hl iph * 4;
          q = \<lparr>iq_no = fg_next s, iq_iph = take (ihlen + 8) iph, iq_len = 0, iq_ihlen = ihlen,
               iq_expires = now + IP_FRAG_TIME, iq_fragments = []\<rparr>;
          s1 = atomic_add IPH_SIZE (atomic_add IPQ_SIZE s);
          s2 = add_timer (iq_no q) s1
      in (q, on_this (\<lambda>h. h\<lparr>hf_ipqueue := q # hf_ipqueue h\<rparr>) s2\<lparr>fg_next := fg_next s + 1\<rparr>))"

section \<open>Gluing\<close>

text \<open>All fragments up to the end connect.\<close>

fun ip_connect :: "int \<Rightarrow> ipfrag list \<Rightarrow> bool" where
  "ip_connect offset [] = True"
| "ip_connect offset (f # fs) = (if fr_offset f > offset then False else ip_connect (fr_end f) fs)"

definition ip_done :: "ipq \<Rightarrow> bool" where
  "ip_done q = (if iq_len q = 0 then False else ip_connect 0 (iq_fragments q))"

text \<open>\<open>n\<close> bytes of a packet from index \<open>i\<close>; and a copy into a buffer.\<close>

definition frag_bytes :: "ipfrag \<Rightarrow> string" where
  "frag_bytes f = map (\<lambda>j. let k = fr_ptr f + int j in if 0 \<le> k \<and> k < int (length (fr_skb f)) then fr_skb f ! nat k else NUL)
     [0..<nat (fr_len f)]"

definition mem_copy :: "nat \<Rightarrow> string \<Rightarrow> string \<Rightarrow> string" where
  "mem_copy i d m = take i m @ d @ drop (i + length d) m"

text \<open>The fragments into the buffer behind the header; \<open>None\<close> for a fragment that does not fit.\<close>

fun glue_loop :: "nat \<Rightarrow> int \<Rightarrow> ipfrag list \<Rightarrow> string \<Rightarrow> int \<Rightarrow> (string \<times> int) option" where
  "glue_loop ihlen len [] m count = Some (m, count)"
| "glue_loop ihlen len (f # fs) m count =
     (if fr_len f < 0 \<or> fr_offset f + int ihlen + fr_len f > len then None
      else glue_loop ihlen len fs (mem_copy (ihlen + nat (fr_offset f)) (frag_bytes f) m) (count + fr_len f))"

definition u16_be :: "int \<Rightarrow> string" where
  "u16_be n = [char_of (nat (n div 256 mod 256)), char_of (nat (n mod 256))]"

text \<open>The new datagram: the bytes of the buffer that no fragment fills are those of \<open>malloc\<close>.\<close>

definition ip_glue :: "ipq \<Rightarrow> frag_state \<Rightarrow> string option \<times> frag_state" where
  "ip_glue q s =
     (let len = int (iq_ihlen q) + iq_len q in
      if len > 65535 then (None, ip_free q (frag_warn s))
      else
        let skb = mem_copy 0 (take (iq_ihlen q) (iq_iph q)) (replicate (nat len) NUL) in
        (case glue_loop (iq_ihlen q) len (iq_fragments q) skb 0 of
           None \<Rightarrow> (None, ip_free q (frag_warn s))
         | Some (m, count) \<Rightarrow>
             (Some (mem_copy 2 (u16_be (int (ip_hl m * 4) + count)) (mem_copy 6 [NUL, NUL] m)), ip_free q s)))"

section \<open>A fragment\<close>

text \<open>
  The fragments behind the new one: those it covers go, the first that reaches further is cut.
  \<open>kept\<close> are the fragments from \<open>next\<close> on that were looked at and stay; when one behind them
  goes, \<open>next\<close> moves behind it and they are no longer linked. The memory of those that go is
  given back.
\<close>

fun trim_next :: "int \<Rightarrow> ipfrag list \<Rightarrow> ipfrag list \<Rightarrow> nat \<Rightarrow> int \<Rightarrow> ipfrag list \<times> nat \<times> int" where
  "trim_next e kept [] warn freed = (kept, warn, freed)"
| "trim_next e kept (t # ts) warn freed =
     (if fr_offset t \<ge> e then (kept @ t # ts, warn, freed)
      else
        let i = e - fr_offset (hd (kept @ [t]));
            t' = t\<lparr>fr_len := fr_len t - i, fr_offset := fr_offset t + i, fr_ptr := fr_ptr t + i\<rparr> in
        if fr_len t' \<le> 0 then trim_next e [] ts (warn + 1) (freed + frag_charge t)
        else trim_next e (kept @ [t']) ts (warn + 1) freed)"

text \<open>The place of a new fragment among the old ones.\<close>

definition insert_frag ::
  "int \<Rightarrow> int \<Rightarrow> string \<Rightarrow> int \<Rightarrow> int \<Rightarrow> ipfrag list \<Rightarrow> ipfrag list \<times> nat \<times> int" where
  "insert_frag offset e skb ptr truesize fs =
     (let front = takeWhile (\<lambda>f. \<not> fr_offset f \<ge> offset) fs;
          next = dropWhile (\<lambda>f. \<not> fr_offset f \<ge> offset) fs;
          i = (if front \<noteq> [] \<and> offset < fr_end (last front) then fr_end (last front) - offset else 0);
          (next', warn, freed) = trim_next e [] next (if i = 0 then 0 else 1) 0;
          new = \<lparr>fr_offset = offset + i, fr_end = e, fr_len = e - (offset + i), fr_skb = skb, fr_ptr = ptr + i,
                 fr_truesize = truesize\<rparr>
      in (front @ new # next', warn, freed))"

text \<open>
  A fragment \<open>skb\<close> of a datagram whose queue is \<open>q\<close>, after the timer was restarted: too long, or
  entered and perhaps the last one that was missing.
\<close>

definition ip_enter :: "string \<Rightarrow> int \<Rightarrow> ipq \<Rightarrow> frag_state \<Rightarrow> string option \<times> frag_state" where
  "ip_enter skb truesize q s =
     (let offset = int (unat (ip_off skb AND IP_OFFSET)) * 8; ihl = ip_hl skb * 4; len = int (unat (ip_len skb)) in
      if len + offset > 65535 then (None, frag_warn s)
      else
        let e = offset + len - int ihl;
            (fs, warn, freed) = insert_frag offset e skb (int ihl) truesize (iq_fragments q);
            q1 = q\<lparr>iq_len := (if ip_off skb AND IP_MF = 0 then e else iq_len q), iq_fragments := fs\<rparr>;
            s1 = atomic_add (truesize + IPFRAG_SIZE - freed)
                   (upd_queue (iq_no q) (\<lambda>_. q1) s\<lparr>fg_warnings := fg_warnings s + warn\<rparr>)
        in if ip_done q1 then ip_glue q1 s1 else (None, s1))"

text \<open>
  The start of \<open>ip_defrag\<close>: the host of the datagram, made for a fragment, within its limit of
  memory. A packet that is not a fragment has no \<open>skb\<close>.
\<close>

definition defrag_host :: "string \<Rightarrow> int option \<Rightarrow> frag_state \<Rightarrow> frag_state" where
  "defrag_host iph truesize s =
     (let s1 = hostfrag_find iph s;
          s2 = (if this_host s1 = None \<and> truesize \<noteq> None then hostfrag_create iph s1 else s1)
      in case this_host s2 of
           None \<Rightarrow> s2
         | Some h \<Rightarrow> if hf_mem h > IPFRAG_HIGH_THRESH then ip_evictor (length (hf_ipqueue h) + 1) s2 else s2)"

text \<open>The queue of a fragment: the one there is, with a new timer, or a new one.\<close>

definition restart_queue :: "int \<Rightarrow> string \<Rightarrow> ipq \<Rightarrow> frag_state \<Rightarrow> ipq \<times> frag_state" where
  "restart_queue now iph q s =
     (let q1 = (if ip_off iph AND IP_OFFSET = 0
                then q\<lparr>iq_ihlen := ip_hl iph * 4, iq_iph := take (ip_hl iph * 4 + 8) iph\<rparr> else q);
          q2 = q1\<lparr>iq_expires := now + IP_FRAG_TIME\<rparr>
      in (q2, add_timer (iq_no q) (upd_queue (iq_no q) (\<lambda>_. q2) (del_timer (iq_no q) s))))"

definition defrag_queue :: "int \<Rightarrow> string \<Rightarrow> ipq option \<Rightarrow> frag_state \<Rightarrow> ipq \<times> frag_state" where
  "defrag_queue now iph qp s =
     (let s1 = (if this_host s = None then hostfrag_create iph s else s) in
      case qp of Some q \<Rightarrow> restart_queue now iph q s1 | None \<Rightarrow> ip_create now iph s1)"

definition plain_packet :: "string \<Rightarrow> bool" where
  "plain_packet iph \<longleftrightarrow> ip_off iph AND IP_MF = 0 \<and> ip_off iph AND IP_OFFSET = 0"

definition ip_defrag :: "int \<Rightarrow> string \<Rightarrow> int option \<Rightarrow> frag_state \<Rightarrow> string option \<times> frag_state" where
  "ip_defrag now iph truesize s =
     (case ip_find iph (defrag_host iph truesize s) of (qp, s1) \<Rightarrow>
       if plain_packet iph then (None, case qp of None \<Rightarrow> s1 | Some q \<Rightarrow> ip_free q s1)
       else (case defrag_queue now iph qp s1 of (q, s2) \<Rightarrow>
         ip_enter iph (case truesize of None \<Rightarrow> 0 | Some n \<Rightarrow> n) q s2))"

section \<open>\<open>ip_defrag_stub\<close>\<close>

text \<open>The queue a timer is for.\<close>

definition timer_queue :: "u32 \<times> nat \<Rightarrow> frag_state \<Rightarrow> ipq option" where
  "timer_queue t s = (case host_of s (fst t) of None \<Rightarrow> None | Some h \<Rightarrow> find (\<lambda>q. iq_no q = snd t) (hf_ipqueue h))"

definition ip_expire :: "ipq \<Rightarrow> frag_state \<Rightarrow> frag_state" where
  "ip_expire q s = ip_free q s"

text \<open>The timers that have run out; each frees a queue and itself, so their number bounds the rounds.\<close>

fun expire_timers :: "int \<Rightarrow> nat \<Rightarrow> frag_state \<Rightarrow> frag_state" where
  "expire_timers now 0 s = s"
| "expire_timers now (Suc n) s =
     (case fg_timers s of
        [] \<Rightarrow> s
      | t # ts \<Rightarrow>
          (case timer_queue t s of
             None \<Rightarrow> s
           | Some q \<Rightarrow>
               if iq_expires q < now then expire_timers now n (ip_expire q (s\<lparr>fg_this := Some (fst t)\<rparr>)) else s))"

datatype ipf = IPF_NOTF | IPF_NEW string | IPF_ISF

definition skb_truesize :: "frag_prm \<Rightarrow> string \<Rightarrow> int" where
  "skb_truesize prm iph =
     (int (unat (ip_len iph)) + 16 + fp_dev_addon prm + 15) div 16 * 16 + fp_sk_buff_size prm"

definition ip_defrag_stub :: "frag_prm \<Rightarrow> int \<Rightarrow> string \<Rightarrow> frag_state \<Rightarrow> ipf \<times> frag_state" where
  "ip_defrag_stub prm now iph s =
     (let s1 = expire_timers now (length (fg_timers s)) s in
      if plain_packet iph then (IPF_NOTF, snd (ip_defrag now iph None s1))
      else
        (case ip_defrag now (take (unat (ip_len iph)) iph) (Some (skb_truesize prm iph)) s1 of
            (Some p, s2) \<Rightarrow> (IPF_NEW p, s2)
         | (None, s2) \<Rightarrow> (IPF_ISF, s2)))"

definition ip_frag_init :: "nat \<Rightarrow> frag_state" where
  "ip_frag_init n = \<lparr>fg_table = (\<lambda>_. []), fg_hash_size = n, fg_this = None, fg_timers = [], fg_next = 0,
     fg_warnings = 0, fg_panic = False\<rparr>"

end
