(* ===== verification/IpFragmentInv.thy ===== *)
theory IpFragmentInv
  imports IpFragment
begin

text \<open>
  What the reassembly of IP fragments keeps: the fragments of a datagram are in order, a host is
  charged exactly for what it holds, within a limit, and every timer is for a queue that there is.
\<close>

section \<open>The table of hosts as a map\<close>

lemma find_filter: "(\<And>x. P x \<Longrightarrow> Q x) \<Longrightarrow> find P (filter Q xs) = find P xs"
  by (induction xs) auto

lemma host_of_ip: "host_of s a = Some h \<Longrightarrow> hf_ip h = a"
  by (auto simp: host_of_def find_Some_iff)

lemma frag_fields [simp]:
  "fg_timers (on_host a f s) = fg_timers s" "fg_this (on_host a f s) = fg_this s" "fg_next (on_host a f s) = fg_next s"
  "fg_panic (on_host a f s) = fg_panic s" "fg_hash_size (on_host a f s) = fg_hash_size s"
  "fg_timers (on_this f s) = fg_timers s" "fg_this (on_this f s) = fg_this s" "fg_next (on_this f s) = fg_next s"
  "fg_panic (on_this f s) = fg_panic s" "fg_timers (rmthis_host s) = fg_timers s" "fg_next (rmthis_host s) = fg_next s"
  "fg_panic (rmthis_host s) = fg_panic s" "fg_this (rmthis_host s) = None"
  "fg_timers (hostfrag_create p s) = fg_timers s" "fg_next (hostfrag_create p s) = fg_next s"
  "fg_panic (hostfrag_create p s) = fg_panic s" "fg_this (hostfrag_create p s) = Some (ip_dst p)"
  "fg_table (del_timer q s) = fg_table s" "fg_next (del_timer q s) = fg_next s" "fg_panic (del_timer q s) = fg_panic s"
  "fg_this (del_timer q s) = fg_this s" "fg_table (add_timer q s) = fg_table s" "fg_next (add_timer q s) = fg_next s"
  "fg_panic (add_timer q s) = fg_panic s" "fg_this (add_timer q s) = fg_this s"
  by (simp_all add: on_host_def on_this_def rmthis_host_def hostfrag_create_def Let_def del_timer_def add_timer_def
      split: option.split)

lemma host_of_fields [simp]:
  "host_of (s\<lparr>fg_this := t\<rparr>) a = host_of s a" "host_of (s\<lparr>fg_timers := ts\<rparr>) a = host_of s a"
  "host_of (s\<lparr>fg_next := n\<rparr>) a = host_of s a" "host_of (s\<lparr>fg_warnings := w\<rparr>) a = host_of s a"
  "host_of (del_timer q s) a = host_of s a" "host_of (add_timer q s) a = host_of s a"
  by (simp_all add: host_of_def frag_index_def del_timer_def add_timer_def split: option.split)

lemma host_of_on_host:
  assumes "\<And>h. hf_ip (f h) = hf_ip h"
  shows "host_of (on_host a f s) b = (if b = a then map_option f (host_of s a) else host_of s b)"
proof -
  let ?g = "\<lambda>h. if hf_ip h = a then f h else h"
  have g: "find (\<lambda>h. hf_ip h = b) (map ?g hs) =
      (if b = a then map_option f (find (\<lambda>h. hf_ip h = a) hs) else find (\<lambda>h. hf_ip h = b) hs)" for hs
    by (induction hs) (auto simp: assms)
  have i: "frag_index (on_host a f s) c = frag_index s c" for c by (simp add: frag_index_def)
  show ?thesis
  proof (cases "frag_index s b = frag_index s a")
    case True
    then have "fg_table (on_host a f s) (frag_index s b) = map ?g (fg_table s (frag_index s b))" by (simp add: on_host_def)
    then show ?thesis unfolding host_of_def i using g [of "fg_table s (frag_index s b)"] True by auto
  next
    case False
    then have "b \<noteq> a" "fg_table (on_host a f s) (frag_index s b) = fg_table s (frag_index s b)" by (auto simp: on_host_def)
    then show ?thesis unfolding host_of_def i by simp
  qed
qed

lemma host_of_on_this:
  "(\<And>h. hf_ip (f h) = hf_ip h) \<Longrightarrow>
   host_of (on_this f s) b = (if fg_this s = Some b then map_option f (host_of s b) else host_of s b)"
  by (simp add: on_this_def host_of_on_host split: option.split)

lemma host_of_create:
  "host_of (hostfrag_create p s) b =
     (if b = ip_dst p then Some \<lparr>hf_ip = ip_dst p, hf_ipqueue = [], hf_mem = 0\<rparr> else host_of s b)"
  by (auto simp: host_of_def hostfrag_create_def Let_def frag_index_def)

lemma host_of_rmthis:
  "host_of (rmthis_host s) b = (if fg_this s = Some b then None else host_of s b)"
  by (auto simp: host_of_def rmthis_host_def frag_index_def find_filter find_None_iff split: option.split)

text \<open>No address is twice in the table, so pointers to hosts are their addresses.\<close>

definition table_ok :: "frag_state \<Rightarrow> bool" where
  "table_ok s \<longleftrightarrow> (\<forall>k. distinct (map hf_ip (fg_table s k)))"

lemma table_ok_simps:
  assumes "table_ok s"
  shows "(\<And>h. hf_ip (f h) = hf_ip h) \<Longrightarrow> table_ok (on_this f s)"
    "host_of s (ip_dst p) = None \<Longrightarrow> table_ok (hostfrag_create p s)"
    "table_ok (rmthis_host s)" "table_ok (del_timer q s)" "table_ok (add_timer q s)"
  using assms
proof -
  show "table_ok (on_this f s)" if f: "\<And>h. hf_ip (f h) = hf_ip h"
  proof -
    have "hf_ip \<circ> (\<lambda>h. if hf_ip h = a then f h else h) = hf_ip" for a by (auto simp: fun_eq_iff f)
    with assms show ?thesis by (simp add: table_ok_def on_this_def on_host_def split: option.split)
  qed
qed (auto simp: table_ok_def hostfrag_create_def Let_def host_of_def find_None_iff rmthis_host_def
    distinct_map_filter split: option.split)

lemma this_host_simps:
  "fg_this s = Some a \<Longrightarrow> this_host s = host_of s a" "fg_this s = None \<Longrightarrow> this_host s = None"
  by (simp_all add: this_host_def)

section \<open>Fragments in order\<close>

text \<open>Every fragment starts behind the places of those before it.\<close>

fun chain_from :: "int \<Rightarrow> ipfrag list \<Rightarrow> bool" where
  "chain_from lo [] \<longleftrightarrow> True"
| "chain_from lo (f # fs) \<longleftrightarrow> lo \<le> fr_offset f \<and> fr_end f = fr_offset f + fr_len f \<and> 0 \<le> fr_truesize f \<and>
     chain_from (max (fr_offset f) (fr_end f)) fs"

definition reach :: "int \<Rightarrow> ipfrag list \<Rightarrow> int" where
  "reach lo fs = (if fs = [] then lo else max (fr_offset (last fs)) (fr_end (last fs)))"

lemma chain_from_append:
  "chain_from lo (xs @ ys) \<longleftrightarrow> chain_from lo xs \<and> chain_from (reach lo xs) ys"
  by (induction xs arbitrary: lo) (auto simp: reach_def)

lemma chain_from_mono: "chain_from lo fs \<Longrightarrow> lo' \<le> lo \<Longrightarrow> chain_from lo' fs"
  by (cases fs) auto

lemma chain_from_hd: "chain_from lo fs \<Longrightarrow> (fs \<noteq> [] \<Longrightarrow> lo' \<le> fr_offset (hd fs)) \<Longrightarrow> chain_from lo' fs"
  by (cases fs) auto

lemma trim_next_kept:
  "chain_from e ts \<Longrightarrow> trim_next e kept ts w freed = (kept @ ts, w, freed)"
  by (cases ts) auto

definition charge :: "ipfrag list \<Rightarrow> int" where
  "charge fs = sum_list (map frag_charge fs)"

lemma charge_simps [simp]: "charge [] = 0" "charge (f # fs) = frag_charge f + charge fs" "charge (xs @ ys) = charge xs + charge ys"
  by (simp_all add: charge_def)

lemma trim_next_chain:
  assumes "chain_from lo ts" "trim_next e [] ts w freed = (ts', w', freed')"
  shows "chain_from (max lo e) ts' \<and> charge ts' = charge ts + freed - freed' \<and> freed \<le> freed'"
  using assms
proof (induction ts arbitrary: lo w freed)
  case (Cons t ts)
  show ?case
  proof (cases "fr_offset t \<ge> e")
    case False
    define t' where "t' = t\<lparr>fr_len := fr_len t - (e - fr_offset t), fr_offset := e, fr_ptr := fr_ptr t + (e - fr_offset t)\<rparr>"
    have ch: "chain_from (max (fr_offset t) (fr_end t)) ts"
      and c: "lo \<le> fr_offset t" "fr_end t = fr_offset t + fr_len t" "0 \<le> fr_truesize t"
      using Cons.prems(1) unfolding chain_from.simps by blast+
    show ?thesis
    proof (cases "fr_len t' \<le> 0")
      case True
      then have "trim_next e [] ts (w + 1) (freed + frag_charge t) = (ts', w', freed')"
        using Cons.prems(2) False by (simp add: t'_def Let_def)
      moreover have "chain_from lo ts" by (rule chain_from_mono [OF ch]) (use c in simp)
      ultimately show ?thesis using Cons.IH [of lo] c(3) by (fastforce simp: frag_charge_def IPFRAG_SIZE_def)
    next
      case False
      then have e: "e < fr_end t" using c by (simp add: t'_def)
      have "chain_from e ts" by (rule chain_from_mono [OF ch]) (use e in simp)
      then have "ts' = t' # ts \<and> freed' = freed"
        using Cons.prems(2) False \<open>\<not> fr_offset t \<ge> e\<close> trim_next_kept [of e ts "[t']"] by (simp add: t'_def Let_def)
      then show ?thesis
        using c e ch \<open>\<not> fr_offset t \<ge> e\<close> by (auto simp: t'_def frag_charge_def max_def)
    qed
  qed (use Cons.prems in auto)
qed simp

lemma insert_frag_chain:
  assumes "chain_from 0 fs" "0 \<le> offset" "0 \<le> truesize" "insert_frag offset e skb ptr truesize fs = (fs', w, freed)"
  shows "chain_from 0 fs' \<and> charge fs' = charge fs + (truesize + IPFRAG_SIZE) - freed \<and> 0 \<le> freed"
proof -
  define front where "front = takeWhile (\<lambda>f. \<not> fr_offset f \<ge> offset) fs"
  define rest where "rest = dropWhile (\<lambda>f. \<not> fr_offset f \<ge> offset) fs"
  define i where "i = (if front \<noteq> [] \<and> offset < fr_end (last front) then fr_end (last front) - offset else 0)"
  define new where "new = \<lparr>fr_offset = offset + i, fr_end = e, fr_len = e - (offset + i), fr_skb = skb, fr_ptr = ptr + i,
                 fr_truesize = truesize\<rparr>"
  obtain rest' where r: "trim_next e [] rest (if i = 0 then 0 else 1) 0 = (rest', w, freed)" "fs' = front @ new # rest'"
    using assms(4) unfolding insert_frag_def Let_def front_def [symmetric] rest_def [symmetric] i_def [symmetric] new_def
    by (auto split: prod.splits)
  have fs: "fs = front @ rest" by (simp add: front_def rest_def)
  have ch: "chain_from 0 front" "chain_from (reach 0 front) rest" using assms(1) by (simp_all add: fs chain_from_append)
  have hd: "rest \<noteq> [] \<Longrightarrow> offset \<le> fr_offset (hd rest)" using hd_dropWhile [of "\<lambda>f. \<not> fr_offset f \<ge> offset" fs] by (simp add: rest_def)
  have last: "front \<noteq> [] \<Longrightarrow> fr_offset (last front) < offset" using set_takeWhileD [of "last front"] unfolding front_def
    by (metis last_in_set linorder_not_le)
  have lo: "reach 0 front \<le> offset + i" using assms(2) last by (auto simp: reach_def i_def)
  have "chain_from (offset + i) rest"
    using ch(2) hd last by (cases rest) (auto simp: i_def reach_def split: if_splits)
  from trim_next_chain [OF this r(1)] have "chain_from (max (offset + i) e) rest'" "charge rest' = charge rest - freed" "0 \<le> freed" by auto
  then show ?thesis
    using ch(1) lo assms(3) unfolding r(2) by (simp add: chain_from_append fs new_def frag_charge_def)
qed

section \<open>The invariant\<close>

definition host_ok :: "nat \<Rightarrow> hostfrags \<Rightarrow> bool" where
  "host_ok n h \<longleftrightarrow> hf_mem h = sum_list (map queue_charge (hf_ipqueue h)) \<and> distinct (map iq_no (hf_ipqueue h)) \<and>
     (\<forall>q \<in> set (hf_ipqueue h). iq_no q < n \<and> chain_from 0 (iq_fragments q))"

text \<open>The live queues, by the address of their host and their own. \<open>X\<close> are those whose timer is stopped.\<close>

definition queue_nos :: "hostfrags option \<Rightarrow> nat set" where
  "queue_nos h = (case h of None \<Rightarrow> {} | Some h \<Rightarrow> iq_no ` set (hf_ipqueue h))"

definition live_queues :: "frag_state \<Rightarrow> (u32 \<times> nat) set" where
  "live_queues s = (SIGMA a : UNIV. queue_nos (host_of s a))"

definition frag_inv :: "int \<Rightarrow> nat set \<Rightarrow> frag_state \<Rightarrow> bool" where
  "frag_inv M X s \<longleftrightarrow> table_ok s \<and> \<not> fg_panic s \<and>
     (\<forall>a h. host_of s a = Some h \<longrightarrow> host_ok (fg_next s) h \<and> hf_mem h \<le> M) \<and>
     inj_on snd (live_queues s) \<and>
     distinct (map snd (fg_timers s)) \<and> set (fg_timers s) = {t \<in> live_queues s. snd t \<notin> X}"

lemma frag_invD:
  assumes "frag_inv M X s"
  shows "table_ok s" "\<not> fg_panic s" "host_of s a = Some h \<Longrightarrow> host_ok (fg_next s) h" "host_of s a = Some h \<Longrightarrow> hf_mem h \<le> M"
    "inj_on snd (live_queues s)" "distinct (map snd (fg_timers s))" "set (fg_timers s) = {t \<in> live_queues s. snd t \<notin> X}"
  using assms by (simp_all add: frag_inv_def)

lemma frag_invI:
  assumes "table_ok s" "\<not> fg_panic s" "\<And>a h. host_of s a = Some h \<Longrightarrow> host_ok (fg_next s) h"
    "\<And>a h. host_of s a = Some h \<Longrightarrow> hf_mem h \<le> M" "inj_on snd (live_queues s)" "distinct (map snd (fg_timers s))"
    "set (fg_timers s) = {t \<in> live_queues s. snd t \<notin> X}"
  shows "frag_inv M X s"
  using assms by (simp add: frag_inv_def)

lemma sum_list_split:
  assumes "distinct (map iq_no qs)" "q \<in> set qs"
  shows "sum_list (map c qs) = c q + sum_list (map (c :: ipq \<Rightarrow> int) (filter (\<lambda>p. iq_no p \<noteq> iq_no q) qs))"
  using assms
proof (induction qs)
  case (Cons p qs)
  show ?case
  proof (cases "p = q")
    case True
    then have "\<forall>r \<in> set qs. iq_no r \<noteq> iq_no q" using Cons.prems by (force simp: image_iff)
    then have "filter (\<lambda>r. iq_no r \<noteq> iq_no q) qs = qs" by (simp add: filter_id_conv)
    with True show ?thesis by simp
  next
    case False
    then have "iq_no p \<noteq> iq_no q" "q \<in> set qs" using Cons.prems by auto
    with Cons show ?thesis by simp
  qed
qed simp

lemma sum_list_upd:
  assumes "distinct (map iq_no qs)" "q \<in> set qs" "iq_no q' = iq_no q"
  shows "sum_list (map c (map (\<lambda>p. if iq_no p = iq_no q then q' else p) qs)) = sum_list (map (c :: ipq \<Rightarrow> int) qs) - c q + c q'"
proof -
  let ?u = "\<lambda>p. if iq_no p = iq_no q then q' else p"
  have no: "iq_no (?u p) = iq_no p" for p by (simp add: assms(3))
  have "distinct (map iq_no (map ?u qs))" using assms(1) by (simp add: comp_def no)
  moreover have "q' \<in> set (map ?u qs)" using assms(2) by force
  moreover have "filter (\<lambda>p. iq_no p \<noteq> iq_no q) (map ?u qs) = filter (\<lambda>p. iq_no p \<noteq> iq_no q) qs"
    by (induction qs) (auto simp: assms(3))
  ultimately show ?thesis
    using sum_list_split [OF assms(1,2), of c] sum_list_split [of "map ?u qs" q' c] assms(3) by simp
qed

text \<open>What freeing a queue does to the hosts.\<close>

lemma ip_free_hosts:
  assumes "fg_this s = Some a" "host_of s a = Some h"
  shows "host_of (ip_free q s) b =
      (let qs = filter (\<lambda>p. iq_no p \<noteq> iq_no q) (hf_ipqueue h) in
       if b = a then if qs = [] then None else Some (h\<lparr>hf_ipqueue := qs, hf_mem := hf_mem h - queue_charge q\<rparr>)
       else host_of s b)"
    "fg_this (ip_free q s) = (if filter (\<lambda>p. iq_no p \<noteq> iq_no q) (hf_ipqueue h) = [] then None else Some a)"
    "fg_timers (ip_free q s) = filter (\<lambda>t. snd t \<noteq> iq_no q) (fg_timers s)"
    "fg_next (ip_free q s) = fg_next s" "fg_panic (ip_free q s) = fg_panic s"
  using assms
  by (simp_all add: ip_free_def Let_def this_host_simps host_of_on_this host_of_rmthis atomic_add_def)
    (auto simp: del_timer_def)

lemma ip_free_table: "table_ok s \<Longrightarrow> table_ok (ip_free q s)"
  by (auto simp: ip_free_def Let_def atomic_add_def intro!: table_ok_simps split: option.split)

lemma live_queuesI: "host_of s a = Some h \<Longrightarrow> q \<in> set (hf_ipqueue h) \<Longrightarrow> (a, iq_no q) \<in> live_queues s"
  by (auto simp: live_queues_def queue_nos_def)

lemma live_queue_host:
  assumes "frag_inv M X s" "host_of s a = Some h" "q \<in> set (hf_ipqueue h)" "(b, iq_no q) \<in> live_queues s"
  shows "b = a"
proof -
  have "(a, iq_no q) \<in> live_queues s" using assms(2,3) by (auto simp: live_queues_def queue_nos_def)
  with assms(1,4) show ?thesis
    using inj_onD [of snd "live_queues s" "(b, iq_no q)" "(a, iq_no q)"] by (simp add: frag_inv_def)
qed

lemma live_queues_ip_free:
  assumes "frag_inv M X s" "fg_this s = Some a" "host_of s a = Some h" "q \<in> set (hf_ipqueue h)"
  shows "live_queues (ip_free q s) = {t \<in> live_queues s. snd t \<noteq> iq_no q}"
proof -
  have "queue_nos (host_of (ip_free q s) b) = queue_nos (host_of s b) - {iq_no q}" for b
  proof (cases "b = a")
    case True
    have "queue_nos (host_of (ip_free q s) a) = iq_no ` set (filter (\<lambda>p. iq_no p \<noteq> iq_no q) (hf_ipqueue h))"
      unfolding ip_free_hosts(1) [OF assms(2,3)] Let_def by (simp add: queue_nos_def filter_empty_conv)
    with True assms(3) show ?thesis by (auto simp: queue_nos_def)
  next
    case False
    have "iq_no q \<notin> queue_nos (host_of s b)"
      using live_queue_host [OF assms(1,3,4), of b] False by (auto simp: live_queues_def)
    with False show ?thesis unfolding ip_free_hosts(1) [OF assms(2,3)] Let_def by simp
  qed
  then show ?thesis by (auto simp: live_queues_def)
qed

lemma ip_free_inv:
  assumes "frag_inv M X s" "fg_this s = Some a" "host_of s a = Some h" "q \<in> set (hf_ipqueue h)"
  shows "frag_inv M (X - {iq_no q}) (ip_free q s)"
proof -
  let ?s = "ip_free q s" and ?qs = "filter (\<lambda>p. iq_no p \<noteq> iq_no q) (hf_ipqueue h)"
  note hosts = ip_free_hosts [OF assms(2,3), of q] and lq = live_queues_ip_free [OF assms]
  have h: "host_ok (fg_next s) h" "hf_mem h \<le> M" using assms(1,3) by (simp_all add: frag_inv_def)
  have ch: "chain_from lo fs \<Longrightarrow> 0 \<le> sum_list (map frag_charge fs)" for lo fs
    by (induction fs arbitrary: lo) (auto simp: frag_charge_def IPFRAG_SIZE_def)
  then have "0 \<le> queue_charge q"
    using h(1) assms(4) by (auto simp: host_ok_def queue_charge_def IPH_SIZE_def IPQ_SIZE_def)
  moreover have "host_ok (fg_next s) (h\<lparr>hf_ipqueue := ?qs, hf_mem := hf_mem h - queue_charge q\<rparr>)"
    using h(1) sum_list_split [of "hf_ipqueue h" q queue_charge] assms(4)
    by (auto simp: host_ok_def distinct_map_filter)
  ultimately have "host_ok (fg_next ?s) h' \<and> hf_mem h' \<le> M" if "host_of ?s b = Some h'" for b h'
    using that assms(1) h(2) unfolding hosts Let_def by (auto simp: frag_inv_def split: if_splits)
  moreover have "inj_on snd (live_queues ?s)" unfolding lq
    using assms(1) by (auto simp: frag_inv_def intro: inj_on_subset)
  moreover have "distinct (map snd (fg_timers ?s))" "set (fg_timers ?s) = {t \<in> live_queues ?s. snd t \<notin> X - {iq_no q}}"
    using assms(1) unfolding lq hosts(3) by (auto simp: frag_inv_def distinct_map_filter)
  ultimately show ?thesis
    using assms(1) ip_free_table [of s q] unfolding frag_inv_def hosts(5) by blast
qed

text \<open>Where \<open>this_host\<close> points: to the host of \<open>a\<close>, if there is one.\<close>

definition at_host :: "u32 \<Rightarrow> frag_state \<Rightarrow> bool" where
  "at_host a s \<longleftrightarrow> (if host_of s a = None then fg_this s = None else fg_this s = Some a)"

lemma at_host_cases:
  assumes "at_host a s"
  obtains (none) "fg_this s = None" "host_of s a = None" "this_host s = None"
    | (some) h where "fg_this s = Some a" "host_of s a = Some h" "this_host s = Some h"
  using assms by (cases "host_of s a") (simp_all add: at_host_def this_host_def)

lemma ip_free_at:
  "fg_this s = Some a \<Longrightarrow> host_of s a = Some h \<Longrightarrow> at_host a (ip_free q s)"
  by (simp add: at_host_def ip_free_hosts Let_def)

lemma ip_evictor_inv:
  assumes "frag_inv M {} s" "at_host a s" "\<And>h. host_of s a = Some h \<Longrightarrow> length (hf_ipqueue h) < n"
  shows "frag_inv M {} (ip_evictor n s) \<and> at_host a (ip_evictor n s) \<and>
    (\<forall>h. host_of (ip_evictor n s) a = Some h \<longrightarrow> hf_mem h \<le> IPFRAG_LOW_THRESH)"
  using assms
proof (induction n arbitrary: s)
  case (Suc n)
  from Suc.prems(2) show ?case
  proof (cases rule: at_host_cases)
    case (some h)
    show ?thesis
    proof (cases "hf_mem h > IPFRAG_LOW_THRESH")
      case True
      have ok: "host_ok (fg_next s) h" using Suc.prems(1) some by (simp add: frag_inv_def)
      obtain q qs where q: "hf_ipqueue h = q # qs"
        using True ok by (cases "hf_ipqueue h") (auto simp: host_ok_def IPFRAG_LOW_THRESH_def)
      have "filter (\<lambda>p. iq_no p \<noteq> iq_no q) (q # qs) = qs"
        using ok q by (auto simp: host_ok_def filter_id_conv image_iff)
      then have "length (hf_ipqueue h') < n" if "host_of (ip_free q s) a = Some h'" for h'
        using that Suc.prems(3) [OF some(2)] q ip_free_hosts(1) [OF some(1,2), of q a] by (auto simp: Let_def split: if_splits)
      with Suc.IH [of "ip_free q s"] ip_free_inv [OF Suc.prems(1) some(1,2), of q] ip_free_at [OF some(1,2), of q] q
      show ?thesis using some True by simp
    qed (use Suc.prems some in simp)
  qed (use Suc.prems in simp)
qed (auto simp: at_host_def)

lemma del_timer_inv: "frag_inv M X s \<Longrightarrow> frag_inv M (insert n X) (del_timer n s)"
  by (auto simp: frag_inv_def live_queues_def table_ok_simps del_timer_def [of n s] distinct_map_filter table_ok_def)

lemma add_timer_inv:
  assumes "frag_inv M (insert n X) s" "fg_this s = Some a" "(a, n) \<in> live_queues s" "n \<notin> X"
  shows "frag_inv M X (add_timer n s)"
proof -
  have lq: "live_queues (add_timer n s) = live_queues s" by (simp add: live_queues_def)
  have tm: "fg_timers (add_timer n s) = fg_timers s @ [(a, n)]" using assms(2) by (simp add: add_timer_def)
  have "b = a" if "(b, n) \<in> live_queues s" for b
    using assms(1,3) inj_onD [of snd "live_queues s" "(b, n)" "(a, n)"] that by (simp add: frag_inv_def)
  then have "{t \<in> live_queues s. snd t \<notin> X} = insert (a, n) {t \<in> live_queues s. snd t \<notin> insert n X}"
    using assms(3,4) by (intro set_eqI) (metis (no_types, lifting) insert_iff mem_Collect_eq prod.collapse snd_conv)
  moreover note ts = frag_invD(6,7) [OF assms(1)]
  moreover have "n \<notin> snd ` set (fg_timers s)" unfolding ts(2) by auto
  ultimately have tms: "distinct (map snd (fg_timers (add_timer n s)))"
    "set (fg_timers (add_timer n s)) = {t \<in> live_queues (add_timer n s). snd t \<notin> X}"
    unfolding tm lq by simp_all
  show ?thesis
    by (rule frag_invI [OF _ _ _ _ _ tms]) (use frag_invD(1-5) [OF assms(1)] in \<open>simp_all add: table_ok_simps lq\<close>)
qed

text \<open>Changing a host without touching the numbers of its queues.\<close>

lemma frag_inv_host:
  assumes "frag_inv M X s" "host_of s a = Some h" "host_ok (fg_next s) h'" "hf_mem h' \<le> M"
    "iq_no ` set (hf_ipqueue h') = iq_no ` set (hf_ipqueue h)"
    "\<And>b. host_of s' b = (if b = a then Some h' else host_of s b)" "table_ok s'"
    "fg_timers s' = fg_timers s" "fg_next s' = fg_next s" "fg_panic s' = fg_panic s"
  shows "frag_inv M X s'"
proof -
  have "queue_nos (host_of s' b) = queue_nos (host_of s b)" for b
    using assms(2,5) by (simp add: assms(6) queue_nos_def)
  then have "live_queues s' = live_queues s" by (simp add: live_queues_def)
  with assms show ?thesis by (auto simp: frag_inv_def)
qed

lemma frag_inv_fields [simp]:
  "frag_inv M X (s\<lparr>fg_warnings := w\<rparr>) = frag_inv M X s" "frag_inv M X (s\<lparr>fg_this := t\<rparr>) = frag_inv M X s"
  by (simp_all add: frag_inv_def live_queues_def table_ok_def)

lemma table_ok_next: "table_ok (s\<lparr>fg_next := n\<rparr>) = table_ok s"
  by (simp add: table_ok_def)

text \<open>A queue of \<open>this_host\<close> is replaced and the account follows.\<close>

lemma account_inv:
  assumes "frag_inv M X s" "fg_this s = Some a" "host_of s a = Some h" "q \<in> set (hf_ipqueue h)" "iq_no q' = iq_no q"
    "chain_from 0 (iq_fragments q')" "hf_mem h + (queue_charge q' - queue_charge q) \<le> M"
  defines "h' \<equiv> h\<lparr>hf_ipqueue := map (\<lambda>p. if iq_no p = iq_no q then q' else p) (hf_ipqueue h),
    hf_mem := hf_mem h + (queue_charge q' - queue_charge q)\<rparr>"
  shows "frag_inv M X (atomic_add (queue_charge q' - queue_charge q) (upd_queue (iq_no q) (\<lambda>_. q') s))"
    "host_of (atomic_add (queue_charge q' - queue_charge q) (upd_queue (iq_no q) (\<lambda>_. q') s)) a = Some h'"
    "q' \<in> set (hf_ipqueue h')"
proof -
  let ?s = "atomic_add (queue_charge q' - queue_charge q) (upd_queue (iq_no q) (\<lambda>_. q') s)"
  have hosts: "host_of ?s b = (if b = a then Some h' else host_of s b)" for b
    using assms(2,3) by (simp add: atomic_add_def upd_queue_def host_of_on_this h'_def)
  then show "host_of ?s a = Some h'" by simp
  have no: "map iq_no (hf_ipqueue h') = map iq_no (hf_ipqueue h)" using assms(5) by (simp add: h'_def comp_def)
  have ok: "host_ok (fg_next s) h" using assms(1,3) by (rule frag_invD)
  then have "host_ok (fg_next s) h'"
    using sum_list_upd [of "hf_ipqueue h" q q' queue_charge] assms(4-6) no
    by (auto simp: host_ok_def) (auto simp: h'_def)
  moreover have "iq_no ` set (hf_ipqueue h') = iq_no ` set (hf_ipqueue h)" using no by (metis set_map)
  moreover have "table_ok ?s" using frag_invD(1) [OF assms(1)] by (simp add: atomic_add_def upd_queue_def table_ok_simps)
  ultimately show "frag_inv M X ?s"
    using assms(7) hosts by (intro frag_inv_host [OF assms(1,3)]) (simp_all add: h'_def atomic_add_def upd_queue_def)
  show "q' \<in> set (hf_ipqueue h')" using assms(4) by (force simp: h'_def)
qed

lemma queue_charge_charge: "queue_charge q = charge (iq_fragments q) + 168"
  by (simp add: queue_charge_def charge_def IPH_SIZE_def IPQ_SIZE_def)

lemma ip_create_inv:
  assumes "frag_inv M {} s" "fg_this s = Some a" "host_of s a = Some h" "hf_mem h + 168 \<le> M" "ip_create now p s = (q, s')"
  shows "frag_inv M {} s'" "host_of s' a = Some (h\<lparr>hf_ipqueue := q # hf_ipqueue h, hf_mem := hf_mem h + 168\<rparr>)"
    "fg_this s' = Some a" "iq_fragments q = []"
proof -
  let ?h = "h\<lparr>hf_ipqueue := q # hf_ipqueue h, hf_mem := hf_mem h + 168\<rparr>"
  have q: "iq_no q = fg_next s" "iq_fragments q = []"
    and s': "s' = (on_this (\<lambda>h. h\<lparr>hf_ipqueue := q # hf_ipqueue h\<rparr>)
      (add_timer (fg_next s) (atomic_add IPH_SIZE (atomic_add IPQ_SIZE s))))\<lparr>fg_next := fg_next s + 1\<rparr>"
    using assms(5) by (auto simp: ip_create_def Let_def)
  show "iq_fragments q = []" "fg_this s' = Some a" using q s' assms(2) by (simp_all add: atomic_add_def)
  have hosts: "host_of s' b = (if b = a then Some ?h else host_of s b)" for b
    using assms(2,3) by (simp add: s' atomic_add_def host_of_on_this IPH_SIZE_def IPQ_SIZE_def)
  then show "host_of s' a = Some ?h" by simp
  have ok: "host_ok (fg_next s) h" using assms(1,3) by (rule frag_invD)
  have less: "m < fg_next s" if "(b, m) \<in> live_queues s" for b m
    using that frag_invD(3) [OF assms(1), of b]
    by (auto simp: live_queues_def queue_nos_def host_ok_def split: option.splits)
  have fresh: "(b, fg_next s) \<notin> live_queues s" for b using less [of b "fg_next s"] by auto
  have lq: "live_queues s' = insert (a, fg_next s) (live_queues s)"
    using assms(3) by (auto simp: live_queues_def hosts queue_nos_def q(1) split: if_splits)
  have tm: "fg_timers s' = fg_timers s @ [(a, fg_next s)]"
    using assms(2) by (simp add: s' add_timer_def atomic_add_def)
  show "frag_inv M {} s'"
  proof (rule frag_invI)
    show "table_ok s'" using frag_invD(1) [OF assms(1)]
      by (simp add: s' atomic_add_def table_ok_simps table_ok_next)
    show "\<not> fg_panic s'" using frag_invD(2) [OF assms(1)] by (simp add: s' atomic_add_def)
    have "fg_next s' = fg_next s + 1" by (simp add: s')
    moreover have "host_ok (fg_next s + 1) ?h"
      using ok q by (auto simp: host_ok_def queue_charge_def IPH_SIZE_def IPQ_SIZE_def)
    moreover have "host_ok (fg_next s + 1) h'" if "host_ok (fg_next s) h'" for h'
      using that by (auto simp: host_ok_def less_Suc_eq)
    ultimately show "host_of s' b = Some h' \<Longrightarrow> host_ok (fg_next s') h'" for b h'
      using frag_invD(3) [OF assms(1), of b h'] by (auto simp: hosts split: if_splits)
    show "host_of s' b = Some h' \<Longrightarrow> hf_mem h' \<le> M" for b h'
      using frag_invD(4) [OF assms(1), of b h'] assms(4) by (auto simp: hosts split: if_splits)
    show "inj_on snd (live_queues s')"
      unfolding lq using frag_invD(5) [OF assms(1)] fresh by (auto simp: inj_on_insert)
    show "distinct (map snd (fg_timers s'))" "set (fg_timers s') = {t \<in> live_queues s'. snd t \<notin> {}}"
      unfolding tm lq using frag_invD(6,7) [OF assms(1)] fresh by auto
  qed
qed

lemma ip_glue_inv:
  assumes "frag_inv M X s" "fg_this s = Some a" "host_of s a = Some h" "q \<in> set (hf_ipqueue h)"
  shows "frag_inv M (X - {iq_no q}) (snd (ip_glue q s))"
proof -
  have "frag_inv M (X - {iq_no q}) (ip_free q s)" "frag_inv M (X - {iq_no q}) (ip_free q (frag_warn s))"
    using assms by (auto simp: frag_warn_def intro!: ip_free_inv)
  then show ?thesis by (simp add: ip_glue_def Let_def split: option.split)
qed

lemma ip_enter_inv:
  assumes "frag_inv M {} s" "fg_this s = Some a" "host_of s a = Some h" "q \<in> set (hf_ipqueue h)" "0 \<le> truesize"
    "hf_mem h + (truesize + IPFRAG_SIZE) \<le> M"
  shows "frag_inv M {} (snd (ip_enter skb truesize q s))"
proof -
  let ?off = "int (unat (ip_off skb AND IP_OFFSET)) * 8"
  let ?e = "?off + int (unat (ip_len skb)) - int (ip_hl skb * 4)"
  obtain fs w freed where i: "insert_frag ?off ?e skb (int (ip_hl skb * 4)) truesize (iq_fragments q) = (fs, w, freed)"
    by (metis prod_cases3)
  define q1 where "q1 = q\<lparr>iq_len := (if ip_off skb AND IP_MF = 0 then ?e else iq_len q), iq_fragments := fs\<rparr>"
  have "chain_from 0 (iq_fragments q)" using frag_invD(3) [OF assms(1,3)] assms(4) by (simp add: host_ok_def)
  from insert_frag_chain [OF this _ assms(5) i] have fs: "chain_from 0 fs" "0 \<le> freed"
    "charge fs = charge (iq_fragments q) + (truesize + IPFRAG_SIZE) - freed" by auto
  then have d: "truesize + IPFRAG_SIZE - freed = queue_charge q1 - queue_charge q"
    by (simp add: queue_charge_charge q1_def)
  define s1 where "s1 = atomic_add (truesize + IPFRAG_SIZE - freed)
    ((upd_queue (iq_no q) (\<lambda>_. q1) s)\<lparr>fg_warnings := fg_warnings s + w\<rparr>)"
  have s1: "s1 = (atomic_add (queue_charge q1 - queue_charge q) (upd_queue (iq_no q) (\<lambda>_. q1) s))\<lparr>fg_warnings := fg_warnings s + w\<rparr>"
    unfolding s1_def d by (simp add: atomic_add_def on_this_def on_host_def upd_queue_def frag_index_def split: option.split)
  have m: "hf_mem h + (queue_charge q1 - queue_charge q) \<le> M" using assms(6) fs(2) unfolding d [symmetric] by simp
  have "iq_no q1 = iq_no q" "chain_from 0 (iq_fragments q1)" using fs(1) by (simp_all add: q1_def)
  note acc = account_inv [OF assms(1-4) this m]
  have inv1: "frag_inv M {} s1" using acc(1) by (simp add: s1)
  have "frag_inv M {} (snd (ip_glue q1 s1))"
    using ip_glue_inv [OF inv1, of a _ q1] acc(2,3) assms(2) by (simp add: s1 atomic_add_def upd_queue_def)
  with inv1 assms(1) show ?thesis
    unfolding ip_enter_def Let_def i prod.case q1_def [symmetric] s1_def [symmetric]
    by (simp add: frag_warn_def)
qed

definition frag_limit :: "int \<Rightarrow> int" where
  "frag_limit t = IPFRAG_HIGH_THRESH + IPH_SIZE + IPQ_SIZE + IPFRAG_SIZE + t"

lemma ip_find_spec:
  assumes "ip_find iph s = (qp, s')" "this_host s = Some h"
  shows "(qp = None \<and> s' = s) \<or> (\<exists>q. qp = Some q \<and> q \<in> set (hf_ipqueue h) \<and> s' = del_timer (iq_no q) s)"
  using assms by (auto simp: ip_find_def find_Some_iff split: option.splits)

lemma frag_fields_create [simp]: "fg_warnings (del_timer q s) = fg_warnings s" "fg_hash_size (del_timer q s) = fg_hash_size s"
  by (simp_all add: del_timer_def)

lemma hostfrag_create_inv:
  assumes "frag_inv M X s" "host_of s (ip_dst p) = None" "0 \<le> M"
  shows "frag_inv M X (hostfrag_create p s)"
proof -
  have lq: "live_queues (hostfrag_create p s) = live_queues s"
    using assms(2) by (auto simp: live_queues_def host_of_create queue_nos_def split: if_splits)
  show ?thesis
    by (rule frag_invI)
      (use frag_invD [OF assms(1)] assms(2,3) in
        \<open>auto simp: lq host_of_create host_ok_def table_ok_simps split: if_splits\<close>)
qed

lemma atomic_add_0 [simp]: "atomic_add 0 s = s"
proof -
  have "(\<lambda>h. if hf_ip h = a then h\<lparr>hf_mem := hf_mem h + 0\<rparr> else h) = id" for a by (auto simp: fun_eq_iff)
  then show ?thesis by (simp add: atomic_add_def on_this_def on_host_def split: option.split)
qed

text \<open>The queue of a further fragment: its timer starts again.\<close>

lemma restart_inv:
  assumes "frag_inv M {iq_no q} s" "fg_this s = Some a" "host_of s a = Some h" "q \<in> set (hf_ipqueue h)"
    "iq_no q2 = iq_no q" "iq_fragments q2 = iq_fragments q"
  defines "s' \<equiv> add_timer (iq_no q) (upd_queue (iq_no q) (\<lambda>_. q2) (del_timer (iq_no q) s))"
  shows "frag_inv M {} s' \<and> fg_this s' = Some a \<and>
    (\<exists>h'. host_of s' a = Some h' \<and> q2 \<in> set (hf_ipqueue h') \<and> hf_mem h' = hf_mem h)"
proof -
  let ?s = "del_timer (iq_no q) s" and ?u = "upd_queue (iq_no q) (\<lambda>_. q2) (del_timer (iq_no q) s)"
  have s: "frag_inv M {iq_no q} ?s" "fg_this ?s = Some a" "host_of ?s a = Some h"
    using del_timer_inv [OF assms(1), of "iq_no q"] assms(2,3) by simp_all
  have ch: "chain_from 0 (iq_fragments q2)" "queue_charge q2 = queue_charge q"
    using frag_invD(3) [OF assms(1,3)] assms(4,6) by (simp_all add: host_ok_def queue_charge_def)
  have "hf_mem h + (queue_charge q2 - queue_charge q) \<le> M" using frag_invD(4) [OF assms(1,3)] ch(2) by simp
  note acc = account_inv [OF s assms(4,5) ch(1) this, unfolded ch(2), simplified]
  obtain h' where h': "host_of ?u a = Some h'" "q2 \<in> set (hf_ipqueue h')" "hf_mem h' = hf_mem h"
    using acc(2,3) by simp
  have "(a, iq_no q) \<in> live_queues ?u" using live_queuesI [OF h'(1,2)] assms(5) by simp
  then have "frag_inv M {} s'" unfolding s'_def using acc(1) s(2)
    by (intro add_timer_inv [where a = a]) (simp_all add: upd_queue_def)
  with h' s(2) show ?thesis by (simp add: s'_def upd_queue_def)
qed

lemma hostfrag_find_at: "frag_inv M X s \<Longrightarrow> frag_inv M X (hostfrag_find p s) \<and> at_host (ip_dst p) (hostfrag_find p s)"
  by (auto simp: hostfrag_find_def at_host_def split: option.split)

lemma defrag_host_inv:
  fixes iph :: string
  assumes "frag_inv M {} s" "0 \<le> M \<or> truesize = None"
  defines "s' \<equiv> defrag_host iph truesize s"
  shows "frag_inv M {} s' \<and> at_host (ip_dst iph) s' \<and> (\<forall>h. host_of s' (ip_dst iph) = Some h \<longrightarrow> hf_mem h \<le> IPFRAG_HIGH_THRESH)"
proof -
  let ?a = "ip_dst iph"
  define s1 where "s1 = hostfrag_find iph s"
  define s2 where "s2 = (if this_host s1 = None \<and> truesize \<noteq> None then hostfrag_create iph s1 else s1)"
  have s': "s' = (case this_host s2 of None \<Rightarrow> s2
    | Some h \<Rightarrow> if hf_mem h > IPFRAG_HIGH_THRESH then ip_evictor (length (hf_ipqueue h) + 1) s2 else s2)"
    unfolding s'_def defrag_host_def Let_def s1_def [symmetric] s2_def [symmetric] ..
  have 1: "frag_inv M {} s1" "at_host ?a s1" using hostfrag_find_at [OF assms(1)] by (simp_all add: s1_def)
  have 2: "frag_inv M {} s2 \<and> at_host ?a s2"
    using 1(2) by (cases rule: at_host_cases)
      (use 1 assms(2) in \<open>auto simp: s2_def hostfrag_create_inv at_host_def host_of_create\<close>)
  show ?thesis
  proof (cases "this_host s2")
    case None
    then show ?thesis using 2 by (auto simp: s' elim!: at_host_cases)
  next
    case (Some h)
    then have "host_of s2 ?a = Some h" using 2 by (auto elim!: at_host_cases)
    moreover from this have "frag_inv M {} (ip_evictor (length (hf_ipqueue h) + 1) s2) \<and>
      at_host ?a (ip_evictor (length (hf_ipqueue h) + 1) s2) \<and>
      (\<forall>h'. host_of (ip_evictor (length (hf_ipqueue h) + 1) s2) ?a = Some h' \<longrightarrow> hf_mem h' \<le> IPFRAG_LOW_THRESH)"
      using 2 by (intro ip_evictor_inv) auto
    moreover have "IPFRAG_LOW_THRESH \<le> IPFRAG_HIGH_THRESH" by (simp add: IPFRAG_LOW_THRESH_def IPFRAG_HIGH_THRESH_def)
    ultimately show ?thesis
      using Some 2 by (cases "hf_mem h > IPFRAG_HIGH_THRESH") (auto simp: s')
  qed
qed

text \<open>A queue for the fragment, in the host, with room for the fragment.\<close>

lemma defrag_queue_inv:
  assumes "frag_inv M {} s" "at_host (ip_dst iph) s" "168 \<le> M"
    "\<And>h. host_of s (ip_dst iph) = Some h \<Longrightarrow> hf_mem h \<le> B" "0 \<le> B" "B + 168 \<le> M"
    "ip_find iph s = (qp, s1)" "defrag_queue now iph qp s1 = (q, s2)"
  shows "\<exists>h. frag_inv M {} s2 \<and> fg_this s2 = Some (ip_dst iph) \<and> host_of s2 (ip_dst iph) = Some h \<and>
    q \<in> set (hf_ipqueue h) \<and> hf_mem h \<le> B + 168"
  using assms(2)
proof (cases rule: at_host_cases)
  case none
  then have qp: "qp = None" "s1 = s" using assms(7) by (simp_all add: ip_find_def)
  then have "ip_create now iph (hostfrag_create iph s) = (q, s2)" using assms(8) none by (simp add: defrag_queue_def Let_def)
  moreover have "frag_inv M {} (hostfrag_create iph s)" using assms(1,3) none by (intro hostfrag_create_inv) auto
  ultimately show ?thesis
    using ip_create_inv [of M "hostfrag_create iph s" "ip_dst iph"] assms(3,5) by (simp add: host_of_create)
next
  case (some h)
  have mem: "hf_mem h \<le> B" using assms(4) some(2) by blast
  from ip_find_spec [OF assms(7) some(3)] consider (new) "qp = None" "s1 = s"
    | (old) p where "qp = Some p" "p \<in> set (hf_ipqueue h)" "s1 = del_timer (iq_no p) s" by blast
  then show ?thesis
  proof cases
    case new
    then have "ip_create now iph s = (q, s2)" using assms(8) some by (simp add: defrag_queue_def Let_def)
    then show ?thesis using ip_create_inv [OF assms(1) some(1,2)] mem assms(6) by (intro exI conjI) auto
  next
    case (old p)
    have 1: "frag_inv M {iq_no p} s1" "fg_this s1 = Some (ip_dst iph)" "host_of s1 (ip_dst iph) = Some h" "this_host s1 = Some h"
      using assms(1) some del_timer_inv [of M "{}" s "iq_no p"] by (simp_all add: old this_host_def)
    then have "restart_queue now iph p s1 = (q, s2)" using assms(8) old by (simp add: defrag_queue_def Let_def)
    then have q: "iq_no q = iq_no p" "iq_fragments q = iq_fragments p"
      "s2 = add_timer (iq_no p) (upd_queue (iq_no p) (\<lambda>_. q) (del_timer (iq_no p) s1))"
      by (auto simp: restart_queue_def Let_def)
    from restart_inv [OF 1(1-3) old(2) q(1,2)] mem show ?thesis unfolding q(3) by fastforce
  qed
qed

lemma ip_defrag_inv:
  assumes "frag_inv M {} s" "frag_limit T \<le> M"
    "case truesize of None \<Rightarrow> plain_packet iph | Some t \<Rightarrow> 0 \<le> t \<and> t \<le> T"
  shows "frag_inv M {} (snd (ip_defrag now iph truesize s))"
proof -
  let ?s = "defrag_host iph truesize s"
  have M: "0 \<le> M \<or> truesize = None" using assms(2,3)
    by (auto simp: frag_limit_def IPFRAG_HIGH_THRESH_def IPH_SIZE_def IPQ_SIZE_def IPFRAG_SIZE_def split: option.splits)
  note h = defrag_host_inv [OF assms(1) M, of iph]
  obtain qp s1 where find: "ip_find iph ?s = (qp, s1)" by fastforce
  obtain q s2 where q: "defrag_queue now iph qp s1 = (q, s2)" by fastforce
  show ?thesis
  proof (cases "plain_packet iph")
    case True
    have "frag_inv M {} (case qp of None \<Rightarrow> s1 | Some q \<Rightarrow> ip_free q s1)"
    proof (cases "this_host ?s")
      case None
      then show ?thesis using find h by (simp add: ip_find_def)
    next
      case (Some g)
      then have g: "fg_this ?s = Some (ip_dst iph)" "host_of ?s (ip_dst iph) = Some g"
        using h by (auto elim!: at_host_cases)
      from ip_find_spec [OF find Some] show ?thesis
      proof
        assume "\<exists>q. qp = Some q \<and> q \<in> set (hf_ipqueue g) \<and> s1 = del_timer (iq_no q) ?s"
        then obtain q where q: "qp = Some q" "q \<in> set (hf_ipqueue g)" "s1 = del_timer (iq_no q) ?s" by blast
        then have "frag_inv M {iq_no q} s1" using del_timer_inv [of M "{}" ?s "iq_no q"] h by simp
        from ip_free_inv [OF this _ _ q(2)] g q(1,3) show ?thesis by simp
      qed (use h in simp)
    qed
    with True find show ?thesis by (simp add: ip_defrag_def)
  next
    case False
    with assms(3) obtain t where t: "truesize = Some t" "0 \<le> t" "t \<le> T" by (auto split: option.splits)
    have lim: "0 \<le> IPFRAG_HIGH_THRESH" "IPFRAG_HIGH_THRESH + 168 + (t + IPFRAG_SIZE) \<le> M"
      using assms(2) t by (simp_all add: frag_limit_def IPFRAG_HIGH_THRESH_def IPH_SIZE_def IPQ_SIZE_def)
    then have "168 \<le> M" "IPFRAG_HIGH_THRESH + 168 \<le> M" using t(2) by (simp_all add: IPFRAG_SIZE_def)
    with defrag_queue_inv [OF _ _ _ _ lim(1) _ find q, of M] h lim obtain g where
      g: "frag_inv M {} s2" "fg_this s2 = Some (ip_dst iph)" "host_of s2 (ip_dst iph) = Some g"
      "q \<in> set (hf_ipqueue g)" "hf_mem g \<le> IPFRAG_HIGH_THRESH + 168" by blast
    from ip_enter_inv [OF g(1-4) t(2)] g(5) lim(2) False find q t show ?thesis by (simp add: ip_defrag_def)
  qed
qed

section \<open>Timers and packets\<close>

lemma expire_timers_inv: "frag_inv M {} s \<Longrightarrow> frag_inv M {} (expire_timers now n s)"
proof (induction n arbitrary: s)
  case (Suc n)
  show ?case
  proof (cases "fg_timers s")
    case (Cons t ts)
    show ?thesis
    proof (cases "timer_queue t s")
      case (Some q)
      then obtain h where h: "host_of s (fst t) = Some h" "q \<in> set (hf_ipqueue h)"
        by (auto simp: timer_queue_def find_Some_iff split: option.splits)
      have "frag_inv M {} (s\<lparr>fg_this := Some (fst t)\<rparr>)" using Suc.prems by simp
      from ip_free_inv [OF this, of "fst t" h q] h have "frag_inv M {} (ip_free q (s\<lparr>fg_this := Some (fst t)\<rparr>))" by simp
      with Suc.IH Suc.prems Cons Some show ?thesis by (simp add: ip_expire_def)
    qed (use Suc.prems Cons in simp)
  qed (use Suc.prems in simp)
qed simp

text \<open>No timer dangles.\<close>

lemma timer_queue_live:
  assumes "frag_inv M {} s" "t \<in> set (fg_timers s)"
  shows "\<exists>q. timer_queue t s = Some q"
proof -
  have "t \<in> live_queues s" using frag_invD(7) [OF assms(1)] assms(2) by simp
  then obtain h q where "host_of s (fst t) = Some h" "q \<in> set (hf_ipqueue h)" "iq_no q = snd t"
    by (cases t) (auto simp: live_queues_def queue_nos_def split: option.splits)
  then have "find (\<lambda>p. iq_no p = snd t) (hf_ipqueue h) \<noteq> None" by (auto simp: find_None_iff)
  with \<open>host_of s (fst t) = Some h\<close> show ?thesis by (auto simp: timer_queue_def)
qed

definition max_truesize :: "frag_prm \<Rightarrow> int" where
  "max_truesize prm = 65535 + 16 + fp_dev_addon prm + 15 + fp_sk_buff_size prm"

lemma skb_truesize_bounds:
  assumes "0 \<le> fp_dev_addon prm" "0 \<le> fp_sk_buff_size prm"
  shows "0 \<le> skb_truesize prm p" "skb_truesize prm p \<le> max_truesize prm"
proof -
  have "unat (ip_len p) < 65536" using unsigned_less [of "ip_len p"] by simp
  moreover have "y div 16 * 16 \<le> y" for y :: int by presburger
  from this [of "int (unat (ip_len p)) + 16 + fp_dev_addon prm + 15"]
  have "skb_truesize prm p \<le> int (unat (ip_len p)) + 16 + fp_dev_addon prm + 15 + fp_sk_buff_size prm"
    by (simp only: add_right_mono skb_truesize_def)
  ultimately show "skb_truesize prm p \<le> max_truesize prm" by (unfold max_truesize_def, linarith)
  show "0 \<le> skb_truesize prm p" using assms by (simp add: skb_truesize_def pos_imp_zdiv_nonneg_iff)
qed

lemma ip_defrag_stub_inv:
  assumes "frag_inv M {} s" "0 \<le> fp_dev_addon prm" "0 \<le> fp_sk_buff_size prm" "frag_limit (max_truesize prm) \<le> M"
  shows "frag_inv M {} (snd (ip_defrag_stub prm now iph s))"
proof -
  let ?s = "expire_timers now (length (fg_timers s)) s"
  have s: "frag_inv M {} ?s" using expire_timers_inv [OF assms(1)] .
  have "frag_inv M {} (snd (ip_defrag now (take (unat (ip_len iph)) iph) (Some (skb_truesize prm iph)) ?s))"
    using skb_truesize_bounds [OF assms(2,3)] by (intro ip_defrag_inv [OF s assms(4)]) simp
  moreover have "frag_inv M {} (snd (ip_defrag now iph None ?s))" if "plain_packet iph"
    using that by (intro ip_defrag_inv [OF s assms(4)]) simp
  ultimately show ?thesis
    by (auto simp: ip_defrag_stub_def Let_def split: prod.splits option.splits)
qed

lemma frag_init_inv: "0 \<le> M \<Longrightarrow> frag_inv M {} (ip_frag_init n)"
  by (simp add: frag_inv_def ip_frag_init_def table_ok_def host_of_def live_queues_def queue_nos_def)

end
