(* ===== verification/IpFragmentProps.thy ===== *)
theory IpFragmentProps
  imports IpFragmentInv
begin

text \<open>
  The properties of the reassembly of IP fragments: its memory, and that the pieces of a
  datagram are put together again in whatever order they come.
\<close>

section \<open>Pieces of a payload\<close>

text \<open>A fragment as it is kept: its bytes are those of the payload \<open>msg\<close> at its place.\<close>

definition piece :: "string \<Rightarrow> ipfrag \<Rightarrow> bool" where
  "piece msg f \<longleftrightarrow> 0 \<le> fr_offset f \<and> 0 < fr_len f \<and> fr_end f = fr_offset f + fr_len f \<and> fr_end f \<le> int (length msg) \<and>
     frag_bytes f = take (nat (fr_len f)) (drop (nat (fr_offset f)) msg)"

definition span :: "ipfrag \<Rightarrow> int \<times> int" where
  "span f = (fr_offset f, fr_len f)"

text \<open>The list holds the spans \<open>A\<close>.\<close>

definition pieces :: "string \<Rightarrow> (int \<times> int) set \<Rightarrow> ipfrag list \<Rightarrow> bool" where
  "pieces msg A fs \<longleftrightarrow> chain_from 0 fs \<and> (\<forall>f \<in> set fs. piece msg f) \<and> span ` set fs = A"

definition apart :: "int \<times> int \<Rightarrow> int \<times> int \<Rightarrow> bool" where
  "apart p r \<longleftrightarrow> p = r \<or> fst p + snd p \<le> fst r \<or> fst r + snd r \<le> fst p"

lemma chain_from_ge: "chain_from lo fs \<Longrightarrow> f \<in> set fs \<Longrightarrow> lo \<le> fr_offset f"
  by (induction fs arbitrary: lo) fastforce+

lemma insert_piece:
  assumes "pieces msg A fs" "\<forall>p \<in> A. apart p (a, n)" "0 \<le> truesize"
    "insert_frag a (a + n) skb ptr truesize fs = (fs', w, freed)"
    "piece msg \<lparr>fr_offset = a, fr_end = a + n, fr_len = n, fr_skb = skb, fr_ptr = ptr, fr_truesize = truesize\<rparr>"
  shows "pieces msg (insert (a, n) A) fs'"
proof -
  define front where "front = takeWhile (\<lambda>f. \<not> fr_offset f \<ge> a) fs"
  define rest where "rest = dropWhile (\<lambda>f. \<not> fr_offset f \<ge> a) fs"
  let ?new = "\<lparr>fr_offset = a, fr_end = a + n, fr_len = n, fr_skb = skb, fr_ptr = ptr, fr_truesize = truesize\<rparr>"
  have fs: "fs = front @ rest" by (simp add: front_def rest_def)
  have an: "0 \<le> a" "0 < n" using assms(5) by (simp_all add: piece_def)
  have pc: "piece msg f" "span f \<in> A" if "f \<in> set fs" for f using assms(1) that by (auto simp: pieces_def)
  have last: "\<not> (front \<noteq> [] \<and> a < fr_end (last front))"
  proof (intro notI, elim conjE)
    assume f: "front \<noteq> []" "a < fr_end (last front)"
    then have m: "last front \<in> set fs" by (simp add: fs)
    have "fr_offset (last front) < a"
      using set_takeWhileD [of "last front" "\<lambda>f. \<not> fr_offset f \<ge> a" fs] last_in_set [OF f(1)] by (simp add: front_def)
    with pc [OF m] f(2) assms(2) an show False by (auto simp: apart_def span_def piece_def)
  qed
  have hd: "rest \<noteq> [] \<Longrightarrow> a \<le> fr_offset (hd rest)" using hd_dropWhile [of "\<lambda>f. \<not> fr_offset f \<ge> a" fs] by (simp add: rest_def)
  have "\<exists>w freed. trim_next (a + n) [] rest 0 0 = (filter (\<lambda>f. span f \<noteq> (a, n)) rest, w, freed)"
  proof (cases rest)
    case (Cons r rs)
    have r: "piece msg r" "span r \<in> A" "a \<le> fr_offset r" using pc [of r] hd by (simp_all add: fs Cons)
    have ch: "chain_from 0 (front @ r # rs)" using assms(1) by (simp add: pieces_def fs Cons)
    then have "chain_from (max (fr_offset r) (fr_end r)) rs"
      unfolding chain_from_append chain_from.simps by blast
    then have "chain_from (fr_end r) rs" by (rule chain_from_mono) simp
    then have rs: "\<forall>f \<in> set rs. fr_end r \<le> fr_offset f" "chain_from (fr_end r) rs" using chain_from_ge by blast+
    show ?thesis
    proof (cases "fr_offset r \<ge> a + n")
      case True
      then have "\<forall>f \<in> set (r # rs). span f \<noteq> (a, n)" using rs(1) r(1) an by (fastforce simp: span_def piece_def)
      then have "filter (\<lambda>f. span f \<noteq> (a, n)) (r # rs) = r # rs" by (simp add: filter_id_conv)
      with True show ?thesis by (simp add: Cons)
    next
      case False
      then have s: "span r = (a, n)" using r assms(2) by (fastforce simp: apart_def span_def piece_def)
      then have "\<forall>f \<in> set rs. span f \<noteq> (a, n)" using rs(1) r(1) an by (fastforce simp: span_def piece_def)
      then have "filter (\<lambda>f. span f \<noteq> (a, n)) (r # rs) = rs" using s by (simp add: filter_id_conv)
      moreover have "fr_end r = a + n" using s r(1) by (simp add: span_def piece_def)
      ultimately show ?thesis using False s rs(2) trim_next_kept [of "a + n" rs "[]"] by (simp add: Cons span_def Let_def)
    qed
  qed simp
  then have fs': "fs' = front @ ?new # filter (\<lambda>f. span f \<noteq> (a, n)) rest"
    using assms(4) last unfolding insert_frag_def Let_def front_def [symmetric] rest_def [symmetric] by auto
  have "chain_from 0 fs'" using insert_frag_chain [OF _ an(1) assms(3,4)] assms(1) by (simp add: pieces_def)
  moreover have "\<forall>f \<in> set fs'. piece msg f" using pc assms(5) by (auto simp: fs' fs)
  moreover have "span ` set fs' = insert (a, n) A"
  proof -
    have "A = span ` set front \<union> span ` set rest" using assms(1) by (auto simp: pieces_def fs)
    moreover have "span ?new = (a, n)" by (simp add: span_def)
    ultimately show ?thesis by (auto simp: fs')
  qed
  ultimately show ?thesis by (simp add: pieces_def)
qed

section \<open>A complete datagram\<close>

definition complete :: "int \<Rightarrow> (int \<times> int) set \<Rightarrow> bool" where
  "complete len A \<longleftrightarrow> (\<forall>j. 0 \<le> j \<longrightarrow> j < len \<longrightarrow> (\<exists>p \<in> A. fst p \<le> j \<and> j < fst p + snd p))"

lemma connect_covers:
  assumes "ip_connect lo fs" "lo \<le> j" "f \<in> set fs" "j < fr_end f"
  shows "\<exists>g \<in> set fs. fr_offset g \<le> j \<and> j < fr_end g"
  using assms
proof (induction fs arbitrary: lo)
  case (Cons g gs)
  show ?case
  proof (cases "j < fr_end g")
    case True
    with Cons.prems show ?thesis by (auto split: if_splits)
  next
    case False
    with Cons show ?thesis by (auto split: if_splits)
  qed
qed simp

lemma covers_connect:
  assumes "chain_from lo fs" "\<forall>f \<in> set fs. piece msg f"
    "\<forall>j. lo \<le> j \<longrightarrow> j < int (length msg) \<longrightarrow> (\<exists>f \<in> set fs. fr_offset f \<le> j \<and> j < fr_end f)"
  shows "ip_connect lo fs"
  using assms
proof (induction fs arbitrary: lo)
  case (Cons f fs)
  have f: "fr_offset f < fr_end f" "fr_end f \<le> int (length msg)" "lo \<le> fr_offset f" "0 \<le> fr_offset f"
    using Cons.prems(1,2) by (simp_all add: piece_def)
  have ch: "chain_from (max (fr_offset f) (fr_end f)) fs" using Cons.prems(1) unfolding chain_from.simps by blast
  have ge: "fr_end f \<le> fr_offset g" if "g \<in> set fs" for g using chain_from_ge [OF ch that] by simp
  have "fr_offset f \<le> lo"
  proof (rule ccontr)
    assume "\<not> fr_offset f \<le> lo"
    moreover from this f obtain g where "g \<in> set (f # fs)" "fr_offset g \<le> lo" using Cons.prems(3) by fastforce
    ultimately show False using ge f(1) by fastforce
  qed
  moreover have "ip_connect (fr_end f) fs"
  proof (rule Cons.IH)
    show "chain_from (fr_end f) fs" by (rule chain_from_mono [OF ch]) simp
    show "\<forall>j. fr_end f \<le> j \<longrightarrow> j < int (length msg) \<longrightarrow> (\<exists>g \<in> set fs. fr_offset g \<le> j \<and> j < fr_end g)"
    proof (intro allI impI)
      fix j assume j: "fr_end f \<le> j" "j < int (length msg)"
      then have "lo \<le> j" using f(1,3) by linarith
      with j(2) obtain g where "g \<in> set (f # fs)" "fr_offset g \<le> j" "j < fr_end g" using Cons.prems(3) by blast
      with j(1) show "\<exists>g \<in> set fs. fr_offset g \<le> j \<and> j < fr_end g" by auto
    qed
  qed (use Cons.prems(2) in simp)
  ultimately show ?case by simp
qed simp

text \<open>The test of the code is that nothing is missing.\<close>

lemma done_complete:
  assumes "pieces msg A fs" "msg \<noteq> []"
  shows "(\<exists>p \<in> A. fst p + snd p = int (length msg)) \<and> ip_connect 0 fs \<longleftrightarrow> complete (int (length msg)) A"
proof
  assume "(\<exists>p \<in> A. fst p + snd p = int (length msg)) \<and> ip_connect 0 fs"
  then obtain f where f: "f \<in> set fs" "fr_offset f + fr_len f = int (length msg)" "ip_connect 0 fs"
    using assms(1) by (auto simp: pieces_def span_def)
  then have e: "fr_end f = int (length msg)" using assms(1) by (auto simp: pieces_def piece_def)
  show "complete (int (length msg)) A"
    unfolding complete_def
  proof (intro allI impI)
    fix j assume "0 \<le> j" "j < int (length msg)"
    with connect_covers [OF f(3) _ f(1)] e obtain g where g: "g \<in> set fs" "fr_offset g \<le> j" "j < fr_end g" by auto
    then have "span g \<in> A" "fr_end g = fr_offset g + fr_len g" using assms(1) by (auto simp: pieces_def piece_def)
    with g show "\<exists>p \<in> A. fst p \<le> j \<and> j < fst p + snd p" by (intro bexI [of _ "span g"]) (auto simp: span_def)
  qed
next
  assume c: "complete (int (length msg)) A"
  have pc: "\<exists>f \<in> set fs. span f = p \<and> piece msg f" if "p \<in> A" for p using assms(1) that by (auto simp: pieces_def)
  have cov: "\<exists>f \<in> set fs. piece msg f \<and> fr_offset f \<le> j \<and> j < fr_end f" if "0 \<le> j" "j < int (length msg)" for j
  proof -
    from c that obtain p where p: "p \<in> A" "fst p \<le> j" "j < fst p + snd p" unfolding complete_def by blast
    from pc [OF p(1)] obtain f where "f \<in> set fs" "span f = p" "piece msg f" by blast
    with p show ?thesis by (intro bexI [of _ f]) (auto simp: span_def piece_def)
  qed
  have "ip_connect 0 fs" using assms(1) cov by (intro covers_connect [where msg = msg]) (auto simp: pieces_def)
  moreover have "0 \<le> int (length msg) - 1" using assms(2) by (cases msg) simp_all
  from cov [OF this] obtain f where f: "f \<in> set fs" "piece msg f" "int (length msg) - 1 < fr_end f" by auto
  then have "span f \<in> A" "fst (span f) + snd (span f) = int (length msg)"
    using assms(1) by (auto simp: pieces_def) (auto simp: span_def piece_def)
  ultimately show "(\<exists>p \<in> A. fst p + snd p = int (length msg)) \<and> ip_connect 0 fs" by blast
qed

section \<open>Gluing\<close>

lemma length_mem_copy [simp]: "i + length d \<le> length m \<Longrightarrow> length (mem_copy i d m) = length m"
  by (simp add: mem_copy_def)

lemma mem_copy_next:
  assumes "take i m = u" "i \<le> length m"
  shows "take (i + length d) (mem_copy i d m) = u @ d"
  unfolding mem_copy_def assms(1) [symmetric] using assms(2) by simp

lemma glue_run:
  assumes "chain_from (int k) fs" "ip_connect (int k) fs" "\<forall>f \<in> set fs. piece msg f"
    "length m = ih + length msg" "take (ih + k) m = hdr @ take k msg" "length hdr = ih" "k \<le> length msg"
  shows "\<exists>m' k'. glue_loop ih (int (ih + length msg)) fs m (int k) = Some (m', int k') \<and> length m' = ih + length msg \<and>
    take (ih + k') m' = hdr @ take k' msg \<and> k' \<le> length msg \<and> (\<forall>f \<in> set fs. fr_end f \<le> int k')"
  using assms
proof (induction fs arbitrary: k m)
  case (Cons f fs)
  have f: "piece msg f" "fr_offset f = int k" using Cons.prems by (auto split: if_splits)
  define n where "n = nat (fr_len f)"
  have n: "fr_len f = int n" "fr_end f = int (k + n)" "k + n \<le> length msg" "0 < n" "frag_bytes f = take n (drop k msg)"
    using f by (auto simp: piece_def n_def)
  define m1 where "m1 = mem_copy (ih + k) (frag_bytes f) m"
  have len: "length (frag_bytes f) = n" using n(3,5) by simp
  then have m1: "length m1 = ih + length msg" using Cons.prems(4) n(3) by (simp add: m1_def)
  have "take (ih + (k + n)) m1 = (hdr @ take k msg) @ frag_bytes f"
    using mem_copy_next [OF Cons.prems(5), of "frag_bytes f"] Cons.prems(4,7) len by (simp add: m1_def add.assoc)
  then have t: "take (ih + (k + n)) m1 = hdr @ take (k + n) msg" by (simp add: n(5) take_add)
  have "chain_from (max (fr_offset f) (fr_end f)) fs" using Cons.prems(1) unfolding chain_from.simps by blast
  then have ch: "chain_from (int (k + n)) fs" by (rule chain_from_mono) (use f n in simp)
  have "ip_connect (int (k + n)) fs" using Cons.prems(2) n(2) by (simp split: if_splits)
  from Cons.IH [OF ch this _ m1 t Cons.prems(6) n(3)] Cons.prems(3) obtain m' k' where
    ih: "glue_loop ih (int (ih + length msg)) fs m1 (int (k + n)) = Some (m', int k')" "length m' = ih + length msg"
    "take (ih + k') m' = hdr @ take k' msg" "k' \<le> length msg" "\<forall>f \<in> set fs. fr_end f \<le> int k'" by auto
  have mono: "glue_loop ih l gs b c = Some (b', c') \<Longrightarrow> c \<le> c'" for l gs b c b' c'
    by (induction gs arbitrary: b c) (auto split: if_splits, fastforce)
  have "glue_loop ih (int (ih + length msg)) (f # fs) m (int k) = Some (m', int k')"
    using ih(1) f(2) n(1,3) by (simp add: m1_def)
  with ih(2-5) mono [OF ih(1)] n(2) show ?case by (intro exI [of _ m'] exI [of _ k']) auto
qed auto

lemma glue_complete:
  assumes "pieces msg A fs" "ip_connect 0 fs" "p \<in> A" "fst p + snd p = int (length msg)" "ih \<le> length h"
    "length m = ih + length msg" "take ih m = take ih h"
  shows "glue_loop ih (int ih + int (length msg)) fs m 0 = Some (take ih h @ msg, int (length msg))"
proof -
  from assms(1,3) obtain f where f: "f \<in> set fs" "span f = p" "piece msg f" by (auto simp: pieces_def)
  then have e: "fr_end f = int (length msg)" using assms(4) by (auto simp: span_def piece_def)
  have "chain_from (int 0) fs" "ip_connect (int 0) fs" "\<forall>f \<in> set fs. piece msg f" using assms(1,2) by (simp_all add: pieces_def)
  from glue_run [OF this assms(6), of "take ih h"] assms(5,7) obtain m' k' where
    g: "glue_loop ih (int (ih + length msg)) fs m 0 = Some (m', int k')" "length m' = ih + length msg"
    "take (ih + k') m' = take ih h @ take k' msg" "k' \<le> length msg" "\<forall>f \<in> set fs. fr_end f \<le> int k'" by auto
  then have "k' = length msg" using f(1) e by fastforce
  with g show ?thesis by simp
qed

text \<open>The header of the new datagram.\<close>

lemma byte_at_mem_copy:
  "i + length d \<le> length m \<Longrightarrow>
   byte_at (mem_copy i d m) j = (if i \<le> j \<and> j < i + length d then uchar (d ! (j - i)) else byte_at m j)"
  by (auto simp: byte_at_def mem_copy_def nth_append min_absorb2)

lemma drop_mem_copy: "i + length d \<le> length m \<Longrightarrow> i + length d \<le> k \<Longrightarrow> drop k (mem_copy i d m) = drop k m"
  unfolding mem_copy_def append_assoc [symmetric] by simp

lemma byte_at_take: "j < n \<Longrightarrow> byte_at (take n p) j = byte_at p j"
  by (simp add: byte_at_def)

lemma byte_at_append: "j < length p \<Longrightarrow> byte_at (p @ r) j = byte_at p j"
  by (simp add: byte_at_def nth_append)

text \<open>What identifies a datagram.\<close>

definition key :: "string \<Rightarrow> u16 \<times> u32 \<times> u32 \<times> nat" where
  "key p = (ip_id p, ip_src p, ip_dst p, ip_p p)"

lemmas ip_field_defs = key_def ip_id_def ip_off_def ip_src_def ip_dst_def ip_p_def ip_len_def ip_hl_def be16_def le32_def

lemma fields_take:
  assumes "20 \<le> n"
  shows "key (take n p) = key p" "ip_off (take n p) = ip_off p" "ip_len (take n p) = ip_len p" "ip_hl (take n p) = ip_hl p"
  using assms by (simp_all add: ip_field_defs byte_at_take)

lemma fields_append:
  assumes "20 \<le> length p"
  shows "key (p @ r) = key p" "ip_hl (p @ r) = ip_hl p"
proof -
  have "p \<noteq> []" using assms by auto
  with assms show "key (p @ r) = key p" "ip_hl (p @ r) = ip_hl p" by (simp_all add: ip_field_defs byte_at_append)
qed

lemma uchar_of_small [simp]: "n < 256 \<Longrightarrow> uchar (char_of n) = n"
  by (simp add: uchar_def)

lemma fixup_header:
  assumes "20 \<le> length m" "n < 65536"
  defines "d \<equiv> mem_copy 2 (u16_be (int n)) (mem_copy 6 [NUL, NUL] m)"
  shows "key d = key m" "ip_hl d = ip_hl m" "ip_len d = of_nat n" "ip_off d = 0" "8 \<le> k \<Longrightarrow> drop k d = drop k m"
    "length d = length m"
proof -
  have [simp]: "length (u16_be x) = 2" for x by (simp add: u16_be_def)
  have 1: "byte_at d j = (if 2 \<le> j \<and> j < 4 then uchar (u16_be (int n) ! (j - 2)) else
      if 6 \<le> j \<and> j < 8 then uchar ([NUL, NUL] ! (j - 6)) else byte_at m j)" for j
    using assms(1) by (simp add: d_def byte_at_mem_copy)
  have u: "uchar (u16_be (int n) ! 0) = n div 256" "uchar (u16_be (int n) ! 1) = n mod 256"
    using assms(2) by (simp_all add: u16_be_def nat_div_distrib nat_mod_distrib)
  have "uchar NUL = 0" by (simp add: uchar_def)
  then have b: "byte_at d 2 = n div 256" "byte_at d 3 = n mod 256" "byte_at d 6 = 0" "byte_at d 7 = 0"
    "\<And>j. j < 2 \<or> j = 4 \<or> j = 5 \<or> 8 \<le> j \<Longrightarrow> byte_at d j = byte_at m j"
    using u by (auto simp: 1)
  then show "key d = key m" "ip_hl d = ip_hl m" "ip_off d = 0" by (simp_all add: ip_field_defs)
  show "ip_len d = of_nat n" using b(1,2) by (simp add: ip_len_def be16_def)
  show "length d = length m" using assms(1) by (simp add: d_def)
  show "drop k d = drop k m" if "8 \<le> k"
  using that assms(1) by (simp add: d_def drop_mem_copy)
qed

section \<open>The fragments of a datagram\<close>

definition frag_place :: "string \<Rightarrow> int \<times> int" where
  "frag_place p = (8 * int (unat (ip_off p AND IP_OFFSET)), int (unat (ip_len p)) - 4 * int (ip_hl p))"

text \<open>The packet \<open>p\<close> is a fragment of the datagram that \<open>ky\<close> identifies and that carries \<open>msg\<close>.\<close>

definition is_fragment :: "u16 \<times> u32 \<times> u32 \<times> nat \<Rightarrow> string \<Rightarrow> string \<Rightarrow> bool" where
  "is_fragment ky msg p \<longleftrightarrow> key p = ky \<and> \<not> plain_packet p \<and> 5 \<le> ip_hl p \<and> unat (ip_len p) \<le> length p \<and>
     (let (a, n) = frag_place p in
      0 < n \<and> a + n \<le> int (length msg) \<and> (ip_off p AND IP_MF = 0 \<longleftrightarrow> a + n = int (length msg)) \<and>
      take (nat n) (drop (4 * ip_hl p) p) = take (nat n) (drop (nat a) msg))"

definition datagram :: "u16 \<times> u32 \<times> u32 \<times> nat \<Rightarrow> string \<Rightarrow> string \<Rightarrow> bool" where
  "datagram ky msg d \<longleftrightarrow> key d = ky \<and> ip_off d = 0 \<and> 5 \<le> ip_hl d \<and> length d = 4 * ip_hl d + length msg \<and>
     ip_len d = of_nat (4 * ip_hl d + length msg) \<and> drop (4 * ip_hl d) d = msg"

lemma ip_hl_less: "ip_hl p < 16"
  by (simp add: ip_hl_def)

lemma is_fragmentD:
  assumes "is_fragment ky msg p" "frag_place p = (a, n)"
  shows "0 \<le> a" "0 < n" "a + n \<le> int (length msg)" "ip_off p AND IP_MF = 0 \<longleftrightarrow> a + n = int (length msg)"
    "take (nat n) (drop (4 * ip_hl p) p) = take (nat n) (drop (nat a) msg)"
    "int (unat (ip_len p)) = n + 4 * int (ip_hl p)" "4 * ip_hl p + nat n \<le> length p" "key p = ky" "5 \<le> ip_hl p"
    "\<not> plain_packet p"
proof -
  have n: "n = int (unat (ip_len p)) - 4 * int (ip_hl p)" and a: "a = 8 * int (unat (ip_off p AND IP_OFFSET))"
    using assms(2) by (simp_all add: frag_place_def)
  from assms show "0 < n" "a + n \<le> int (length msg)" "ip_off p AND IP_MF = 0 \<longleftrightarrow> a + n = int (length msg)"
    "take (nat n) (drop (4 * ip_hl p) p) = take (nat n) (drop (nat a) msg)" "key p = ky" "5 \<le> ip_hl p" "\<not> plain_packet p"
    by (simp_all add: is_fragment_def)
  show "0 \<le> a" unfolding a by simp
  show "int (unat (ip_len p)) = n + 4 * int (ip_hl p)" unfolding n by linarith
  moreover have "unat (ip_len p) \<le> length p" using assms by (simp add: is_fragment_def)
  ultimately show "4 * ip_hl p + nat n \<le> length p" using \<open>0 < n\<close> by linarith
qed

lemma is_fragment_take:
  assumes "is_fragment ky msg p"
  shows "is_fragment ky msg (take (unat (ip_len p)) p)" "frag_place (take (unat (ip_len p)) p) = frag_place p"
    "plain_packet (take (unat (ip_len p)) p) = plain_packet p"
proof -
  obtain a n where an: "frag_place p = (a, n)" by fastforce
  note f = is_fragmentD [OF assms an]
  have "20 \<le> unat (ip_len p)" using f(2,6,9) by linarith
  note t = fields_take [OF this, of p]
  show p: "frag_place (take (unat (ip_len p)) p) = frag_place p"
    "plain_packet (take (unat (ip_len p)) p) = plain_packet p"
    by (simp_all add: frag_place_def plain_packet_def t)
  have "unat (ip_len p) = nat n + 4 * ip_hl p" using f(2,6) by linarith
  then have "take (nat n) (drop (4 * ip_hl p) (take (unat (ip_len p)) p)) = take (nat n) (drop (4 * ip_hl p) p)"
    by (simp add: drop_take)
  with assms an show "is_fragment ky msg (take (unat (ip_len p)) p)"
    by (simp add: is_fragment_def t p)
qed

lemma frag_bytes_slice:
  assumes "i + n \<le> length p"
  shows "frag_bytes \<lparr>fr_offset = a, fr_end = e, fr_len = int n, fr_skb = p, fr_ptr = int i, fr_truesize = t\<rparr> = take n (drop i p)"
proof (rule nth_equalityI)
  fix j assume "j < length (frag_bytes \<lparr>fr_offset = a, fr_end = e, fr_len = int n, fr_skb = p, fr_ptr = int i, fr_truesize = t\<rparr>)"
  then have "j < n" by (simp add: frag_bytes_def)
  moreover have "nat (int i + int j) = i + j" by linarith
  ultimately show "frag_bytes \<lparr>fr_offset = a, fr_end = e, fr_len = int n, fr_skb = p, fr_ptr = int i, fr_truesize = t\<rparr> ! j = take n (drop i p) ! j"
    using assms by (simp add: frag_bytes_def Let_def)
qed (use assms in \<open>simp add: frag_bytes_def\<close>)

text \<open>
  A queue that holds the places \<open>A\<close>; its header is that of the first fragment if that is among
  the places \<open>H\<close>.
\<close>

definition queue_holds ::
  "u16 \<times> u32 \<times> u32 \<times> nat \<Rightarrow> string \<Rightarrow> (int \<times> int) set \<Rightarrow> (int \<times> int) set \<Rightarrow> ipq \<Rightarrow> bool" where
  "queue_holds ky msg A H q \<longleftrightarrow> pieces msg A (iq_fragments q) \<and>
     iq_len q = (if \<exists>p \<in> A. fst p + snd p = int (length msg) then int (length msg) else 0) \<and>
     (\<exists>p0. is_fragment ky msg p0 \<and> iq_iph q = take (ip_hl p0 * 4 + 8) p0 \<and> iq_ihlen q = ip_hl p0 * 4 \<and>
        (\<forall>r \<in> H. fst r = 0 \<longrightarrow> fst (frag_place p0) = 0))"

lemma ip_glue_datagram:
  assumes "queue_holds ky msg A H q" "complete (int (length msg)) A" "msg \<noteq> []" "length msg + 60 \<le> 65535"
  shows "\<exists>d. ip_glue q s = (Some d, ip_free q s) \<and> datagram ky msg d"
proof -
  obtain p0 where q: "pieces msg A (iq_fragments q)" "is_fragment ky msg p0" "iq_iph q = take (ip_hl p0 * 4 + 8) p0"
    "iq_ihlen q = ip_hl p0 * 4"
    using assms(1) by (auto simp: queue_holds_def)
  obtain a n where an: "frag_place p0 = (a, n)" by fastforce
  note f = is_fragmentD [OF q(2) an]
  let ?ih = "ip_hl p0 * 4"
  from done_complete [OF q(1) assms(3)] assms(2) obtain p where p: "p \<in> A" "fst p + snd p = int (length msg)"
    "ip_connect 0 (iq_fragments q)" by blast
  then have len: "iq_len q = int (length msg)" using assms(1) by (auto simp: queue_holds_def)
  have h: "?ih \<le> length p0" "20 \<le> ?ih" using f(7,9) by simp_all
  define m0 where "m0 = mem_copy 0 (take ?ih p0) (replicate (nat (int ?ih + int (length msg))) NUL)"
  have "length (take ?ih p0) = ?ih" using h by simp
  then have m0: "length m0 = ?ih + length msg" "take ?ih m0 = take ?ih p0"
    by (simp_all add: m0_def mem_copy_def)
  note g = glue_complete [OF q(1) p(3,1,2) h(1) m0]
  define m where "m = take ?ih p0 @ msg"
  have lm: "20 \<le> length m" "length m = ?ih + length msg" using h by (simp_all add: m_def)
  have "ip_hl m = ip_hl (take ?ih p0)" "key m = key (take ?ih p0)"
    using fields_append [of "take ?ih p0" msg] h by (simp_all add: m_def)
  then have hl: "ip_hl m = ip_hl p0" "key m = ky" using fields_take [OF h(2), of p0] f(8) by simp_all
  have size: "?ih + length msg < 65536" using assms(4) ip_hl_less [of p0] by simp
  define d where "d = mem_copy 2 (u16_be (int (?ih + length msg))) (mem_copy 6 [NUL, NUL] m)"
  note fx = fixup_header [OF lm(1) size, folded d_def]
  have "ip_glue q s = (Some d, ip_free q s)"
    using g size unfolding m0_def by (simp add: ip_glue_def Let_def q(3,4) len m_def [symmetric] hl d_def)
  moreover have "datagram ky msg d"
    unfolding datagram_def using fx(1-4,6) fx(5) [of "4 * ip_hl p0"] hl lm(2) f(9) h by (simp add: m_def mult.commute)
  ultimately show ?thesis by blast
qed

lemma enter_fragment:
  assumes "frag_inv M {} s" "fg_this s = Some a" "host_of s a = Some h" "hf_ipqueue h = [q]" "0 \<le> t"
    "queue_holds ky msg A (insert (frag_place p) A) q" "is_fragment ky msg p" "\<forall>r \<in> A. apart r (frag_place p)"
    "msg \<noteq> []" "length msg + 60 \<le> 65535" "ip_enter p t q s = (r, s')"
  shows "(\<forall>b. b \<noteq> a \<longrightarrow> host_of s' b = host_of s b) \<and>
    (if complete (int (length msg)) (insert (frag_place p) A)
     then host_of s' a = None \<and> (\<exists>d. r = Some d \<and> datagram ky msg d)
     else r = None \<and> (\<exists>h' q'. host_of s' a = Some h' \<and> hf_ipqueue h' = [q'] \<and> iq_expires q' = iq_expires q \<and>
       hf_mem h' \<le> hf_mem h + (t + IPFRAG_SIZE) \<and>
       queue_holds ky msg (insert (frag_place p) A) (insert (frag_place p) A) q'))"
proof -
  obtain x n where xn: "frag_place p = (x, n)" by fastforce
  note f = is_fragmentD [OF assms(7) xn]
  let ?A = "insert (x, n) A" and ?L = "int (length msg)"
  have x: "int (unat (ip_off p AND IP_OFFSET)) * 8 = x" and e: "x + int (unat (ip_len p)) - int (ip_hl p * 4) = x + n"
    using xn f(6) by (simp_all add: frag_place_def mult.commute)
  have small: "\<not> int (unat (ip_len p)) + x > 65535" using f(3,6) ip_hl_less [of p] assms(10) by linarith
  have q: "pieces msg A (iq_fragments q)" "iq_len q = (if \<exists>p \<in> A. fst p + snd p = ?L then ?L else 0)"
    using assms(6) by (simp_all add: queue_holds_def)
  obtain fs w freed where i: "insert_frag x (x + n) p (int (ip_hl p * 4)) t (iq_fragments q) = (fs, w, freed)"
    by (metis prod_cases3)
  have "piece msg \<lparr>fr_offset = x, fr_end = x + n, fr_len = n, fr_skb = p, fr_ptr = int (ip_hl p * 4), fr_truesize = t\<rparr>"
    using f(1-3,5,7) frag_bytes_slice [of "ip_hl p * 4" "nat n" p x "x + n" t]
    by (simp add: piece_def mult.commute)
  then have fs: "pieces msg ?A fs"
    using insert_piece [OF q(1) _ assms(5) i] assms(8) xn by simp
  define q1 where "q1 = q\<lparr>iq_len := (if ip_off p AND IP_MF = 0 then x + n else iq_len q), iq_fragments := fs\<rparr>"
  have len1: "iq_len q1 = (if \<exists>p \<in> ?A. fst p + snd p = ?L then ?L else 0)"
    using f(4) q(2) by (auto simp: q1_def)
  then have holds: "queue_holds ky msg ?A ?A q1"
    using assms(6) fs xn by (auto simp: queue_holds_def q1_def)
  have dn: "ip_done q1 \<longleftrightarrow> complete ?L ?A"
  proof -
    have "ip_done q1 \<longleftrightarrow> iq_len q1 \<noteq> 0 \<and> ip_connect 0 fs" by (simp add: ip_done_def q1_def)
    also have "iq_len q1 \<noteq> 0 \<longleftrightarrow> (\<exists>p \<in> ?A. fst p + snd p = ?L)" unfolding len1 using assms(9) by simp
    finally show ?thesis using done_complete [OF fs assms(9)] by blast
  qed
  define s1 where "s1 = atomic_add (t + IPFRAG_SIZE - freed)
    ((upd_queue (iq_no q) (\<lambda>_. q1) s)\<lparr>fg_warnings := fg_warnings s + w\<rparr>)"
  have enter: "(r, s') = (if ip_done q1 then ip_glue q1 s1 else (None, s1))"
    using assms(11) small unfolding ip_enter_def Let_def x e i prod.case q1_def s1_def by simp
  define h1 where "h1 = h\<lparr>hf_ipqueue := [q1], hf_mem := hf_mem h + (t + IPFRAG_SIZE - freed)\<rparr>"
  have hosts: "host_of s1 b = (if b = a then Some h1 else host_of s b)" for b
    using assms(2-4) by (auto simp: s1_def atomic_add_def upd_queue_def host_of_on_this h1_def)
  have th: "fg_this s1 = Some a" using assms(2) by (simp add: s1_def atomic_add_def upd_queue_def)
  have "chain_from 0 (iq_fragments q)" using q(1) by (simp add: pieces_def)
  from insert_frag_chain [OF this f(1) assms(5) i] have "0 \<le> freed" by simp
  show ?thesis
  proof (cases "complete ?L ?A")
    case True
    from ip_glue_datagram [OF holds True assms(9,10), of s1] obtain d where
      d: "ip_glue q1 s1 = (Some d, ip_free q1 s1)" "datagram ky msg d" by blast
    have "host_of (ip_free q1 s1) b = (if b = a then None else host_of s b)" for b
      using ip_free_hosts(1) [OF th, of h1 q1 b] hosts by (auto simp: h1_def)
    with enter dn d True xn show ?thesis by simp
  next
    case False
    with enter dn have "r = None" "s' = s1" by simp_all
    with False xn hosts holds \<open>0 \<le> freed\<close> show ?thesis by (auto simp: h1_def q1_def)
  qed
qed

text \<open>Between the fragments: the queue is the only one of its host, within \<open>B\<close> bytes, until \<open>T\<close>.\<close>

definition dst_of :: "u16 \<times> u32 \<times> u32 \<times> nat \<Rightarrow> u32" where
  "dst_of ky = fst (snd (snd ky))"

definition waiting ::
  "u16 \<times> u32 \<times> u32 \<times> nat \<Rightarrow> string \<Rightarrow> (int \<times> int) set \<Rightarrow> int \<Rightarrow> int \<Rightarrow> frag_state \<Rightarrow> bool" where
  "waiting ky msg A B T s \<longleftrightarrow>
     (if A = {} then host_of s (dst_of ky) = None
      else \<exists>h q. host_of s (dst_of ky) = Some h \<and> hf_ipqueue h = [q] \<and> queue_holds ky msg A A q \<and> hf_mem h \<le> B \<and>
        T \<le> iq_expires q)"

lemma ip_create_other:
  "ip_create now p s = (q, s') \<Longrightarrow> fg_this s = Some a \<Longrightarrow> b \<noteq> a \<Longrightarrow> host_of s' b = host_of s b"
  by (auto simp: ip_create_def Let_def atomic_add_def host_of_on_this)

text \<open>The queue that \<open>ip_defrag\<close> finds or makes for a fragment.\<close>

lemma queue_for_fragment:
  assumes "frag_inv M {} s" "waiting ky msg A B T s" "is_fragment ky msg p" "168 \<le> B" "B \<le> IPFRAG_HIGH_THRESH" "B \<le> M"
    "T \<le> now + IP_FRAG_TIME" "ip_find p (defrag_host p (Some t) s) = (qp, s1)" "defrag_queue now p qp s1 = (q, s2)"
  shows "frag_inv M {} s2 \<and> fg_this s2 = Some (dst_of ky) \<and> (\<forall>b. b \<noteq> dst_of ky \<longrightarrow> host_of s2 b = host_of s b) \<and>
    (\<exists>h. host_of s2 (dst_of ky) = Some h \<and> hf_ipqueue h = [q] \<and> hf_mem h \<le> B \<and> T \<le> iq_expires q \<and>
       queue_holds ky msg A (insert (frag_place p) A) q)"
proof -
  obtain x n where xn: "frag_place p = (x, n)" by fastforce
  note f = is_fragmentD [OF assms(3) xn]
  have dst: "ip_dst p = dst_of ky" using f(8) by (auto simp: key_def dst_of_def)
  have B0: "0 \<le> IPFRAG_HIGH_THRESH" by (simp add: IPFRAG_HIGH_THRESH_def)
  show ?thesis
  proof (cases "A = {}")
    case True
    then have none: "host_of s (ip_dst p) = None" using assms(2) dst by (simp add: waiting_def)
    let ?u = "hostfrag_find p s" let ?s = "hostfrag_create p ?u"
    have s0: "frag_inv M {} ?u" "host_of ?u b = host_of s b" "fg_this ?u = None" for b
      using hostfrag_find_at [OF assms(1), of p] none by (simp_all add: hostfrag_find_def)
    have host: "defrag_host p (Some t) s = ?s"
      using s0 none B0 by (simp add: defrag_host_def Let_def this_host_def host_of_create)
    have inv: "frag_inv M {} ?s" "fg_this ?s = Some (ip_dst p)" "host_of ?s (ip_dst p) = Some \<lparr>hf_ip = ip_dst p, hf_ipqueue = [], hf_mem = 0\<rparr>"
      using hostfrag_create_inv [OF s0(1)] none s0(2) assms(4,6) by (simp_all add: host_of_create)
    then have "qp = None" "s1 = ?s" using assms(8) by (simp_all add: host ip_find_def this_host_def)
    then have c: "ip_create now p ?s = (q, s2)" using assms(9) inv by (simp add: defrag_queue_def Let_def this_host_def)
    have q: "q = \<lparr>iq_no = fg_next ?s, iq_iph = take (ip_hl p * 4 + 8) p, iq_len = 0, iq_ihlen = ip_hl p * 4,
               iq_expires = now + IP_FRAG_TIME, iq_fragments = []\<rparr>"
      using c by (simp add: ip_create_def Let_def)
    have "queue_holds ky msg A (insert (frag_place p) A) q"
      using assms(3) True by (auto simp: queue_holds_def q pieces_def)
    moreover have "168 \<le> M" using assms(4,6) by simp
    ultimately show ?thesis
      using ip_create_inv [OF inv _ c] ip_create_other [OF c inv(2)] s0(2) assms(4,7) dst
      by (auto simp: host_of_create q)
  next
    case False
    then obtain h q0 where h: "host_of s (dst_of ky) = Some h" "hf_ipqueue h = [q0]" "queue_holds ky msg A A q0" "hf_mem h \<le> B"
      using assms(2) by (auto simp: waiting_def)
    then obtain p0 where p0: "is_fragment ky msg p0" "iq_iph q0 = take (ip_hl p0 * 4 + 8) p0" "iq_ihlen q0 = ip_hl p0 * 4"
      "\<forall>r \<in> A. fst r = 0 \<longrightarrow> fst (frag_place p0) = 0"
      by (auto simp: queue_holds_def)
    have "key p0 = ky" "5 \<le> ip_hl p0" using p0(1) by (auto simp: is_fragment_def)
    then have "key (iq_iph q0) = ky" unfolding p0(2) using fields_take(1) [of "ip_hl p0 * 4 + 8" p0] by simp
    then have same: "same_datagram p q0" using f(8) by (auto simp: same_datagram_def key_def)
    let ?u = "s\<lparr>fg_this := Some (dst_of ky)\<rparr>"
    have find0: "hostfrag_find p s = ?u" using h(1) dst by (simp add: hostfrag_find_def)
    have this0: "this_host ?u = Some h" using h(1) by (simp add: this_host_def)
    have "defrag_host p (Some t) s = ?u"
      using h(4) assms(5) by (simp add: defrag_host_def Let_def find0 this0)
    then have qp: "qp = Some q0" "s1 = del_timer (iq_no q0) ?u"
      using assms(8) this0 h(2) same by (simp_all add: ip_find_def)
    have inv1: "frag_inv M {iq_no q0} s1" "fg_this s1 = Some (dst_of ky)" "host_of s1 b = host_of s b" for b
      using del_timer_inv [of M "{}" ?u "iq_no q0"] assms(1) by (simp_all add: qp(2))
    have "this_host s1 = Some h" using inv1 h(1) by (simp add: this_host_def)
    then have r: "restart_queue now p q0 s1 = (q, s2)" using assms(9) by (simp add: defrag_queue_def Let_def qp(1))
    then have q: "q = (if ip_off p AND IP_OFFSET = 0 then q0\<lparr>iq_ihlen := ip_hl p * 4, iq_iph := take (ip_hl p * 4 + 8) p\<rparr>
        else q0)\<lparr>iq_expires := now + IP_FRAG_TIME\<rparr>"
      and s2: "s2 = add_timer (iq_no q0) (upd_queue (iq_no q0) (\<lambda>_. q) (del_timer (iq_no q0) s1))"
      by (auto simp: restart_queue_def Let_def)
    have "iq_no q = iq_no q0" "iq_fragments q = iq_fragments q0" by (simp_all add: q)
    from restart_inv [OF inv1(1,2), of h q] h(1,2) inv1(3) this have "frag_inv M {} s2" "fg_this s2 = Some (dst_of ky)"
      by (simp_all add: s2)
    moreover have hosts: "host_of s2 b = (if b = dst_of ky then Some (h\<lparr>hf_ipqueue := [q]\<rparr>) else host_of s b)" for b
      using inv1(2,3) h(1,2) by (simp add: s2 upd_queue_def host_of_on_this)
    moreover have "queue_holds ky msg A (insert (frag_place p) A) q"
    proof (cases "ip_off p AND IP_OFFSET = 0")
      case True
      then have "fst (frag_place p) = 0" by (simp add: frag_place_def)
      with True h(3) assms(3) show ?thesis by (auto simp: queue_holds_def q)
    next
      case False
      then have "fst (frag_place p) \<noteq> 0" by (simp add: frag_place_def unsigned_eq_0_iff)
      with False h(3) show ?thesis by (auto simp: queue_holds_def q)
    qed
    moreover have "iq_expires q = now + IP_FRAG_TIME" by (simp add: q)
    ultimately show ?thesis using h(4) assms(7) by simp
  qed
qed

text \<open>All queues live until \<open>T\<close>.\<close>

definition alive :: "int \<Rightarrow> frag_state \<Rightarrow> bool" where
  "alive T s \<longleftrightarrow> (\<forall>a h q. host_of s a = Some h \<longrightarrow> q \<in> set (hf_ipqueue h) \<longrightarrow> T \<le> iq_expires q)"

lemma expire_none:
  assumes "frag_inv M {} s" "alive T s" "now \<le> T"
  shows "expire_timers now n s = s"
proof (cases n)
  case (Suc m)
  show ?thesis
  proof (cases "fg_timers s")
    case (Cons t ts)
    then obtain q where q: "timer_queue t s = Some q" using timer_queue_live [OF assms(1), of t] by auto
    then obtain h where "host_of s (fst t) = Some h" "q \<in> set (hf_ipqueue h)"
      by (auto simp: timer_queue_def find_Some_iff split: option.splits)
    with assms(2,3) have "\<not> iq_expires q < now" by (fastforce simp: alive_def)
    with Suc Cons q show ?thesis by simp
  qed (use Suc in simp)
qed simp

lemma stub_fragment:
  assumes "frag_inv M {} s" "frag_limit (max_truesize prm) \<le> M" "0 \<le> fp_dev_addon prm" "0 \<le> fp_sk_buff_size prm"
    "waiting ky msg A B T s" "alive T s" "is_fragment ky msg p" "\<forall>r \<in> A. apart r (frag_place p)"
    "168 \<le> B" "B \<le> IPFRAG_HIGH_THRESH" "now \<le> T" "T \<le> now + IP_FRAG_TIME" "msg \<noteq> []" "length msg + 60 \<le> 65535"
    "ip_defrag_stub prm now p s = (r, s')"
  shows "frag_inv M {} s' \<and>
    (if complete (int (length msg)) (insert (frag_place p) A) then \<exists>d. r = IPF_NEW d \<and> datagram ky msg d
     else r = IPF_ISF \<and> alive T s' \<and>
       waiting ky msg (insert (frag_place p) A) (B + (skb_truesize prm p + IPFRAG_SIZE)) T s')"
proof -
  let ?p = "take (unat (ip_len p)) p" and ?t = "skb_truesize prm p"
  note tk = is_fragment_take [OF assms(7)] and t = skb_truesize_bounds [OF assms(3,4), of p]
  have exp: "expire_timers now (length (fg_timers s)) s = s" using expire_none [OF assms(1,6,11)] .
  obtain r1 s1 where d: "ip_defrag now ?p (Some ?t) s = (r1, s1)" by fastforce
  have "\<not> plain_packet p" using assms(7) by (simp add: is_fragment_def)
  then have stub: "(r, s') = (case r1 of Some p \<Rightarrow> IPF_NEW p | None \<Rightarrow> IPF_ISF, s1)"
    using assms(15) d by (simp add: ip_defrag_stub_def Let_def exp split: option.splits)
  obtain qp u where find: "ip_find ?p (defrag_host ?p (Some ?t) s) = (qp, u)" by fastforce
  obtain q v where q: "defrag_queue now ?p qp u = (q, v)" by fastforce
  have "B \<le> M" using assms(2,10) t by (simp add: frag_limit_def IPFRAG_SIZE_def IPH_SIZE_def IPQ_SIZE_def)
  from queue_for_fragment [OF assms(1,5) tk(1) assms(9,10) this assms(12) find q] obtain h where
    v: "frag_inv M {} v" "fg_this v = Some (dst_of ky)" "\<forall>b. b \<noteq> dst_of ky \<longrightarrow> host_of v b = host_of s b"
      "host_of v (dst_of ky) = Some h" "hf_ipqueue h = [q]" "hf_mem h \<le> B" "T \<le> iq_expires q"
      "queue_holds ky msg A (insert (frag_place ?p) A) q"
    by blast
  have e: "ip_enter ?p ?t q v = (r1, s1)"
    using d find q \<open>\<not> plain_packet p\<close> by (simp add: ip_defrag_def tk(3))
  have "frag_inv M {} s1"
    using ip_defrag_stub_inv [OF assms(1,3,4,2), of now p] assms(15) stub by simp
  moreover have "(\<forall>b. b \<noteq> dst_of ky \<longrightarrow> host_of s1 b = host_of v b) \<and>
    (if complete (int (length msg)) (insert (frag_place p) A)
     then host_of s1 (dst_of ky) = None \<and> (\<exists>d. r1 = Some d \<and> datagram ky msg d)
     else r1 = None \<and> (\<exists>h' q'. host_of s1 (dst_of ky) = Some h' \<and> hf_ipqueue h' = [q'] \<and> iq_expires q' = iq_expires q \<and>
       hf_mem h' \<le> hf_mem h + (?t + IPFRAG_SIZE) \<and>
       queue_holds ky msg (insert (frag_place p) A) (insert (frag_place p) A) q'))"
    using enter_fragment [OF v(1,2,4,5) t(1) v(8) tk(1) _ assms(13,14) e] assms(8) unfolding tk(2) by blast
  ultimately show ?thesis
  proof (intro conjI)
    assume h': "(\<forall>b. b \<noteq> dst_of ky \<longrightarrow> host_of s1 b = host_of v b) \<and>
    (if complete (int (length msg)) (insert (frag_place p) A)
     then host_of s1 (dst_of ky) = None \<and> (\<exists>d. r1 = Some d \<and> datagram ky msg d)
     else r1 = None \<and> (\<exists>h' q'. host_of s1 (dst_of ky) = Some h' \<and> hf_ipqueue h' = [q'] \<and> iq_expires q' = iq_expires q \<and>
       hf_mem h' \<le> hf_mem h + (?t + IPFRAG_SIZE) \<and>
       queue_holds ky msg (insert (frag_place p) A) (insert (frag_place p) A) q'))"
    show "if complete (int (length msg)) (insert (frag_place p) A) then \<exists>d. r = IPF_NEW d \<and> datagram ky msg d
     else r = IPF_ISF \<and> alive T s' \<and>
       waiting ky msg (insert (frag_place p) A) (B + (?t + IPFRAG_SIZE)) T s'"
    proof (cases "complete (int (length msg)) (insert (frag_place p) A)")
      case False
      with h' obtain h1 q1 where h1: "r1 = None" "host_of s1 (dst_of ky) = Some h1" "hf_ipqueue h1 = [q1]" "iq_expires q1 = iq_expires q"
        "hf_mem h1 \<le> hf_mem h + (?t + IPFRAG_SIZE)" "queue_holds ky msg (insert (frag_place p) A) (insert (frag_place p) A) q1"
        "\<forall>b. b \<noteq> dst_of ky \<longrightarrow> host_of s1 b = host_of v b" by auto
      have "alive T s1" unfolding alive_def
      proof (intro allI impI)
        fix a h2 q2 assume "host_of s1 a = Some h2" "q2 \<in> set (hf_ipqueue h2)"
        then show "T \<le> iq_expires q2"
          using h1 v(3,7) assms(6) by (cases "a = dst_of ky") (auto simp: alive_def)
      qed
      with False h1 v(6,7) stub show ?thesis by (simp add: waiting_def)
    qed (use h' stub in auto)
  qed (use stub in simp)
qed

section \<open>Packets in order of arrival\<close>

definition defrag_step :: "frag_prm \<Rightarrow> int \<times> string \<Rightarrow> ipf list \<times> frag_state \<Rightarrow> ipf list \<times> frag_state" where
  "defrag_step prm = (\<lambda>(now, p) (rs, s). case ip_defrag_stub prm now p s of (r, s') \<Rightarrow> (rs @ [r], s'))"

text \<open>The results of \<open>ip_defrag_stub\<close> for packets, each with the time of its arrival.\<close>

definition defrag_all :: "frag_prm \<Rightarrow> (int \<times> string) list \<Rightarrow> frag_state \<Rightarrow> ipf list \<times> frag_state" where
  "defrag_all prm ps s = fold (defrag_step prm) ps ([], s)"

lemma defrag_all_Nil [simp]: "defrag_all prm [] s = ([], s)"
  by (simp add: defrag_all_def)

lemma defrag_all_snoc:
  "defrag_all prm (ps @ [(now, p)]) s =
     (case defrag_all prm ps s of (rs, u) \<Rightarrow> case ip_defrag_stub prm now p u of (r, s') \<Rightarrow> (rs @ [r], s'))"
  by (simp add: defrag_all_def defrag_step_def split: prod.splits)

lemma defrag_all_inv:
  assumes "frag_inv M {} s" "0 \<le> fp_dev_addon prm" "0 \<le> fp_sk_buff_size prm" "frag_limit (max_truesize prm) \<le> M"
  shows "frag_inv M {} (snd (defrag_all prm ps s))"
proof (induction ps rule: rev_induct)
  case (snoc p ps)
  obtain now q where p: "p = (now, q)" by fastforce
  show ?case using ip_defrag_stub_inv [OF snoc assms(2-4), of now q] unfolding p defrag_all_snoc
    by (simp add: case_prod_beta)
qed (use assms(1) in simp)

text \<open>The places of fragments, and what they are charged.\<close>

definition places :: "(int \<times> string) list \<Rightarrow> (int \<times> int) set" where
  "places ps = (\<lambda>(now, p). frag_place p) ` set ps"

definition charges :: "frag_prm \<Rightarrow> (int \<times> string) list \<Rightarrow> int" where
  "charges prm ps = (\<Sum>(now, p) \<leftarrow> ps. skb_truesize prm p + IPFRAG_SIZE)"

lemma places_simps [simp]: "places [] = {}" "places (ps @ [(now, p)]) = insert (frag_place p) (places ps)"
  by (simp_all add: places_def)

lemma charges_simps [simp]: "charges prm [] = 0" "charges prm (ps @ [(now, p)]) = charges prm ps + (skb_truesize prm p + IPFRAG_SIZE)"
  by (simp_all add: charges_def)

lemma complete_mono: "complete n A \<Longrightarrow> A \<subseteq> B \<Longrightarrow> complete n B"
  unfolding complete_def by blast

text \<open>The fragments that came so far wait.\<close>

lemma defrag_waiting:
  assumes "frag_inv M {} s" "frag_limit (max_truesize prm) \<le> M" "0 \<le> fp_dev_addon prm" "0 \<le> fp_sk_buff_size prm"
    "host_of s (dst_of ky) = None" "alive T s" "msg \<noteq> []" "length msg + 60 \<le> 65535"
    "\<forall>(now, p) \<in> set ps. is_fragment ky msg p \<and> now \<le> T \<and> T \<le> now + IP_FRAG_TIME"
    "\<forall>a \<in> places ps. \<forall>b \<in> places ps. apart a b"
    "168 + charges prm ps \<le> IPFRAG_HIGH_THRESH" "\<not> complete (int (length msg)) (places ps)"
  shows "\<exists>s'. defrag_all prm ps s = (map (\<lambda>_. IPF_ISF) ps, s') \<and> frag_inv M {} s' \<and> alive T s' \<and>
    waiting ky msg (places ps) (168 + charges prm ps) T s' \<and> 0 \<le> charges prm ps"
  using assms(9-12)
proof (induction ps rule: rev_induct)
  case Nil
  then show ?case using assms by (simp add: waiting_def)
next
  case (snoc x ps)
  obtain now p where x: "x = (now, p)" by fastforce
  have t: "0 \<le> skb_truesize prm p + IPFRAG_SIZE" using skb_truesize_bounds [OF assms(3,4), of p] by (simp add: IPFRAG_SIZE_def)
  have nc: "\<not> complete (int (length msg)) (places ps)" 
    using snoc.prems(4) complete_mono [of _ "places ps" "places (ps @ [x])"] unfolding x places_simps by blast
  have lim: "168 + charges prm ps \<le> IPFRAG_HIGH_THRESH" using snoc.prems(3) t by (simp add: x)
  have "\<forall>(now, p) \<in> set ps. is_fragment ky msg p \<and> now \<le> T \<and> T \<le> now + IP_FRAG_TIME"
    "\<forall>a \<in> places ps. \<forall>b \<in> places ps. apart a b"
    using snoc.prems(1,2) unfolding x places_simps set_append by blast+
  from snoc.IH [OF this lim nc] obtain u where
    u: "defrag_all prm ps s = (map (\<lambda>_. IPF_ISF) ps, u)" "frag_inv M {} u" "alive T u"
      "waiting ky msg (places ps) (168 + charges prm ps) T u" "0 \<le> charges prm ps" by blast
  obtain r s' where r: "ip_defrag_stub prm now p u = (r, s')" by fastforce
  have p: "is_fragment ky msg p" "now \<le> T" "T \<le> now + IP_FRAG_TIME" "\<forall>r \<in> places ps. apart r (frag_place p)"
    using snoc.prems(1,2) by (auto simp: x)
  have "168 \<le> 168 + charges prm ps" using u(5) by simp
  note step = stub_fragment [OF u(2) assms(2-4) u(4,3) p(1,4) this lim p(2,3) assms(7,8) r]
  have "\<not> complete (int (length msg)) (insert (frag_place p) (places ps))" using snoc.prems(4) unfolding x places_simps .
  with step have "frag_inv M {} s'" "r = IPF_ISF" "alive T s'"
    "waiting ky msg (insert (frag_place p) (places ps)) (168 + charges prm ps + (skb_truesize prm p + IPFRAG_SIZE)) T s'"
    by (simp_all only: if_False simp_thms)
  moreover have "defrag_all prm (ps @ [x]) s = (map (\<lambda>_. IPF_ISF) (ps @ [x]), s')"
    unfolding x defrag_all_snoc u(1) using r \<open>r = IPF_ISF\<close> by simp
  ultimately show ?case using u(5) t unfolding x places_simps charges_simps add.assoc by simp
qed

text \<open>C13: The fragments of a datagram, in any order, are put together again.\<close>

theorem fragments_reassembled:
  assumes "frag_inv M {} s" "frag_limit (max_truesize prm) \<le> M" "0 \<le> fp_dev_addon prm" "0 \<le> fp_sk_buff_size prm"
    and "host_of s (dst_of ky) = None" "alive (t0 + IP_FRAG_TIME) s" "msg \<noteq> []" "length msg + 60 \<le> 65535"
    and "\<forall>(now, p) \<in> set (ps @ [l]). is_fragment ky msg p \<and> t0 \<le> now \<and> now \<le> t0 + IP_FRAG_TIME"
    and "\<forall>a \<in> places (ps @ [l]). \<forall>b \<in> places (ps @ [l]). apart a b"
    and "168 + charges prm ps \<le> IPFRAG_HIGH_THRESH"
    and "\<not> complete (int (length msg)) (places ps)" "complete (int (length msg)) (places (ps @ [l]))"
  shows "\<exists>d s'. defrag_all prm (ps @ [l]) s = (map (\<lambda>_. IPF_ISF) ps @ [IPF_NEW d], s') \<and> datagram ky msg d \<and>
    frag_inv M {} s'"
proof -
  obtain now p where l: "l = (now, p)" by fastforce
  have "\<forall>(now, p) \<in> set ps. is_fragment ky msg p \<and> now \<le> t0 + IP_FRAG_TIME \<and> t0 + IP_FRAG_TIME \<le> now + IP_FRAG_TIME"
    "\<forall>a \<in> places ps. \<forall>b \<in> places ps. apart a b"
    using assms(9,10) by (auto simp: l)
  from defrag_waiting [OF assms(1-8) this assms(11,12)] obtain u where
    u: "defrag_all prm ps s = (map (\<lambda>_. IPF_ISF) ps, u)" "frag_inv M {} u" "alive (t0 + IP_FRAG_TIME) u"
      "waiting ky msg (places ps) (168 + charges prm ps) (t0 + IP_FRAG_TIME) u" "0 \<le> charges prm ps" by blast
  obtain r s' where r: "ip_defrag_stub prm now p u = (r, s')" by fastforce
  have "is_fragment ky msg p" "\<forall>r \<in> places ps. apart r (frag_place p)" "now \<le> t0 + IP_FRAG_TIME" "t0 + IP_FRAG_TIME \<le> now + IP_FRAG_TIME"
    using assms(9,10) by (auto simp: l)
  note p = this
  have "168 \<le> 168 + charges prm ps" using u(5) by simp
  note step = stub_fragment [OF u(2) assms(2-4) u(4,3) p(1,2) this assms(11) p(3,4) assms(7,8) r]
  have "complete (int (length msg)) (insert (frag_place p) (places ps))" using assms(13) unfolding l places_simps .
  with step obtain d where "frag_inv M {} s'" "r = IPF_NEW d" "datagram ky msg d" by (auto simp only: if_True)
  moreover have "defrag_all prm (ps @ [l]) s = (map (\<lambda>_. IPF_ISF) ps @ [r], s')"
    unfolding l defrag_all_snoc u(1) using r by simp
  ultimately show ?thesis by blast
qed

definition sample_fragment :: "nat \<Rightarrow> nat \<Rightarrow> nat \<Rightarrow> string \<Rightarrow> string" where
  "sample_fragment n hi lo d = [CHR 0x45, NUL, NUL, char_of n, CHR 0x12, CHR 0x34, char_of hi, char_of lo,
     CHR 0x40, CHR 0x06, NUL, NUL, CHR 0x0A, NUL, NUL, CHR 0x01, CHR 0x0A, NUL, NUL, CHR 0x02] @ d"

definition sample_prm :: frag_prm where
  "sample_prm = \<lparr>fp_dev_addon = 16, fp_sk_buff_size = 168\<rparr>"

theorem fragments_reassembled_witness:
  "\<exists>d s'. defrag_all sample_prm [(500, sample_fragment 24 0 1 ''IJKL''), (700, sample_fragment 28 32 0 ''ABCDEFGH'')] (ip_frag_init 256) =
     ([IPF_ISF, IPF_NEW d], s') \<and> datagram (key (sample_fragment 24 0 1 ''IJKL'')) ''ABCDEFGHIJKL'' d"
proof -
  let ?p = "sample_fragment 24 0 1 ''IJKL''" and ?r = "sample_fragment 28 32 0 ''ABCDEFGH''" and ?m = "''ABCDEFGHIJKL''"
  have places: "frag_place ?p = (8, 4)" "frag_place ?r = (0, 8)"
    by (simp_all add: frag_place_def ip_field_defs sample_fragment_def byte_at_def uchar_def IP_OFFSET_def)
  have fr: "is_fragment (key ?p) ?m ?p" "is_fragment (key ?p) ?m ?r"
    unfolding is_fragment_def places
    by (simp_all add: plain_packet_def ip_field_defs sample_fragment_def byte_at_def uchar_def IP_OFFSET_def IP_MF_def)
  have len: "int (length ?m) = 12" by simp
  have charge: "168 + charges sample_prm [(500, ?p)] \<le> IPFRAG_HIGH_THRESH"
    by (simp add: charges_def skb_truesize_def sample_prm_def IPFRAG_HIGH_THRESH_def IPFRAG_SIZE_def ip_field_defs
        sample_fragment_def byte_at_def uchar_def)
  have lim: "0 \<le> frag_limit (max_truesize sample_prm)"
    by (simp add: frag_limit_def max_truesize_def sample_prm_def IPFRAG_HIGH_THRESH_def IPFRAG_SIZE_def IPH_SIZE_def IPQ_SIZE_def)
  have prm: "fp_dev_addon sample_prm = 16" "fp_sk_buff_size sample_prm = 168" by (simp_all add: sample_prm_def)
  have 1: "host_of (ip_frag_init 256) a = None" for a by (simp add: host_of_def ip_frag_init_def)
  then have 2: "alive T (ip_frag_init 256)" for T by (simp add: alive_def)
  have "\<not> complete 12 {(8, 4)}" unfolding complete_def by (auto intro!: exI [of _ 0])
  moreover have "complete 12 {(8, 4), (0, 8)}" unfolding complete_def by auto
  ultimately show ?thesis
    using fragments_reassembled [OF frag_init_inv [OF lim] order_refl, of 256 "key ?p" 0 ?m "[(500, ?p)]" "(700, ?r)", unfolded len]
      1 2 fr places charge
    by (auto simp: places_def apart_def IP_FRAG_TIME_def prm)
qed

text \<open>C14: The memory held for fragments.\<close>

theorem defrag_memory:
  assumes "0 \<le> fp_dev_addon prm" "0 \<le> fp_sk_buff_size prm" "defrag_all prm ps (ip_frag_init n) = (rs, s)"
  shows "\<not> fg_panic s \<and>
    (\<forall>a h. host_of s a = Some h \<longrightarrow> hf_mem h = sum_list (map queue_charge (hf_ipqueue h)) \<and>
       hf_mem h \<le> frag_limit (max_truesize prm)) \<and>
    set (fg_timers s) = {(a, iq_no q) | a q. \<exists>h. host_of s a = Some h \<and> q \<in> set (hf_ipqueue h)}"
proof -
  have "0 \<le> frag_limit (max_truesize prm)" using assms(1,2)
    by (simp add: frag_limit_def max_truesize_def IPFRAG_HIGH_THRESH_def IPFRAG_SIZE_def IPH_SIZE_def IPQ_SIZE_def)
  from defrag_all_inv [OF frag_init_inv [OF this] assms(1,2) order_refl, of ps n] assms(3)
  have inv: "frag_inv (frag_limit (max_truesize prm)) {} s" by simp
  have "hf_mem h = sum_list (map queue_charge (hf_ipqueue h))" if "host_of s a = Some h" for a h
    using frag_invD(3) [OF inv that] by (simp add: host_ok_def)
  moreover have "live_queues s = {(a, iq_no q) | a q. \<exists>h. host_of s a = Some h \<and> q \<in> set (hf_ipqueue h)}"
    by (auto simp: live_queues_def queue_nos_def split: option.splits)
  ultimately show ?thesis using frag_invD(2,4,7) [OF inv] by auto
qed

theorem defrag_memory_witness:
  "\<not> fg_panic (snd (defrag_all sample_prm [(500, sample_fragment 24 0 1 ''IJKL'')] (ip_frag_init 256)))"
  using defrag_memory [of sample_prm _ 256 "fst (defrag_all sample_prm [(500, sample_fragment 24 0 1 ''IJKL'')] (ip_frag_init 256))"]
  by (simp add: sample_prm_def)

end
