(* ===== verification/IpOptions.thy ===== *)
theory IpOptions
  imports IpFragmentProps
begin

text \<open>
  The options of an IP header (src/src/libnids-1.24/src/ip_options.c): \<open>ip_options_compile\<close>, which
  refuses malformed options and source routes and fills in route and time records in the
  packet.
\<close>

section \<open>The code\<close>

definition IPOPT_END :: nat where "IPOPT_END = 0"
definition IPOPT_NOOP :: nat where "IPOPT_NOOP = 1"
definition IPOPT_RR :: nat where "IPOPT_RR = 7"
definition IPOPT_TIMESTAMP :: nat where "IPOPT_TIMESTAMP = 68"
definition IPOPT_LSRR :: nat where "IPOPT_LSRR = 131"
definition IPOPT_SSRR :: nat where "IPOPT_SSRR = 137"

text \<open>
  What \<open>struct options\<close> keeps: where the source route, the record of the route and the
  timestamps are, and the flags. \<open>faddr\<close> is not set, since \<open>skb\<close> is 1.
\<close>

record ip_options =
  op_srr :: nat
  op_rr :: nat
  op_ts :: nat
  op_strictroute :: bool
  op_changed :: bool
  op_rr_needaddr :: bool
  op_ts_needtime :: bool
  op_ts_needaddr :: bool

definition no_options :: ip_options where
  "no_options = \<lparr>op_srr = 0, op_rr = 0, op_ts = 0, op_strictroute = False, op_changed = False,
     op_rr_needaddr = False, op_ts_needtime = False, op_ts_needaddr = False\<rparr>"

text \<open>
  The bytes that are stored for an address (\<open>skb_pa_addr\<close>) and for a time (\<open>midtime\<close>), and the
  store of one byte; \<open>off\<close> is \<open>optptr - iph\<close>.
\<close>

definition pa_addr_bytes :: string where "pa_addr_bytes = [CHR 0x2F, CHR 0xCB, CHR 0x04, CHR 0x00]"
definition midtime_bytes :: string where "midtime_bytes = [CHR 0x01, CHR 0x00, CHR 0x00, CHR 0x00]"

definition set_byte :: "nat \<Rightarrow> nat \<Rightarrow> string \<Rightarrow> string" where
  "set_byte i n d = mem_copy i [char_of n] d"

text \<open>After the end of the options: the loop counts down but does not move on.\<close>

definition clear_end :: "nat \<Rightarrow> nat \<Rightarrow> ip_options \<Rightarrow> string \<Rightarrow> ip_options \<times> string" where
  "clear_end l off opt d =
     (if l > 1 \<and> byte_at d (off + 1) \<noteq> IPOPT_END then (opt\<lparr>op_changed := True\<rparr>, set_byte (off + 1) IPOPT_END d)
      else (opt, d))"

text \<open>The three options that are looked into; \<open>None\<close> is \<open>goto error\<close>.\<close>

definition source_route :: "nat \<Rightarrow> nat \<Rightarrow> nat \<Rightarrow> ip_options \<Rightarrow> string \<Rightarrow> (ip_options \<times> string) option" where
  "source_route kind off optlen opt d =
     (if optlen < 3 then None
      else if byte_at d (off + 2) < 4 then None
      else if op_srr opt \<noteq> 0 then None
      else Some (opt\<lparr>op_strictroute := (kind = IPOPT_SSRR), op_srr := off\<rparr>, d))"

definition record_route :: "nat \<Rightarrow> nat \<Rightarrow> ip_options \<Rightarrow> string \<Rightarrow> (ip_options \<times> string) option" where
  "record_route off optlen opt d =
     (let ptr = byte_at d (off + 2) in
      if op_rr opt \<noteq> 0 then None
      else if optlen < 3 then None
      else if ptr < 4 then None
      else if ptr \<le> optlen then
        if ptr + 3 > optlen then None
        else Some (opt\<lparr>op_changed := True, op_rr_needaddr := True, op_rr := off\<rparr>,
                   set_byte (off + 2) (ptr + 4) (mem_copy (off + (ptr - 1)) pa_addr_bytes d))
      else Some (opt\<lparr>op_rr := off\<rparr>, d))"

definition record_time :: "nat \<Rightarrow> nat \<Rightarrow> ip_options \<Rightarrow> string \<Rightarrow> (ip_options \<times> string) option" where
  "record_time off optlen opt d =
     (let ptr = byte_at d (off + 2); flags = byte_at d (off + 3) mod 16; overflow = byte_at d (off + 3) div 16 in
      if op_ts opt \<noteq> 0 then None
      else if optlen < 4 then None
      else if ptr < 5 then None
      else if ptr \<le> optlen then
        if ptr + 3 > optlen then None
        else if flags = 0 then
          Some (opt\<lparr>op_ts := off, op_ts_needtime := True, op_changed := True\<rparr>,
            mem_copy (off + (ptr - 1)) midtime_bytes (set_byte (off + 2) (ptr + 4) d))
        else if flags = 1 then
          if ptr + 7 > optlen then None
          else Some (opt\<lparr>op_ts := off, op_ts_needaddr := True, op_ts_needtime := True, op_changed := True\<rparr>,
            mem_copy (off + (ptr + 3)) midtime_bytes
              (set_byte (off + 2) (ptr + 8) (mem_copy (off + (ptr - 1)) pa_addr_bytes d)))
        else if flags = 3 then
          if ptr + 7 > optlen then None else Some (opt\<lparr>op_ts := off\<rparr>, d)
        else None
      else if overflow = 15 then None
      else Some (opt\<lparr>op_ts := off, op_changed := True\<rparr>, set_byte (off + 3) ((overflow + 1) * 16 + flags) d))"

definition compile_option :: "nat \<Rightarrow> nat \<Rightarrow> nat \<Rightarrow> ip_options \<Rightarrow> string \<Rightarrow> (ip_options \<times> string) option" where
  "compile_option kind off optlen opt d =
     (if kind = IPOPT_SSRR \<or> kind = IPOPT_LSRR then source_route kind off optlen opt d
      else if kind = IPOPT_RR then record_route off optlen opt d
      else if kind = IPOPT_TIMESTAMP then record_time off optlen opt d
      else Some (opt, d))"

text \<open>
  The walk over the options; \<open>l\<close> bytes are left. The result is whether it ended with
  \<open>goto error\<close>. Where one byte is left the length is read from behind the header; whatever
  is there, it is no length for this option.
\<close>

function options_loop :: "nat \<Rightarrow> nat \<Rightarrow> ip_options \<Rightarrow> string \<Rightarrow> bool \<times> ip_options \<times> string" where
  "options_loop l off opt d =
     (if l = 0 then (False, opt, d)
      else
        let kind = byte_at d off in
        if kind = IPOPT_END then (False, clear_end l off opt d)
        else if kind = IPOPT_NOOP then options_loop (l - 1) (off + 1) opt d
        else
          let optlen = byte_at d (off + 1) in
          if optlen < 2 \<or> optlen > l then (True, opt, d)
          else
            (case compile_option kind off optlen opt d of
               None \<Rightarrow> (True, opt, d)
             | Some (opt', d') \<Rightarrow> options_loop (l - optlen) (off + optlen) opt' d'))"
  by pat_completeness auto
termination by (relation "measure fst") auto

declare options_loop.simps [simp del]

definition ip_options_compile :: "string \<Rightarrow> int \<times> string" where
  "ip_options_compile iph =
     (case options_loop (ip_hl iph * 4 - 20) 20 no_options iph of
        (err, opt, d) \<Rightarrow> (if \<not> err \<and> op_srr opt = 0 then 0 else -1, d))"

section \<open>What is written\<close>

text \<open>\<open>d'\<close> differs from \<open>d\<close> only between \<open>i\<close> and \<open>j\<close>.\<close>

definition keeps :: "nat \<Rightarrow> nat \<Rightarrow> string \<Rightarrow> string \<Rightarrow> bool" where
  "keeps i j d d' \<longleftrightarrow> length d' = length d \<and> take i d' = take i d \<and> drop j d' = drop j d"

lemma keeps_refl [simp]: "keeps i j d d"
  by (simp add: keeps_def)

lemma keeps_trans [trans]: "keeps i j d d' \<Longrightarrow> keeps i j d' d'' \<Longrightarrow> keeps i j d d''"
  by (simp add: keeps_def)

lemma keeps_mono:
  assumes "keeps i j d d'" "i' \<le> i" "j \<le> j'"
  shows "keeps i' j' d d'"
proof -
  have "take i' x = take i' (take i x)" "drop j' x = drop (j' - j) (drop j x)" for x :: string
    using assms(2,3) by (simp_all add: min_absorb1)
  with assms(1) show ?thesis unfolding keeps_def by metis
qed

lemma keeps_mem_copy: "i \<le> k \<Longrightarrow> k + length b \<le> j \<Longrightarrow> j \<le> length d \<Longrightarrow> keeps i j d (mem_copy k b d)"
  by (simp add: keeps_def drop_mem_copy) (simp add: mem_copy_def min_absorb1)

lemma keeps_set_byte: "i \<le> k \<Longrightarrow> k < j \<Longrightarrow> j \<le> length d \<Longrightarrow> keeps i j d (set_byte k n d)"
  by (simp add: set_byte_def keeps_mem_copy)

lemma length_set_byte: "k < length d \<Longrightarrow> length (set_byte k n d) = length d"
  by (simp add: set_byte_def)

lemmas write_simps = length_set_byte pa_addr_bytes_def midtime_bytes_def

lemma compile_option_keeps:
  assumes "compile_option kind off optlen opt d = Some (opt', d')" "off + optlen \<le> length d"
  shows "keeps off (off + optlen) d d'"
proof -
  have "keeps off (off + optlen) d d'" if "record_route off optlen opt d = Some (opt', d')"
    using that assms(2)
    by (auto simp: record_route_def Let_def write_simps split: if_splits intro!: keeps_trans [OF keeps_mem_copy keeps_set_byte])
  moreover have "keeps off (off + optlen) d d'" if "record_time off optlen opt d = Some (opt', d')"
    using that assms(2)
    by (auto simp: record_time_def Let_def write_simps split: if_splits
        intro!: keeps_set_byte keeps_trans [OF keeps_set_byte keeps_mem_copy]
          keeps_trans [OF keeps_trans [OF keeps_mem_copy keeps_set_byte] keeps_mem_copy])
  ultimately show ?thesis using assms(1)
    by (auto simp: compile_option_def source_route_def split: if_splits)
qed

lemma options_loop_keeps:
  "off + l \<le> length d \<Longrightarrow> options_loop l off opt d = (e, opt', d') \<Longrightarrow> keeps off (off + l) d d'"
proof (induction l off opt d rule: options_loop.induct)
  case (1 l off opt d)
  let ?k = "byte_at d off" and ?n = "byte_at d (off + 1)"
  show ?case
  proof (cases "l = 0 \<or> ?k = IPOPT_END")
    case True
    with 1(3,4) show ?thesis
      by (auto simp: options_loop.simps [of l] clear_end_def intro!: keeps_set_byte split: if_splits)
  next
    case False
    then have l: "l \<noteq> 0" "?k \<noteq> IPOPT_END" by auto
    show ?thesis
    proof (cases "?k = IPOPT_NOOP")
      case True
      with 1(4) l have "options_loop (l - 1) (off + 1) opt d = (e, opt', d')" by (subst (asm) options_loop.simps) simp
      from 1(1) [OF l(1) refl l(2) True _ this] 1(3) l show ?thesis by (auto elim: keeps_mono)
    next
      case noop: False
      show ?thesis
      proof (cases "(?n < 2 \<or> l < ?n) \<or> compile_option ?k off ?n opt d = None")
        case True
        with 1(4) l noop show ?thesis by (subst (asm) options_loop.simps) (auto simp: Let_def split: if_splits)
      next
        case n: False
        then obtain u where u: "compile_option ?k off ?n opt d = Some u" by auto
        obtain opt1 d1 where u1: "u = (opt1, d1)" by fastforce
        have n': "\<not> (?n < 2 \<or> l < ?n)" using n by blast
        have k1: "keeps off (off + ?n) d d1" using compile_option_keeps u n' 1(3) u1 by simp
        have "options_loop (l - ?n) (off + ?n) opt1 d1 = (e, opt', d')"
          using 1(4) l noop n' u u1 by (subst (asm) options_loop.simps) (simp add: Let_def)
        from 1(2) [OF l(1) refl l(2) noop refl n' u u1 [symmetric] _ this] 1(3) n' k1
        have "keeps (off + ?n) (off + l) d1 d'" by (simp add: keeps_def)
        then have "keeps off (off + l) d1 d'" by (rule keeps_mono) simp_all
        moreover have "keeps off (off + l) d d1" using k1 n' by (auto elim: keeps_mono)
        ultimately show ?thesis by (rule keeps_trans [rotated])
      qed
    qed
  qed
qed

text \<open>C15: Compiling the options writes nothing but the options.\<close>

theorem options_in_header:
  assumes "5 \<le> ip_hl d" "4 * ip_hl d \<le> length d" "ip_options_compile d = (r, d')"
  shows "length d' = length d \<and> take 20 d' = take 20 d \<and> drop (4 * ip_hl d) d' = drop (4 * ip_hl d) d"
proof -
  obtain e opt where l: "options_loop (ip_hl d * 4 - 20) 20 no_options d = (e, opt, d')"
    using assms(3) by (auto simp: ip_options_compile_def split: prod.splits)
  have "keeps 20 (20 + (ip_hl d * 4 - 20)) d d'" using options_loop_keeps [OF _ l] assms(1,2) by simp
  moreover have "20 + (ip_hl d * 4 - 20) = 4 * ip_hl d" using assms(1) by simp
  ultimately show ?thesis by (simp add: keeps_def)
qed

text \<open>A sample header: 28 bytes, with a source route behind a no-operation.\<close>

definition sample_options :: string where
  "sample_options = (CHR 0x47 # replicate 19 NUL) @ [CHR 0x01, CHR 0x83, CHR 0x07, CHR 0x04, NUL, NUL, NUL, NUL]"

theorem options_in_header_witness:
  "length (snd (ip_options_compile (sample_options @ ''ab''))) = 30 \<and>
   drop 28 (snd (ip_options_compile (sample_options @ ''ab''))) = ''ab''"
proof -
  have "4 * ip_hl (sample_options @ ''ab'') = 28" by (simp add: sample_options_def ip_hl_def byte_at_def uchar_def)
  moreover have "length (sample_options @ ''ab'') = 30" "drop 28 (sample_options @ ''ab'') = ''ab''" by (simp_all add: sample_options_def)
  ultimately show ?thesis
    using options_in_header [of "sample_options @ ''ab''", OF _ _ prod.collapse [symmetric]] by simp
qed

section \<open>Source routes\<close>

text \<open>The options of a header as a list: a no-operation, or a kind with its data.\<close>

datatype ip_option = Noop | Opt nat string

fun option_bytes :: "ip_option \<Rightarrow> string" where
  "option_bytes Noop = [CHR 0x01]"
| "option_bytes (Opt kind data) = char_of kind # char_of (length data + 2) # data"

fun option_wf :: "ip_option \<Rightarrow> bool" where
  "option_wf Noop = True"
| "option_wf (Opt kind data) \<longleftrightarrow> 1 < kind \<and> kind < 256 \<and> length data < 254"

definition options_bytes :: "ip_option list \<Rightarrow> string" where
  "options_bytes os = concat (map option_bytes os)"

fun is_source_route :: "ip_option \<Rightarrow> bool" where
  "is_source_route Noop = False"
| "is_source_route (Opt kind data) \<longleftrightarrow> kind = IPOPT_LSRR \<or> kind = IPOPT_SSRR"

text \<open>Options that are only stepped over.\<close>

fun is_passive :: "ip_option \<Rightarrow> bool" where
  "is_passive Noop = True"
| "is_passive (Opt kind data) \<longleftrightarrow> kind \<notin> {IPOPT_LSRR, IPOPT_SSRR, IPOPT_RR, IPOPT_TIMESTAMP}"

lemma options_bytes_simps [simp]:
  "options_bytes [] = []" "options_bytes (opt # os) = option_bytes opt @ options_bytes os"
  by (simp_all add: options_bytes_def)

lemma compile_option_srr:
  "compile_option kind off n opt d = Some (opt', d') \<Longrightarrow> 0 < off \<Longrightarrow> op_srr opt \<noteq> 0 \<or> kind = IPOPT_LSRR \<or> kind = IPOPT_SSRR \<Longrightarrow>
   op_srr opt' \<noteq> 0"
  by (auto simp: compile_option_def source_route_def record_route_def record_time_def Let_def split: if_splits)

lemma clear_end_srr [simp]: "op_srr (fst (clear_end l off opt d)) = op_srr opt"
  by (simp add: clear_end_def)

text \<open>One step of the walk.\<close>

lemma options_loop_noop:
  "l \<noteq> 0 \<Longrightarrow> byte_at d off = IPOPT_NOOP \<Longrightarrow> options_loop l off opt d = options_loop (l - 1) (off + 1) opt d"
  by (subst options_loop.simps) (simp add: Let_def IPOPT_NOOP_def IPOPT_END_def)

lemma options_loop_option:
  assumes "l \<noteq> 0" "1 < byte_at d off" "2 \<le> n" "n \<le> l" "byte_at d (off + 1) = n"
  shows "options_loop l off opt d =
    (case compile_option (byte_at d off) off n opt d of
       None \<Rightarrow> (True, opt, d) | Some (opt', d') \<Rightarrow> options_loop (l - n) (off + n) opt' d')"
  using assms by (subst options_loop.simps) (simp add: Let_def IPOPT_NOOP_def IPOPT_END_def)

lemma options_loop_srr:
  "0 < off \<Longrightarrow> op_srr opt \<noteq> 0 \<Longrightarrow> options_loop l off opt d = (e, opt', d') \<Longrightarrow> e \<or> op_srr opt' \<noteq> 0"
proof (induction l off opt d rule: options_loop.induct)
  case (1 l off opt d)
  let ?k = "byte_at d off" and ?n = "byte_at d (off + 1)"
  consider (stop) "l = 0 \<or> ?k = IPOPT_END" | (noop) "l \<noteq> 0" "?k \<noteq> IPOPT_END" "?k = IPOPT_NOOP"
    | (bad) "l \<noteq> 0" "?k \<noteq> IPOPT_END" "?k \<noteq> IPOPT_NOOP" "(?n < 2 \<or> l < ?n) \<or> compile_option ?k off ?n opt d = None"
    | (opt) opt1 d1 where "l \<noteq> 0" "?k \<noteq> IPOPT_END" "?k \<noteq> IPOPT_NOOP" "\<not> (?n < 2 \<or> l < ?n)"
        "compile_option ?k off ?n opt d = Some (opt1, d1)"
    by fastforce
  then show ?case
  proof cases
    case stop
    with 1(4,5) show ?thesis
      by (subst (asm) options_loop.simps) (auto simp: Let_def clear_end_def split: if_splits)
  next
    case noop
    with 1(5) options_loop_noop have "options_loop (l - 1) (off + 1) opt d = (e, opt', d')" by simp
    from 1(1) [OF noop(1) refl noop(2,3) _ 1(4) this] show ?thesis by simp
  next
    case bad
    with 1(5) show ?thesis by (subst (asm) options_loop.simps) (auto simp: Let_def split: if_splits)
  next
    case opt
    have "options_loop (l - ?n) (off + ?n) opt1 d1 = (e, opt', d')"
      using 1(5) opt by (subst (asm) options_loop.simps) (simp add: Let_def)
    from 1(2) [OF opt(1) refl opt(2,3) refl opt(4,5) refl _ _ this] compile_option_srr [OF opt(5) 1(3)] 1(3,4)
    show ?thesis by simp
  qed
qed

lemma byte_at_drop: "drop off d = c # r \<Longrightarrow> byte_at d off = uchar c"
proof -
  assume "drop off d = c # r"
  moreover from this have off: "off < length d" by (metis drop_all list.distinct(1) not_le)
  ultimately have "d ! off = c" using hd_drop_conv_nth [OF off] by simp
  with off show ?thesis by (simp add: byte_at_def)
qed

lemma drop_plus: "drop off d = p @ r \<Longrightarrow> drop (off + length p) d = r"
proof -
  assume "drop off d = p @ r"
  then have "drop (length p) (drop off d) = r" by simp
  then show ?thesis by (simp add: add.commute)
qed

lemma option_at:
  assumes "drop off d = option_bytes (Opt kind data) @ r" "option_wf (Opt kind data)"
  shows "byte_at d off = kind" "byte_at d (off + 1) = length data + 2" "drop (off + (length data + 2)) d = r"
    "off + (length data + 2) \<le> length d"
proof -
  have 1: "drop (off + 1) d = char_of (length data + 2) # data @ r" using drop_plus [of off d "[char_of kind]"] assms(1) by simp
  show "byte_at d off = kind" "byte_at d (off + 1) = length data + 2"
    using byte_at_drop [OF 1] byte_at_drop [of off d "char_of kind"] assms by simp_all
  show "drop (off + (length data + 2)) d = r" using drop_plus [OF assms(1)] by simp
  have "length (drop off d) \<ge> length data + 2" unfolding assms(1) by simp
  then show "off + (length data + 2) \<le> length d" by simp
qed

lemma options_loop_route:
  assumes "drop off d = options_bytes os @ r" "list_all option_wf os" "length (options_bytes os) \<le> l" "0 < off"
    "op_srr opt \<noteq> 0 \<or> list_ex is_source_route os" "options_loop l off opt d = (e, opt', d')"
  shows "e \<or> op_srr opt' \<noteq> 0"
  using assms
proof (induction os arbitrary: l off opt d)
  case Nil
  then show ?case using options_loop_srr by simp
next
  case (Cons a os)
  show ?case
  proof (cases a)
    case Noop
    then have d: "drop off d = CHR 0x01 # options_bytes os @ r" using Cons.prems(1) by simp
    have b: "byte_at d off = IPOPT_NOOP" using byte_at_drop [OF d] by (simp add: IPOPT_NOOP_def uchar_def)
    have "drop (off + 1) d = options_bytes os @ r" using drop_plus [of off d "[CHR 0x01]"] d by simp
    from Cons.IH [OF this, of "l - 1" opt] Cons.prems Noop b options_loop_noop [of l d off opt] show ?thesis by auto
  next
    case (Opt k s)
    have wf: "option_wf (Opt k s)" using Cons.prems(2) Opt by simp
    have "drop off d = option_bytes (Opt k s) @ options_bytes os @ r" using Cons.prems(1) Opt by simp
    note at = option_at [OF this wf]
    have l: "length s + 2 \<le> l" using Cons.prems(3) Opt by simp
    have loop: "options_loop l off opt d = (case compile_option k off (length s + 2) opt d of
       None \<Rightarrow> (True, opt, d) | Some (opt', d') \<Rightarrow> options_loop (l - (length s + 2)) (off + (length s + 2)) opt' d')"
      using options_loop_option [of l d off "length s + 2" opt] l wf at(1,2) by simp
    show ?thesis
    proof (cases "compile_option k off (length s + 2) opt d")
      case None
      with loop Cons.prems(6) show ?thesis by simp
    next
      case (Some u)
      obtain opt1 d1 where u: "u = (opt1, d1)" by fastforce
      from compile_option_keeps [of k off "length s + 2" opt d opt1 d1] Some u at(3,4)
      have d1: "drop (off + (length s + 2)) d1 = options_bytes os @ r" by (simp add: keeps_def)
      have "op_srr opt1 \<noteq> 0 \<or> list_ex is_source_route os"
        using compile_option_srr [of k off "length s + 2" opt d opt1 d1] Cons.prems(4,5) Some u Opt
          by (auto simp: compile_option_def source_route_def record_route_def record_time_def Let_def split: if_splits)
      from Cons.IH [OF d1, of "l - (length s + 2)" opt1] this Cons.prems Opt loop Some u l show ?thesis by auto
    qed
  qed
qed

lemma options_loop_passive:
  assumes "drop off d = options_bytes os @ replicate k NUL @ r" "list_all option_wf os" "list_all is_passive os"
    "l = length (options_bytes os) + k"
  shows "options_loop l off opt d = (False, opt, d)"
  using assms
proof (induction os arbitrary: l off)
  case Nil
  show ?case
  proof (cases k)
    case (Suc j)
    have "uchar NUL = IPOPT_END" by (simp add: IPOPT_END_def uchar_def)
    then have "byte_at d off = IPOPT_END" "byte_at d (off + 1) = IPOPT_END \<or> j = 0"
      using byte_at_drop [of off d NUL] byte_at_drop [of "off + 1" d NUL] drop_plus [of off d "[NUL]"] Nil(1) Suc
      by (cases j; simp)+
    with Nil Suc show ?thesis by (subst options_loop.simps) (auto simp: Let_def clear_end_def)
  qed (use Nil in \<open>simp add: options_loop.simps\<close>)
next
  case (Cons a os)
  show ?case
  proof (cases a)
    case Noop
    then have d: "drop off d = CHR 0x01 # options_bytes os @ replicate k NUL @ r" using Cons.prems(1) by simp
    have b: "byte_at d off = IPOPT_NOOP" using byte_at_drop [OF d] by (simp add: IPOPT_NOOP_def uchar_def)
    have "drop (off + 1) d = options_bytes os @ replicate k NUL @ r" using drop_plus [of off d "[CHR 0x01]"] d by simp
    from Cons.IH [OF this] Cons.prems Noop b options_loop_noop [of l d off opt] show ?thesis by auto
  next
    case (Opt n s)
    have wf: "option_wf (Opt n s)" using Cons.prems(2) Opt by simp
    have "drop off d = option_bytes (Opt n s) @ options_bytes os @ replicate k NUL @ r" using Cons.prems(1) Opt by simp
    note at = option_at [OF this wf]
    have "options_loop l off opt d = (case compile_option n off (length s + 2) opt d of
       None \<Rightarrow> (True, opt, d) | Some (opt', d') \<Rightarrow> options_loop (l - (length s + 2)) (off + (length s + 2)) opt' d')"
      using options_loop_option [of l d off "length s + 2" opt] Cons.prems(4) Opt wf at(1,2) by simp
    moreover have "compile_option n off (length s + 2) opt d = Some (opt, d)"
      using Cons.prems(3) Opt by (simp add: compile_option_def)
    ultimately show ?thesis using Cons.IH [OF at(3)] Cons.prems Opt by simp
  qed
qed

text \<open>
  C16: A packet with a source route among its options is refused; one with only passive
  options, padded with zeros, passes unchanged.
\<close>

theorem source_routes_refused:
  assumes "length hdr = 20" "list_all option_wf os"
    "ip_hl (hdr @ options_bytes os @ pad @ payload) * 4 = 20 + length (options_bytes os @ pad)"
  shows "(list_ex is_source_route os \<longrightarrow> fst (ip_options_compile (hdr @ options_bytes os @ pad @ payload)) = -1) \<and>
    (list_all is_passive os \<and> set pad \<subseteq> {NUL} \<longrightarrow>
       ip_options_compile (hdr @ options_bytes os @ pad @ payload) = (0, hdr @ options_bytes os @ pad @ payload))"
proof -
  let ?d = "hdr @ options_bytes os @ pad @ payload"
  have d: "drop 20 ?d = options_bytes os @ pad @ payload" using assms(1) by simp
  have l: "ip_hl ?d * 4 - 20 = length (options_bytes os) + length pad" using assms(3) by simp
  obtain e opt d' where loop: "options_loop (ip_hl ?d * 4 - 20) 20 no_options ?d = (e, opt, d')" by (metis prod_cases3)
  have "e \<or> op_srr opt \<noteq> 0" if "list_ex is_source_route os"
    using options_loop_route [OF d assms(2) _ _ _ loop] l that by simp
  moreover have "options_loop (ip_hl ?d * 4 - 20) 20 no_options ?d = (False, no_options, ?d)"
    if "list_all is_passive os" "set pad \<subseteq> {NUL}"
  proof -
    have "pad = replicate (length pad) NUL" using that(2) by (intro replicate_eqI) auto
    with d have "drop 20 ?d = options_bytes os @ replicate (length pad) NUL @ payload" by simp
    from options_loop_passive [OF this assms(2) that(1) l] show ?thesis .
  qed
  ultimately show ?thesis using loop by (auto simp: ip_options_compile_def no_options_def)
qed

theorem source_routes_refused_witness: "fst (ip_options_compile sample_options) = -1"
proof -
  let ?h = "CHR 0x47 # replicate 19 NUL" and ?o = "[Noop, Opt 131 [CHR 0x04, NUL, NUL, NUL, NUL]]"
  have s: "?h @ options_bytes ?o @ [] @ [] = sample_options" by (simp add: sample_options_def) code_simp
  show ?thesis
    using source_routes_refused [of ?h ?o "[]" "[]", unfolded s]
    by (simp add: sample_options_def ip_hl_def byte_at_def uchar_def IPOPT_LSRR_def)
qed

end
