(* ===== verification/Capture.thy ===== *)
theory Capture
  imports IpOptions Network
begin

text \<open>
  The packets on their way from the capture library to the monitor (libnids.c): the header of
  the link, the queue between the two threads, the IP header with its options, the
  fragments, and then the protocols.
\<close>

section \<open>The link\<close>

text \<open>The link types of the capture library that libnids knows.\<close>

datatype link = DLT_NULL | DLT_EN10MB | DLT_IEEE802 | DLT_SLIP | DLT_PPP | DLT_FDDI | DLT_RAW | DLT_PPP_SERIAL
  | DLT_IEEE802_11 | DLT_LINUX_SLL | DLT_PRISM_HEADER | DLT_IEEE802_11_RADIO | DLT_UNKNOWN

text \<open>
  A captured frame: \<open>caplen\<close>, \<open>len\<close> and the seconds of \<open>struct pcap_pkthdr\<close>, and the memory from
  its first byte on, of which \<open>caplen\<close> bytes are the frame.
\<close>

record frame =
  fm_caplen :: nat
  fm_len :: nat
  fm_sec :: int
  fm_data :: string

text \<open>The frame control of a wireless frame.\<close>

definition T_DATA :: nat where "T_DATA = 2"
definition ETHERTYPE_IP :: u16 where "ETHERTYPE_IP = 0x0800"
definition LLC_FRAME_SIZE :: nat where "LLC_FRAME_SIZE = 8"
definition FC_TYPE :: "nat \<Rightarrow> nat" where "FC_TYPE fc = fc div 4 mod 4"
definition FC_SUBTYPE :: "nat \<Rightarrow> nat" where "FC_SUBTYPE fc = fc div 16 mod 16"
definition DATA_FRAME_IS_QOS :: "nat \<Rightarrow> bool" where "DATA_FRAME_IS_QOS x \<longleftrightarrow> bit x 3"
definition FC_WEP :: "nat \<Rightarrow> bool" where "FC_WEP fc \<longleftrightarrow> bit fc 14"
definition FC_TO_DS :: "nat \<Rightarrow> bool" where "FC_TO_DS fc \<longleftrightarrow> bit fc 8"
definition FC_FROM_DS :: "nat \<Rightarrow> bool" where "FC_FROM_DS fc \<longleftrightarrow> bit fc 9"

text \<open>
  The value of \<open>nids_linkoffset\<close> after a frame, and whether the frame goes on. The wireless
  headers are read without a look at \<open>caplen\<close>.
\<close>

definition wireless_offset :: "nat \<Rightarrow> frame \<Rightarrow> nat \<times> bool" where
  "wireless_offset off0 f =
     (let fc = le16 (fm_data f) off0 in
      if FC_TYPE fc \<noteq> T_DATA \<or> FC_WEP fc then (off0, False)
      else
        let off1 = off0 + (if FC_TO_DS fc \<and> FC_FROM_DS fc then 30 else 24);
            off2 = off1 + (if DATA_FRAME_IS_QOS (FC_SUBTYPE fc) then 2 else 0) in
        if fm_len f < off2 + LLC_FRAME_SIZE then (off2, False)
        else if be16 (fm_data f) (off2 + 6) \<noteq> ETHERTYPE_IP then (off2, False)
        else (off2 + LLC_FRAME_SIZE, True))"

definition ethernet_offset :: "nat \<Rightarrow> frame \<Rightarrow> nat \<times> bool" where
  "ethernet_offset off f =
     (if fm_caplen f < 14 then (off, False)
      else if byte_at (fm_data f) 12 = 8 \<and> byte_at (fm_data f) 13 = 0 then (14, True)
      else if byte_at (fm_data f) 12 = 0x81 \<and> byte_at (fm_data f) 13 = 0 then (18, True)
      else (off, False))"

definition link_offset :: "link \<Rightarrow> nat \<Rightarrow> frame \<Rightarrow> nat \<times> bool" where
  "link_offset lt off f =
     (case (case lt of
              DLT_EN10MB \<Rightarrow> ethernet_offset off f
            | DLT_PRISM_HEADER \<Rightarrow> wireless_offset 144 f
            | DLT_IEEE802_11_RADIO \<Rightarrow> wireless_offset (le16 (fm_data f) 2) f
            | DLT_IEEE802_11 \<Rightarrow> wireless_offset 0 f
            | _ \<Rightarrow> (off, True)) of
        (off', go) \<Rightarrow> (off', go \<and> \<not> fm_caplen f < off'))"

section \<open>The state\<close>

text \<open>
  The parameters: those of the parts, and of libnids.c. The functions for UDP are a parameter
  as in \<open>gen_ip_proc\<close>.
\<close>

record cap_prm =
  cp_nids :: nids_prm
  cp_scan :: scan_prm
  cp_frag :: frag_prm
  cp_link :: link
  cp_multiproc :: bool
  cp_queue_limit :: int

text \<open>\<open>nids_linkoffset\<close>, \<open>cap_queue\<close>, the fragments, the streams and the number of warnings.\<close>

record 'w capture =
  ca_linkoffset :: nat
  ca_queue :: "string list"
  ca_frag :: frag_state
  ca_engine :: "'w tcp_engine"
  ca_warnings :: nat

type_synonym 'w udp_proc = "tuple4 \<Rightarrow> string \<Rightarrow> 'w \<Rightarrow> 'w"

section \<open>An IP packet\<close>

definition nids_ip_filter :: "string \<Rightarrow> int \<Rightarrow> bool" where
  "nids_ip_filter x len = True"

definition cap_warn :: "'w capture \<Rightarrow> 'w capture" where
  "cap_warn c = c\<lparr>ca_warnings := ca_warnings c + 1\<rparr>"

definition bad_ip_header :: "cap_prm \<Rightarrow> string \<Rightarrow> bool" where
  "bad_ip_header prm data \<longleftrightarrow>
     length data < 20 \<or> ip_hl data < 5 \<or> ip_v data \<noteq> 4 \<or>
     ip_fast_csum (np_skip_checksum (cp_nids prm)) (np_chksum_ctl (cp_nids prm)) data (ip_hl data) \<noteq> 0 \<or>
     length data < unat (ip_len data) \<or> unat (ip_len data) < ip_hl data * 4"

definition skb_len :: "cap_prm \<Rightarrow> bool \<Rightarrow> string \<Rightarrow> int" where
  "skb_len prm need_free iph =
     (int (unat (ip_len iph)) + 16 + (if need_free then 0 else fp_dev_addon (cp_frag prm)) + 15) div 16 * 16 +
     fp_sk_buff_size (cp_frag prm)"

text \<open>
  \<open>gen_ip_frag_proc\<close> at the time \<open>now\<close> (milliseconds). The packet that goes on to the protocols is
  the datagram put together from fragments or the packet itself, with its options compiled.
  After \<open>panic\<close> there is no process any more.
\<close>

definition to_protocols ::
  "cap_prm \<Rightarrow> 'w lurker_proc \<Rightarrow> 'w udp_proc list \<Rightarrow> int \<Rightarrow> bool \<Rightarrow> string \<Rightarrow> 'w capture \<Rightarrow> 'w capture" where
  "to_protocols prm proc udp now need_free iph c =
     c\<lparr>ca_engine := gen_ip_proc (cp_nids prm) (cp_scan prm) proc udp now iph (skb_len prm need_free iph) (ca_engine c)\<rparr>"

definition gen_ip_frag_proc ::
  "cap_prm \<Rightarrow> 'w lurker_proc \<Rightarrow> 'w udp_proc list \<Rightarrow> int \<Rightarrow> string \<Rightarrow> 'w capture \<Rightarrow> 'w capture" where
  "gen_ip_frag_proc prm proc udp now data c =
     (if fg_panic (ca_frag c) then c
      else if \<not> nids_ip_filter data (int (length data)) then c
      else if bad_ip_header prm data then cap_warn c
      else
        case (if ip_hl data > 5 then ip_options_compile data else (0, data)) of (r, iph) \<Rightarrow>
        if r \<noteq> 0 then cap_warn c
        else
          case ip_defrag_stub (cp_frag prm) now iph (ca_frag c) of (f, s) \<Rightarrow>
          let c' = c\<lparr>ca_frag := s\<rparr> in
          if fg_panic s then c'
          else case f of
            IPF_ISF \<Rightarrow> c'
          | IPF_NOTF \<Rightarrow> to_protocols prm proc udp now False iph c'
          | IPF_NEW d \<Rightarrow> to_protocols prm proc udp now True d c')"

text \<open>The registered functions are \<open>frag_callback\<close> of main.c, which does nothing, and this one.\<close>

definition frag_callback :: "string \<Rightarrow> 'w capture \<Rightarrow> 'w capture" where
  "frag_callback a_packet c = c"

definition call_ip_frag_procs :: "(string \<Rightarrow> 'w capture \<Rightarrow> 'w capture) list \<Rightarrow> string \<Rightarrow> 'w capture \<Rightarrow> 'w capture" where
  "call_ip_frag_procs procs data c = fold (\<lambda>item. item data) procs c"

section \<open>The two threads\<close>

text \<open>What precedes the frame itself: the timeouts, with the time of the frame.\<close>

definition frame_time :: "cap_prm \<Rightarrow> 'w lurker_proc \<Rightarrow> frame \<Rightarrow> 'w capture \<Rightarrow> 'w capture" where
  "frame_time prm proc f c =
     (let e = ca_engine c;
          e' = (if te_timeouts e \<noteq> [] then tcp_check_timeouts (cp_nids prm) proc (fm_sec f) (te_timeouts e) e else e)
      in c\<lparr>ca_engine := e'\<lparr>te_now := fm_sec f\<rparr>\<rparr>)"

text \<open>The queue has a place for one packet more than its limit.\<close>

definition cap_queue_push :: "cap_prm \<Rightarrow> string \<Rightarrow> 'w capture \<Rightarrow> 'w capture" where
  "cap_queue_push prm data c =
     (if int (length (ca_queue c)) > cp_queue_limit prm then c else c\<lparr>ca_queue := ca_queue c @ [data]\<rparr>)"

definition nids_pcap_handler ::
  "cap_prm \<Rightarrow> 'w lurker_proc \<Rightarrow> (int \<Rightarrow> string \<Rightarrow> 'w capture \<Rightarrow> 'w capture) list \<Rightarrow> int \<Rightarrow> frame \<Rightarrow> 'w capture \<Rightarrow> 'w capture" where
  "nids_pcap_handler prm proc procs now f c =
     (case link_offset (cp_link prm) (ca_linkoffset c) f of (off, go) \<Rightarrow>
       let c1 = (frame_time prm proc f c)\<lparr>ca_linkoffset := off\<rparr>;
           data = take (fm_caplen f - off) (drop off (fm_data f)) in
       if \<not> go then c1
       else if cp_multiproc prm then cap_queue_push prm data c1
       else call_ip_frag_procs (map (\<lambda>p. p now) procs) data c1)"

text \<open>One round of the other thread; on an empty queue it waits.\<close>

definition cap_queue_process ::
  "(int \<Rightarrow> string \<Rightarrow> 'w capture \<Rightarrow> 'w capture) list \<Rightarrow> int \<Rightarrow> 'w capture \<Rightarrow> 'w capture" where
  "cap_queue_process procs now c =
     (case ca_queue c of
        [] \<Rightarrow> c
      | data # items \<Rightarrow> call_ip_frag_procs (map (\<lambda>p. p now) procs) data (c\<lparr>ca_queue := items\<rparr>))"

section \<open>Start\<close>

text \<open>\<open>nids_init\<close>: the offset and \<open>dev_addon\<close> of the link; \<open>None\<close> is the error \<open>link type unknown\<close>.\<close>

fun init_linkoffset :: "link \<Rightarrow> nat option" where
  "init_linkoffset DLT_NULL = Some 4"
| "init_linkoffset DLT_EN10MB = Some 14"
| "init_linkoffset DLT_PPP = Some 4"
| "init_linkoffset DLT_IEEE802 = Some 22"
| "init_linkoffset DLT_RAW = Some 0"
| "init_linkoffset DLT_SLIP = Some 0"
| "init_linkoffset DLT_LINUX_SLL = Some 16"
| "init_linkoffset DLT_FDDI = Some 21"
| "init_linkoffset DLT_PPP_SERIAL = Some 4"
| "init_linkoffset DLT_UNKNOWN = None"
| "init_linkoffset _ = Some 0"

definition init_dev_addon :: "link \<Rightarrow> int \<Rightarrow> int" where
  "init_dev_addon lt addon = (if addon = -1 then if lt = DLT_EN10MB then 16 else 0 else addon)"

definition nids_init :: "link \<Rightarrow> nat \<Rightarrow> 'w tcp_engine \<Rightarrow> 'w capture option" where
  "nids_init lt n_hosts engine =
     (case init_linkoffset lt of
        None \<Rightarrow> None
      | Some off \<Rightarrow> Some \<lparr>ca_linkoffset = off, ca_queue = [], ca_frag = ip_frag_init n_hosts, ca_engine = engine,
          ca_warnings = 0\<rparr>)"

end
