(* ===== verification/CaptureProps.thy ===== *)
theory CaptureProps
  imports Capture "HOL-Library.Sublist"
begin

text \<open>
  bscope on the network: \<open>start_nids\<close> with its parameters and its two threads, one that captures
  frames and one that processes the packets of the queue.
\<close>

section \<open>The process\<close>

definition start_scan_prm :: scan_prm where
  "start_scan_prm = \<lparr>sp_num_hosts = 256, sp_delay = 3000, sp_num_ports = 10\<rparr>"

definition bscope_prm :: "link \<Rightarrow> bool \<Rightarrow> cap_prm" where
  "bscope_prm lt skip =
     \<lparr>cp_nids = start_prm skip, cp_scan = start_scan_prm,
      cp_frag = \<lparr>fp_dev_addon = init_dev_addon lt (-1), fp_sk_buff_size = 168\<rparr>,
      cp_link = lt, cp_multiproc = True, cp_queue_limit = 20000\<rparr>"

definition bscope_frag_procs ::
  "link \<Rightarrow> bool \<Rightarrow> int \<Rightarrow> (int \<Rightarrow> string \<Rightarrow> (stop + monitor) capture \<Rightarrow> (stop + monitor) capture) list" where
  "bscope_frag_procs lt skip ppid = [\<lambda>now. frag_callback, gen_ip_frag_proc (bscope_prm lt skip) (bscope_proc ppid) []]"

definition start_nids :: "link \<Rightarrow> hash_keys \<Rightarrow> scan_table \<Rightarrow> monitor \<Rightarrow> (stop + monitor) capture option" where
  "start_nids lt keys sd m = nids_init lt 256 (start_engine keys sd m)"

text \<open>A step of the capturing thread, with a frame, or of the processing thread, at some time.\<close>

datatype action = Arrive int frame | Process int

fun capture_action :: "link \<Rightarrow> bool \<Rightarrow> int \<Rightarrow> action \<Rightarrow> (stop + monitor) capture \<Rightarrow> (stop + monitor) capture" where
  "capture_action lt skip ppid (Arrive now f) =
     nids_pcap_handler (bscope_prm lt skip) (bscope_proc ppid) (bscope_frag_procs lt skip ppid) now f"
| "capture_action lt skip ppid (Process now) = cap_queue_process (bscope_frag_procs lt skip ppid) now"

inductive bscope_step :: "link \<Rightarrow> bool \<Rightarrow> int \<Rightarrow> (stop + monitor) capture \<Rightarrow> (stop + monitor) capture \<Rightarrow> bool"
  for lt skip ppid where
  captures: "bscope_step lt skip ppid c (capture_action lt skip ppid (Arrive now f) c)"
| processes: "ca_queue c \<noteq> [] \<Longrightarrow> bscope_step lt skip ppid c (capture_action lt skip ppid (Process now) c)"

section \<open>The invariant\<close>

abbreviation frag_memory :: "link \<Rightarrow> bool \<Rightarrow> int" where
  "frag_memory lt skip \<equiv> frag_limit (max_truesize (cp_frag (bscope_prm lt skip)))"

definition capture_inv :: "configuration \<Rightarrow> link \<Rightarrow> bool \<Rightarrow> int \<Rightarrow> (stop + monitor) capture \<Rightarrow> bool" where
  "capture_inv cfg lt skip ppid c \<longleftrightarrow>
     bscope.engine_inv cfg ppid (ca_engine c) \<and> frag_inv (frag_memory lt skip) {} (ca_frag c) \<and>
     length (ca_queue c) \<le> 20001"

lemma bscope_prm_simps [simp]:
  "cp_nids (bscope_prm lt skip) = start_prm skip" "cp_scan (bscope_prm lt skip) = start_scan_prm"
  "cp_multiproc (bscope_prm lt skip)" "cp_queue_limit (bscope_prm lt skip) = 20000" "cp_link (bscope_prm lt skip) = lt"
  "0 \<le> fp_dev_addon (cp_frag (bscope_prm lt skip))" "0 \<le> fp_sk_buff_size (cp_frag (bscope_prm lt skip))"
  by (simp_all add: bscope_prm_def init_dev_addon_def)

lemma call_bscope_procs:
  "call_ip_frag_procs (map (\<lambda>p. p now) (bscope_frag_procs lt skip ppid)) data c =
     gen_ip_frag_proc (bscope_prm lt skip) (bscope_proc ppid) [] now data c"
  by (simp add: call_ip_frag_procs_def bscope_frag_procs_def frag_callback_def)

text \<open>The packets of the queue do not change while one is processed.\<close>

lemma gen_ip_frag_proc_queue [simp]:
  "ca_queue (gen_ip_frag_proc prm proc udp now data c) = ca_queue c"
  "ca_linkoffset (gen_ip_frag_proc prm proc udp now data c) = ca_linkoffset c"
  by (simp_all add: gen_ip_frag_proc_def cap_warn_def to_protocols_def Let_def split: prod.split ipf.split)

lemma gen_ip_frag_proc_inv:
  assumes "capture_inv cfg lt skip ppid c"
  shows "capture_inv cfg lt skip ppid (gen_ip_frag_proc (bscope_prm lt skip) (bscope_proc ppid) [] now data c)"
proof -
  have engine: "bscope.engine_inv cfg ppid (gen_ip_proc (start_prm skip) start_scan_prm (bscope_proc ppid) [] now iph n (ca_engine c))"
    for iph n
    using take_packet_inv [of cfg ppid "ca_engine c" skip start_scan_prm "(now, iph, n)"] assms
    by (simp add: take_packet_def capture_inv_def)
  have frag: "frag_inv (frag_memory lt skip) {} s"
    if "ip_defrag_stub (cp_frag (bscope_prm lt skip)) now iph (ca_frag c) = (f, s)" for iph f s
    using ip_defrag_stub_inv [of "frag_memory lt skip" "ca_frag c" "cp_frag (bscope_prm lt skip)" now iph] assms that
    by (simp add: capture_inv_def)
  show ?thesis using assms engine frag
    by (auto simp: gen_ip_frag_proc_def cap_warn_def to_protocols_def Let_def capture_inv_def split: prod.splits ipf.splits)
qed

lemma engine_inv_now: "bscope.engine_inv cfg ppid e \<Longrightarrow> bscope.engine_inv cfg ppid (e\<lparr>te_now := t\<rparr>)"
  by (simp add: bscope.inv_but_def bscope.struct_inv_def bscope.live_map_def mk_hash_index_def cong: if_cong)

lemma frame_time_inv:
  assumes "capture_inv cfg lt skip ppid c"
  shows "capture_inv cfg lt skip ppid (frame_time prm proc f c)"
proof -
  have "te_timeouts (ca_engine c) = []" using assms by (simp add: capture_inv_def bscope.inv_but_def)
  with assms show ?thesis by (simp add: frame_time_def capture_inv_def engine_inv_now)
qed

lemma bscope_step_inv:
  assumes "bscope_step lt skip ppid c c'" "capture_inv cfg lt skip ppid c"
  shows "capture_inv cfg lt skip ppid c'"
  using assms
proof (cases rule: bscope_step.cases)
  case (captures now f)
  have "capture_inv cfg lt skip ppid (frame_time (bscope_prm lt skip) (bscope_proc ppid) f c)" using assms(2) by (rule frame_time_inv)
  then show ?thesis unfolding captures
    by (auto simp: nids_pcap_handler_def cap_queue_push_def capture_inv_def Let_def split: prod.split)
next
  case (processes now)
  then obtain x xs where q: "ca_queue c = x # xs" by (cases "ca_queue c") simp_all
  have "capture_inv cfg lt skip ppid (c\<lparr>ca_queue := xs\<rparr>)" using assms(2) q by (simp add: capture_inv_def)
  then show ?thesis unfolding processes by (simp add: cap_queue_process_def q call_bscope_procs gen_ip_frag_proc_inv)
qed

lemma start_nids_inv:
  assumes "monitor_inv m" "open_streams m = {}" "start_nids lt keys sd m = Some c"
  shows "capture_inv (m_config m) lt skip ppid c"
proof -
  have "0 \<le> frag_memory lt skip" using bscope_prm_simps(6,7) [of lt skip]
    by (simp add: frag_limit_def max_truesize_def IPFRAG_HIGH_THRESH_def IPFRAG_SIZE_def IPH_SIZE_def IPQ_SIZE_def)
  with assms show ?thesis
    by (auto simp: capture_inv_def start_nids_def nids_init_def frag_init_inv start_engine_inv split: option.splits)
qed


lemma capture_action_arrive:
  assumes "link_offset lt (ca_linkoffset c) f = (off', go)"
  shows "ca_linkoffset (capture_action lt skip ppid (Arrive now f) c) = off'"
    "ca_queue (capture_action lt skip ppid (Arrive now f) c) =
       ca_queue c @ (if go \<and> length (ca_queue c) \<le> 20000 then [take (fm_caplen f - off') (drop off' (fm_data f))] else [])"
  using assms by (auto simp: nids_pcap_handler_def cap_queue_push_def frame_time_def Let_def)

lemma capture_action_process:
  "ca_linkoffset (capture_action lt skip ppid (Process now) c) = ca_linkoffset c"
  "ca_queue (capture_action lt skip ppid (Process now) c) = drop 1 (ca_queue c)"
  by (cases "ca_queue c"; simp add: cap_queue_process_def call_bscope_procs)+

text \<open>A sample: the start on an ethernet interface, and a frame with three bytes that are no IP packet.\<close>

definition sample_start :: "(stop + monitor) capture option" where
  "sample_start = start_nids DLT_EN10MB (init_hash (replicate 12 0) (replicate 12 0)) \<lparr>sd_hashhost = (\<lambda>_. []), sd_warnings = 0, sd_bad_index = None\<rparr>
     sample_monitor"

definition sample_frame :: frame where
  "sample_frame = \<lparr>fm_caplen = 17, fm_len = 60, fm_sec = 7, fm_data = replicate 12 NUL @ [CHR 0x08, NUL] @ ''abcde''\<rparr>"

lemma sample_start_queue: "sample_start = Some c \<Longrightarrow> ca_queue c = [] \<and> ca_linkoffset c = 14"
  by (auto simp: sample_start_def start_nids_def nids_init_def)

lemma sample_link: "link_offset DLT_EN10MB 14 sample_frame = (14, True)"
  by (simp add: link_offset_def ethernet_offset_def sample_frame_def byte_at_def uchar_def nth_append)

lemma sample_monitor_start: "monitor_inv sample_monitor" "open_streams sample_monitor = {}"
  by (simp_all add: monitor_inv_def sample_monitor_def open_streams_def default_config_def empty_config_def status_init_def)


section \<open>Order\<close>

text \<open>The packets of the frames that pass the link, in the order of their arrival.\<close>

fun accepted :: "link \<Rightarrow> nat \<Rightarrow> action list \<Rightarrow> string list" where
  "accepted lt off [] = []"
| "accepted lt off (Arrive now f # as) =
     (case link_offset lt off f of (off', go) \<Rightarrow>
       (if go then [take (fm_caplen f - off') (drop off' (fm_data f))] else []) @ accepted lt off' as)"
| "accepted lt off (Process now # as) = accepted lt off as"

text \<open>A run of the two threads, and the packets that the second one took from the queue.\<close>

fun capture_run ::
  "link \<Rightarrow> bool \<Rightarrow> int \<Rightarrow> action list \<Rightarrow> (stop + monitor) capture \<Rightarrow> (stop + monitor) capture \<times> string list" where
  "capture_run lt skip ppid [] c = (c, [])"
| "capture_run lt skip ppid (a # as) c =
     (case capture_run lt skip ppid as (capture_action lt skip ppid a c) of (c', out) \<Rightarrow>
       (c', (case a of Arrive now f \<Rightarrow> [] | Process now \<Rightarrow> take 1 (ca_queue c)) @ out))"

text \<open>
  C8: Packets are processed in the order of their arrival: what was taken from the queue and
  what is still there is a part of what arrived, and all of it where that never was more than
  the queue can hold.
\<close>

theorem capture_in_order:
  assumes "capture_run lt skip ppid as c = (c', out)"
  shows "subseq (out @ ca_queue c') (ca_queue c @ accepted lt (ca_linkoffset c) as) \<and>
    (length (ca_queue c @ accepted lt (ca_linkoffset c) as) \<le> 20001 \<longrightarrow>
       out @ ca_queue c' = ca_queue c @ accepted lt (ca_linkoffset c) as)"
  using assms
proof (induction as arbitrary: c out)
  case (Cons a as)
  let ?c = "capture_action lt skip ppid a c"
  obtain rest where run: "capture_run lt skip ppid as ?c = (c', rest)"
    and out: "out = (case a of Arrive now f \<Rightarrow> [] | Process now \<Rightarrow> take 1 (ca_queue c)) @ rest"
    using Cons.prems by (auto split: prod.splits)
  note ih = Cons.IH [OF run]
  show ?case
  proof (cases a)
    case (Arrive now f)
    obtain off' go where l: "link_offset lt (ca_linkoffset c) f = (off', go)" by fastforce
    let ?new = "if go then [take (fm_caplen f - off') (drop off' (fm_data f))] else []"
    note q = capture_action_arrive [OF l, of skip ppid now]
    have acc: "accepted lt (ca_linkoffset c) (a # as) = ?new @ accepted lt off' as" by (simp add: Arrive l)
    have "subseq (ca_queue ?c) (ca_queue c @ ?new)" unfolding Arrive q(2) by auto
    let ?was = "ca_queue c @ accepted lt (ca_linkoffset c) (a # as)" and ?now = "ca_queue ?c @ accepted lt off' as"
    have sub: "subseq ?now ?was" unfolding acc append_assoc [symmetric] using \<open>subseq _ _\<close> by (simp only: subseq_append)
    have same: "?now = ?was" if "length ?was \<le> 20001"
      using that unfolding acc unfolding Arrive q(2) by auto
    have off: "ca_linkoffset ?c = off'" unfolding Arrive by (rule q(1))
    have rest: "out = rest" using out by (simp add: Arrive)
    from ih have "subseq (rest @ ca_queue c') ?now" "length ?now \<le> 20001 \<longrightarrow> rest @ ca_queue c' = ?now"
      unfolding off by blast+
    with sub same show ?thesis unfolding rest by (metis subseq_order.trans)
  next
    case (Process now)
    have q: "ca_queue c = take 1 (ca_queue c) @ ca_queue ?c"
      unfolding Process capture_action_process(2) by simp
    have "ca_linkoffset ?c = ca_linkoffset c" unfolding Process by (rule capture_action_process(1))
    moreover have "accepted lt off (a # as) = accepted lt off as" for off by (simp add: Process)
    moreover have o: "out = take 1 (ca_queue c) @ rest" using out by (simp add: Process)
    moreover let ?h = "take 1 (ca_queue c)" and ?r = "accepted lt (ca_linkoffset c) as"
    have "subseq ((?h @ rest) @ ca_queue c') ((?h @ ca_queue ?c) @ ?r)" "length ((?h @ ca_queue ?c) @ ?r) \<le> 20001 \<longrightarrow>
        (?h @ rest) @ ca_queue c' = (?h @ ca_queue ?c) @ ?r" if "ca_linkoffset ?c = ca_linkoffset c"
      using ih unfolding that append_assoc by (simp_all only: subseq_append' append_same_eq same_append_eq length_append) linarith
    ultimately show ?thesis unfolding q [symmetric] by simp
  qed
qed simp

theorem capture_in_order_witness:
  "\<exists>c c' out. sample_start = Some c \<and>
     capture_run DLT_EN10MB False 100 [Arrive 1 sample_frame, Process 2, Arrive 3 sample_frame] c = (c', out) \<and>
     out @ ca_queue c' = [''abc'', ''abc'']"
proof -
  obtain c where c: "sample_start = Some c" by (auto simp: sample_start_def start_nids_def nids_init_def)
  obtain c' out where run: "capture_run DLT_EN10MB False 100 [Arrive 1 sample_frame, Process 2, Arrive 3 sample_frame] c = (c', out)"
    by (metis prod.exhaust)
  have "accepted DLT_EN10MB 14 [Arrive 1 sample_frame, Process 2, Arrive 3 sample_frame] = [''abc'', ''abc'']"
    by (simp add: sample_link) (simp add: sample_frame_def)
  with capture_in_order [OF run] sample_start_queue [OF c] have "out @ ca_queue c' = [''abc'', ''abc'']" by simp
  with c run show ?thesis by blast
qed

end
