(* ===== verification/Exchange.thy ===== *)
theory Exchange
  imports TcpReassembly
begin

text \<open>
  From the segments of a stream to the parser of its session: the request parser ends where it
  would on the request in one piece.
\<close>

section \<open>Cutting what is parsed\<close>

lemma feed_split:
  assumes "parser_inv p" "hp_errno p = HPE_OK"
    and "feed p (xs @ ys) = Some (length (xs @ ys), q)" "hp_errno q = HPE_OK" "\<not> hp_upgrade q"
  shows "\<exists>p1. feed p xs = Some (length xs, p1) \<and> parser_inv p1 \<and> hp_errno p1 = HPE_OK \<and>
    feed p1 ys = Some (length ys, q)"
  using assms
proof (induction xs arbitrary: p)
  case (Cons x xs)
  from byte_step_inv [OF Cons.prems(1,2), of x] show ?case
  proof (elim disjE exE conjE)
    fix p' assume p': "byte_step p x = Some (Go p')" "parser_inv p'" "hp_errno p' = HPE_OK"
    with Cons.prems(3) have "feed p' (xs @ ys) = Some (length (xs @ ys), q)" by auto
    from Cons.IH [OF p'(2,3) this Cons.prems(4,5)] p'(1) show ?thesis by auto
  qed (use Cons.prems in auto)
qed simp

section \<open>A stream that sends a request\<close>

lemma request_event:
  assumes "monitor_inv m" "m_user m i = Some c" "test_in_service (m_config m) a" "data_event a i Server e"
    "hp_errno (cn_client_parser c) = HPE_OK" "feed (cn_client_parser c) (ev_server_new e) = Some (n, p)"
  shows "\<exists>m' c'. tcp_callback ppid e m = Inr m' \<and> monitor_inv m' \<and> m_config m' = m_config m \<and>
    m_user m' i = Some c' \<and> cn_client_parser c' = p"
proof -
  have e: "ev_stream e = i" "tcp_addr (ev_tcp e) = a" "ev_state e = NIDS_DATA" "ev_server_new e \<noteq> []" "ev_client_new e = []"
    using assms(4) by (simp_all add: data_event_def)
  have inv: "parser_inv (cn_client_parser c)" using assms(1,2) by (simp add: monitor_inv_def)
  let ?w = "enter m (ev_tcp e) c"
  have w: "w_client_parser ?w = cn_client_parser c" by (simp add: enter_def)
  from request.execute_feed [OF inv assms(5) e(4), of ?w] assms(6) obtain w' where
    x: "http_parser_execute client_parser_settings (cn_client_parser c) ?w (ev_server_new e) = Executed n p w'" by auto
  let ?m = "leave i (Some (conn_of (w'\<lparr>w_client_parser := p\<rparr>))) (w'\<lparr>w_client_parser := p\<rparr>) m"
  have "tcp_callback ppid e m = Inr ?m"
    using e assms(2,3) x by (simp add: tcp_callback_def session_handle_data_def w Let_def)
  moreover have "\<exists>m'. tcp_callback ppid e m = Inr m' \<and> monitor_inv m' \<and> m_config m' = m_config m"
    using step_data [OF assms(1) e(3), of ppid] assms(2,3) e(1,2) by (auto simp: open_streams_def)
  moreover have "m_user ?m i = Some (conn_of (w'\<lparr>w_client_parser := p\<rparr>))" "cn_client_parser (conn_of (w'\<lparr>w_client_parser := p\<rparr>)) = p"
    by (simp_all add: leave_def conn_of_def)
  ultimately show ?thesis by (metis Inr_inject)
qed

lemma request_events:
  assumes "monitor_inv m" "m_user m i = Some c" "test_in_service (m_config m) a" "\<forall>e \<in> set es. data_event a i Server e"
    "hp_errno (cn_client_parser c) = HPE_OK" "concat (map (new_of Server) es) = msg"
    "feed (cn_client_parser c) msg = Some (length msg, p)" "hp_errno p = HPE_OK" "\<not> hp_upgrade p"
  shows "\<exists>m' c'. monitor_run ppid es m = Inr m' \<and> monitor_inv m' \<and> m_user m' i = Some c' \<and> cn_client_parser c' = p"
  using assms(1-7)
proof (induction es arbitrary: m c msg)
  case (Cons e es)
  let ?ys = "concat (map (new_of Server) es)"
  have msg: "msg = ev_server_new e @ ?ys" using Cons.prems(6) by (simp del: new_of.simps add: new_of.simps(2) [of e])
  have inv: "parser_inv (cn_client_parser c)" using Cons.prems(1,2) by (simp add: monitor_inv_def)
  from feed_split [OF inv Cons.prems(5) Cons.prems(7) [unfolded msg] assms(8,9)] obtain p1 where
    p1: "feed (cn_client_parser c) (ev_server_new e) = Some (length (ev_server_new e), p1)" "hp_errno p1 = HPE_OK"
      "feed p1 ?ys = Some (length ?ys, p)" by blast
  have "data_event a i Server e" using Cons.prems(4) by simp
  from request_event [OF Cons.prems(1-3) this Cons.prems(5) p1(1), of ppid] obtain m1 c1 where
    m1: "tcp_callback ppid e m = Inr m1" "monitor_inv m1" "m_config m1 = m_config m" "m_user m1 i = Some c1" "cn_client_parser c1 = p1"
    by blast
  have "test_in_service (m_config m1) a" "\<forall>e \<in> set es. data_event a i Server e" "hp_errno (cn_client_parser c1) = HPE_OK"
    "feed (cn_client_parser c1) ?ys = Some (length ?ys, p)"
    using Cons.prems(3,4) m1(3,5) p1(2,3) by simp_all
  from Cons.IH [OF m1(2,4) this(1-3) refl this(4)] m1(1) show ?case by simp
qed simp



end
