(* ===== verification/RequestSession.thy ===== *)
theory RequestSession
  imports Callback HttpParserProps
begin

text \<open>
  A request in one buffer, byte by byte with the callbacks of its client: what the session of
  the monitor has of it.
\<close>

section \<open>The loop on a parser and a user state\<close>

text \<open>The local variables while a request line is read: at most the URL has a mark.\<close>

definition line_locals :: "hparser \<Rightarrow> 's \<Rightarrow> nat \<Rightarrow> nat option \<Rightarrow> 's locals" where
  "line_locals p u i um = \<lparr>psr = p, user = u, pos = i, header_field_mark = None, header_value_mark = None,
     url_mark = um, body_mark = None\<rparr>"

lemma line_locals_simps [simp]:
  "psr (line_locals p u i um) = p" "user (line_locals p u i um) = u" "pos (line_locals p u i um) = i"
  "url_mark (line_locals p u i um) = um" "upd f (line_locals p u i um) = line_locals (f p) u i um"
  "(line_locals p u i um)\<lparr>pos := j\<rparr> = line_locals p u j um"
  "(line_locals p u i um)\<lparr>url_mark := vm\<rparr> = line_locals p u i vm"
  "(line_locals p u i um)\<lparr>psr := q, user := v\<rparr> = line_locals q v i um"
  "line_locals p u i um = line_locals q v j vm \<longleftrightarrow> p = q \<and> u = v \<and> i = j \<and> um = vm"
  by (auto simp: line_locals_def upd_def)

lemma exec_loop_step:
  assumes "i < length data" "exec_byte st data (line_locals p u i um) = Some (Break (line_locals q v i vm))"
  shows "exec_loop st data (line_locals p u i um) = exec_loop st data (line_locals q v (Suc i) vm)"
  using assms by (subst exec_loop.simps) simp

lemma exec_byte_once:
  assumes "s \<le> s_headers_done" "j < 80 * 1024"
    "reexecute_byte reexec_fuel st data (data ! i) (line_locals (at_byte (Suc j) s p) u i um) = r"
  shows "exec_byte st data (line_locals (at_byte j s p) u i um) = r"
proof -
  have "\<not> HTTP_MAX_HEADER_SIZE < (of_nat (Suc j) :: u32)"
    using assms(2) unat_of_nat_u32 [of "Suc j"] by (simp add: HTTP_MAX_HEADER_SIZE_def word_less_nat_alt del: of_nat_Suc)
  moreover have "count_byte (line_locals (at_byte j s p) u i um) = line_locals (at_byte (Suc j) s p) u i um"
    using assms(1) by (simp add: count_byte_def PARSING_HEADER_def)
  ultimately show ?thesis using assms(3) by (simp add: exec_byte_def del: of_nat_Suc)
qed

lemma line_step:
  assumes "s \<le> s_headers_done" "j < 80 * 1024" "i < length data"
    "exec_switch st data (data ! i) (line_locals (at_byte (Suc j) s p) u i um) = Break (line_locals q v i vm)"
  shows "exec_loop st data (line_locals (at_byte j s p) u i um) = exec_loop st data (line_locals q v (Suc i) vm)"
proof -
  obtain n where n: "reexec_fuel = Suc n" by (simp add: reexec_fuel_def eval_nat_numeral)
  have "exec_byte st data (line_locals (at_byte j s p) u i um) = Some (Break (line_locals q v i vm))"
    by (rule exec_byte_once [OF assms(1,2)]) (simp add: n assms(4))
  then show ?thesis by (rule exec_loop_step [OF assms(3)])
qed

section \<open>The request line\<close>

lemma line_version:
  assumes "hp_errno p = HPE_OK" "j < 80 * 1024" "i < length data"
  shows "data ! i = CHR ''H'' \<Longrightarrow> exec_loop st data (line_locals (at_byte j s_req_http_start p) u i um) =
      exec_loop st data (line_locals (at_byte (Suc j) s_req_http_H p) u (Suc i) um)"
    "data ! i = CHR ''T'' \<Longrightarrow> exec_loop st data (line_locals (at_byte j s_req_http_H p) u i um) =
      exec_loop st data (line_locals (at_byte (Suc j) s_req_http_HT p) u (Suc i) um)"
    "data ! i = CHR ''T'' \<Longrightarrow> exec_loop st data (line_locals (at_byte j s_req_http_HT p) u i um) =
      exec_loop st data (line_locals (at_byte (Suc j) s_req_http_HTT p) u (Suc i) um)"
    "data ! i = CHR ''P'' \<Longrightarrow> exec_loop st data (line_locals (at_byte j s_req_http_HTT p) u i um) =
      exec_loop st data (line_locals (at_byte (Suc j) s_req_http_HTTP p) u (Suc i) um)"
    "data ! i = CHR ''/'' \<Longrightarrow> exec_loop st data (line_locals (at_byte j s_req_http_HTTP p) u i um) =
      exec_loop st data (line_locals (at_byte (Suc j) s_req_first_http_major p) u (Suc i) um)"
    "data ! i = CHR ''.'' \<Longrightarrow> exec_loop st data (line_locals (at_byte j s_req_http_major p) u i um) =
      exec_loop st data (line_locals (at_byte (Suc j) s_req_first_http_minor p) u (Suc i) um)"
    "data ! i = CR \<Longrightarrow> exec_loop st data (line_locals (at_byte j s_req_http_minor p) u i um) =
      exec_loop st data (line_locals (at_byte (Suc j) s_req_line_almost_done p) u (Suc i) um)"
    "data ! i = LF \<Longrightarrow> exec_loop st data (line_locals (at_byte j s_req_line_almost_done p) u i um) =
      exec_loop st data (line_locals (at_byte (Suc j) s_header_field_start p) u (Suc i) um)"
    "data ! i = CR \<Longrightarrow> exec_loop st data (line_locals (at_byte j s_header_field_start p) u i um) =
      exec_loop st data (line_locals (at_byte (Suc j) s_headers_almost_done p) u (Suc i) um)"
    "data ! i = a \<Longrightarrow> IS_NUM a \<Longrightarrow> a \<noteq> CHR ''0'' \<Longrightarrow> exec_loop st data (line_locals (at_byte j s_req_first_http_major p) u i um) =
      exec_loop st data (line_locals (at_byte (Suc j) s_req_http_major (p\<lparr>hp_http_major := of_int (digit_val a)\<rparr>)) u (Suc i) um)"
    "data ! i = b \<Longrightarrow> IS_NUM b \<Longrightarrow> exec_loop st data (line_locals (at_byte j s_req_first_http_minor p) u i um) =
      exec_loop st data (line_locals (at_byte (Suc j) s_req_http_minor (p\<lparr>hp_http_minor := of_int (digit_val b)\<rparr>)) u (Suc i) um)"
  using assms
  by - (rule line_step; simp add: byte_eval ex_req_http_start_def set_state_def goto_state_def
      ex_req_first_http_major_def ex_http_major_def ex_first_http_minor_def ex_req_http_minor_def
      ex_req_line_almost_done_def ex_header_field_start_def first_digit)+

definition read_states :: "pstate set" where
  "read_states = {s_req_path, s_req_query_string_start, s_req_query_string}"

lemma line_url_byte:
  assumes "hp_errno p = HPE_OK" "j < 80 * 1024" "i < length data" "s \<in> read_states"
    "data ! i \<notin> {SP, CR, LF}" "parse_url_char s (data ! i) = s'" "s' \<noteq> s_dead"
  shows "exec_loop st data (line_locals (at_byte j s p) u i um) =
    exec_loop st data (line_locals (at_byte (Suc j) s' p) u (Suc i) um)"
  using assms by (intro line_step)
    (auto simp: read_states_def byte_eval ex_req_url_def ex_url_step_def)

lemma IS_URL_CHAR_not: "IS_URL_CHAR c \<Longrightarrow> c \<notin> {SP, CR, LF, HT, FF}"
  by (auto simp: IS_URL_CHAR_def normal_url_char_def normal_url_tab_def uchar_def)

lemma question_mark: "\<not> IS_URL_CHAR (CHR ''?'')"
  by code_simp

lemma url_char_next:
  "IS_URL_CHAR c \<Longrightarrow> parse_url_char s_req_path c = s_req_path"
  "IS_URL_CHAR c \<Longrightarrow> parse_url_char s_req_query_string c = s_req_query_string"
  "IS_URL_CHAR c \<Longrightarrow> parse_url_char s_req_query_string_start c = s_req_query_string"
  "parse_url_char s_req_path (CHR ''?'') = s_req_query_string_start"
  using IS_URL_CHAR_not [of c]
  by (auto simp: parse_url_char_def parse_url_query_def IS_URL_CHAR_def normal_url_char_def normal_url_tab_def uchar_def)

lemma nth_in_append:
  "drop i data = c # cs \<Longrightarrow> i < length data \<and> data ! i = c \<and> drop (Suc i) data = cs"
  by (metis drop_Suc drop_eq_Nil2 linorder_not_le list.distinct(1) list.sel(3) nth_via_drop tl_drop)

lemma line_url_run:
  assumes "hp_errno p = HPE_OK" "j + length cs \<le> 80 * 1024" "drop i data = cs @ rest" "\<forall>c \<in> set cs. IS_URL_CHAR c"
    "s = s_req_path \<or> s = s_req_query_string"
  shows "exec_loop st data (line_locals (at_byte j s p) u i um) =
    exec_loop st data (line_locals (at_byte (j + length cs) s p) u (i + length cs) um)"
  using assms
proof (induction cs arbitrary: i j)
  case (Cons c cs)
  then have i: "i < length data" "data ! i = c" "drop (Suc i) data = cs @ rest"
    using nth_in_append [of i data c "cs @ rest"] by simp_all
  have "exec_loop st data (line_locals (at_byte j s p) u i um) =
    exec_loop st data (line_locals (at_byte (Suc j) s p) u (Suc i) um)"
    using Cons.prems i IS_URL_CHAR_not [of c] url_char_next(1,2) [of c]
    by (intro line_url_byte) (auto simp: read_states_def)
  also have "\<dots> = exec_loop st data (line_locals (at_byte (Suc j + length cs) s p) u (Suc i + length cs) um)"
    using Cons.prems i by (intro Cons.IH) auto
  finally show ?case by simp
qed simp

lemma line_query:
  assumes "hp_errno p = HPE_OK" "j + length (dir @ CHR ''?'' # query) \<le> 80 * 1024"
    "drop i data = dir @ CHR ''?'' # query @ rest" "\<forall>c \<in> set dir \<union> set query. IS_URL_CHAR c" "query \<noteq> []"
  shows "exec_loop st data (line_locals (at_byte j s_req_path p) u i um) =
    exec_loop st data (line_locals (at_byte (j + length (dir @ CHR ''?'' # query)) s_req_query_string p) u
      (i + length (dir @ CHR ''?'' # query)) um)"
proof -
  obtain c cs where query: "query = c # cs" using assms(5) by (cases query) auto
  let ?i = "i + length dir" and ?j = "j + length dir"
  have parts: "drop ?i data = CHR ''?'' # query @ rest" "drop (Suc ?i) data = c # cs @ rest" "drop (Suc (Suc ?i)) data = cs @ rest"
  proof -
    show 1: "drop ?i data = CHR ''?'' # query @ rest" 
      using drop_drop [of "length dir" i data, symmetric] by (simp add: assms(3) add.commute)
    then show 2: "drop (Suc ?i) data = c # cs @ rest" using nth_in_append [OF 1] query by simp
    then show "drop (Suc (Suc ?i)) data = cs @ rest" using nth_in_append [OF 2] by simp
  qed
  note b1 = nth_in_append [OF parts(1)] and b2 = nth_in_append [OF parts(2)]
  have "exec_loop st data (line_locals (at_byte j s_req_path p) u i um) =
    exec_loop st data (line_locals (at_byte ?j s_req_path p) u ?i um)"
    using assms by (intro line_url_run [of p j dir i data "CHR ''?'' # query @ rest"]) simp_all
  also have "\<dots> = exec_loop st data (line_locals (at_byte (Suc ?j) s_req_query_string_start p) u (Suc ?i) um)"
    using assms(1,2) b1 url_char_next(4) by (intro line_url_byte) (simp_all add: read_states_def)
  also have "\<dots> = exec_loop st data (line_locals (at_byte (Suc (Suc ?j)) s_req_query_string p) u (Suc (Suc ?i)) um)"
    using assms(1,2,4) b2 query url_char_next(3) [of c] IS_URL_CHAR_not [of c]
    by (intro line_url_byte) (auto simp: read_states_def)
  also have "\<dots> = exec_loop st data (line_locals (at_byte (Suc (Suc ?j) + length cs) s_req_query_string p) u
      (Suc (Suc ?i) + length cs) um)"
    using assms query parts(3) by (intro line_url_run [of p _ cs _ data rest]) simp_all
  finally show ?thesis using query by (simp add: add.assoc)
qed

text \<open>The bytes of the method: the client is not called.\<close>

fun method_states :: "hparser \<Rightarrow> string \<Rightarrow> hparser option" where
  "method_states p [] = Some p"
| "method_states p (c # cs) =
     (case ex_req_method c (line_locals (p\<lparr>hp_nread := hp_nread p + 1\<rparr>) () 0 None) of
        Break l \<Rightarrow> if hp_state p = s_req_method then method_states (psr l) cs else None
      | _ \<Rightarrow> None)"

definition method_start :: "http_method \<Rightarrow> hparser" where
  "method_start m = (begin_message (http_parser_init HTTP_REQUEST))
     \<lparr>hp_method := the (start_method (hd (http_method_str m))), hp_index := 1, hp_state := s_req_method, hp_nread := 1\<rparr>"

definition method_end :: "http_method \<Rightarrow> hparser" where
  "method_end m = (begin_message (http_parser_init HTTP_REQUEST))
     \<lparr>hp_method := m, hp_index := of_nat (length (http_method_str m)) + 1, hp_state := s_req_spaces_before_url,
      hp_nread := of_nat (length (http_method_str m) + 1)\<rparr>"

lemma method_states_any:
  "m \<noteq> HTTP_CONNECT \<Longrightarrow> method_states (method_start m) (tl (http_method_str m) @ [SP]) = Some (method_end m)"
  by (cases m; hypsubst?; code_simp)

lemma method_first:
  "http_method_str m \<noteq> [] \<and> hd (http_method_str m) \<noteq> CR \<and> hd (http_method_str m) \<noteq> LF \<and>
   IS_ALPHA (hd (http_method_str m)) \<and> start_method (hd (http_method_str m)) \<noteq> None"
  by (cases m; hypsubst?; code_simp)

lemma ex_req_method_client:
  "ex_req_method c (line_locals p () 0 None) = Break l \<Longrightarrow>
   ex_req_method c (line_locals p u i um) = Break (line_locals (psr l) u i um)"
  by (auto simp: ex_req_method_def Let_def set_state_def fail_def split: if_splits sum.splits option.splits)

lemma ex_req_method_keeps:
  assumes "ex_req_method c (line_locals p () 0 None) = Break l"
  shows "hp_errno (psr l) = hp_errno p" "hp_nread (psr l) = hp_nread p"
  using assms by (auto simp: ex_req_method_def Let_def set_state_def fail_def split: if_splits sum.splits option.splits)

lemma exec_method:
  assumes "method_states p cs = Some q" "hp_errno p = HPE_OK" "hp_nread p = of_nat j" "j + length cs \<le> 80 * 1024"
    "drop i data = cs @ rest"
  shows "exec_loop st data (line_locals p u i um) = exec_loop st data (line_locals q u (i + length cs) um)"
  using assms
proof (induction cs arbitrary: p i j)
  case (Cons c cs)
  have i: "i < length data" "data ! i = c" "drop (Suc i) data = cs @ rest"
    using Cons.prems(5) by (metis append_Cons drop_eq_Nil2 linorder_not_le neq_Nil_conv,
      metis append_Cons nth_via_drop, metis append_Cons drop_Suc list.sel(3) tl_drop)
  let ?p = "p\<lparr>hp_nread := hp_nread p + 1\<rparr>"
  from Cons.prems(1) obtain l where l: "ex_req_method c (line_locals ?p () 0 None) = Break l"
    "hp_state p = s_req_method" "method_states (psr l) cs = Some q"
    by (auto split: outcome.splits if_splits)
  have at: "at_byte j s_req_method p = p" "at_byte (Suc j) s_req_method p = ?p"
    using Cons.prems(3) l(2) by (simp_all add: at_byte_def add.commute)
  have "exec_loop st data (line_locals (at_byte j s_req_method p) u i um) = exec_loop st data (line_locals (psr l) u (Suc i) um)"
    using i Cons.prems(2,4) l(2) ex_req_method_client [OF l(1)]
    by (intro line_step) (simp_all add: at exec_switch_def less_eq_pstate_def)
  also have "\<dots> = exec_loop st data (line_locals q u (Suc i + length cs) um)"
    using Cons.prems(2-4) ex_req_method_keeps [OF l(1)] i(3) l(3) by (intro Cons.IH [of _ "Suc j"]) simp_all
  finally show ?case by (simp add: at(1))
qed simp

section \<open>The callbacks of the client\<close>

text \<open>A callback of the client with the parser it is called by.\<close>

definition with_parser :: "(world \<Rightarrow> world) \<Rightarrow> hparser \<Rightarrow> world \<Rightarrow> world" where
  "with_parser f p w = f (w\<lparr>w_client_parser := p\<rparr>)"

lemma client_settings_simps [simp]:
  "on_message_begin client_parser_settings = Some (client_cb request_begin)"
  "on_url client_parser_settings = Some (\<lambda>at. client_cb (request_url at))"
  "on_headers_complete client_parser_settings = Some (client_cb request_headers_complete)"
  "on_message_complete client_parser_settings = Some (client_cb request_complete)"
  by (simp_all add: client_parser_settings_def)

lemma request_callbacks [simp]:
  "client_cb request_begin p w = (0, p, with_parser request_begin p w)"
  "client_cb (request_url at) p w = (0, p, with_parser (request_url at) p w)"
  "client_cb request_headers_complete p w = (0, p, with_parser request_headers_complete p w)"
  "client_cb request_complete p w = (0, p, with_parser request_complete p w)"
  by (simp_all add: client_cb_def with_parser_def)

lemma exec_request_start:
  assumes "data \<noteq> []" "data ! 0 = hd (http_method_str m)"
  shows "exec_loop client_parser_settings data (line_locals (http_parser_init HTTP_REQUEST) w 0 None) =
    exec_loop client_parser_settings data
      (line_locals (method_start m) (with_parser request_begin (method_start m) w) 1 None)"
proof -
  have init: "at_byte 0 s_start_req (http_parser_init HTTP_REQUEST) = http_parser_init HTTP_REQUEST"
    by (simp add: at_byte_def http_parser_init_def)
  obtain m' where m': "start_method (hd (http_method_str m)) = Some m'" using method_first by blast
  have "exec_loop client_parser_settings data (line_locals (at_byte 0 s_start_req (http_parser_init HTTP_REQUEST)) w 0 None) =
    exec_loop client_parser_settings data
      (line_locals (method_start m) (with_parser request_begin (method_start m) w) (Suc 0) None)"
    using assms method_first [of m] m'
    by (intro line_step) (simp_all add: byte_eval ex_start_req_def cb_message_begin_def callback_notify_def
        method_start_def begin_message_def at_byte_def http_parser_init_def)
  then show ?thesis by (simp add: init)
qed

lemma exec_slash:
  assumes "hp_errno p = HPE_OK" "hp_method p \<noteq> HTTP_CONNECT" "j < 80 * 1024" "i < length data" "data ! i = CHR ''/''"
  shows "exec_loop st data (line_locals (at_byte j s_req_spaces_before_url p) u i None) =
    exec_loop st data (line_locals (at_byte (Suc j) s_req_path p) u (Suc i) (Some i))"
  using assms by (intro line_step)
    (simp_all add: byte_eval ex_req_spaces_before_url_def ex_url_step_def parse_url_char_def mark_at_def set_state_def)

lemma exec_url_end:
  assumes "hp_errno p = HPE_OK" "j < 80 * 1024" "i < length data" "data ! i = SP" "s \<in> read_states"
  shows "exec_loop client_parser_settings data (line_locals (at_byte j s p) w i (Some k)) =
    exec_loop client_parser_settings data (line_locals (at_byte (Suc j) s_req_http_start p)
      (with_parser (request_url (slice data k (i - k))) (at_byte (Suc j) s_req_http_start p) w) (Suc i) None)"
  using assms by (intro line_step)
    (auto simp: read_states_def byte_eval ex_req_url_def cb_url_def callback_data_def set_state_def)

text \<open>The empty line: no header has said that there is a body.\<close>

lemma exec_request_end:
  assumes "hp_errno p = HPE_OK" "j < 80 * 1024" "i < length data" "data ! i = LF" "hp_flags p = 0"
    "hp_method p \<noteq> HTTP_CONNECT" "hp_content_length p = ULLONG_MAX" "hp_type p = HTTP_REQUEST"
  shows "\<exists>q r. exec_loop client_parser_settings data (line_locals (at_byte j s_headers_almost_done p) w i None) =
      exec_loop client_parser_settings data (line_locals r
        (with_parser request_complete r (with_parser request_headers_complete q w)) (Suc i) None) \<and>
    hp_errno r = HPE_OK \<and> hp_method q = hp_method p \<and> hp_http_major q = hp_http_major p \<and>
    hp_http_minor q = hp_http_minor p"
proof -
  let ?q = "(at_byte (Suc j) s_headers_done p)\<lparr>hp_upgrade := False\<rparr>"
  let ?r = "?q\<lparr>hp_nread := 0, hp_state := NEW_MESSAGE (?q\<lparr>hp_nread := 0\<rparr>)\<rparr>"
  let ?w = "with_parser request_complete ?r (with_parser request_headers_complete ?q w)"
  obtain n where n: "reexec_fuel = Suc (Suc n)" by (simp add: reexec_fuel_def eval_nat_numeral)
  have type: "hp_type (at_byte k s p) = hp_type p" for k s by (simp add: at_byte_def)
  have "exec_byte client_parser_settings data (line_locals (at_byte j s_headers_almost_done p) w i None) =
      Some (Break (line_locals ?r ?w i None))"
    using assms by (intro exec_byte_once)
      (simp_all add: n byte_eval type ex_headers_almost_done_def ex_headers_done_def headers_complete_def
        end_message_def cb_message_complete_def callback_notify_def set_state_def)
  from exec_loop_step [OF assms(3) this] show ?thesis
    by (intro exI [of _ ?q] exI [of _ ?r]) (simp add: assms)
qed

section \<open>The whole request\<close>

text \<open>The end of a request line and of the headers, from the blank behind the URL on.\<close>

lemma exec_version:
  assumes "hp_errno p = HPE_OK" "j + 20 \<le> 80 * 1024" "IS_NUM a" "a \<noteq> CHR ''0''" "IS_NUM b"
    "drop i data = ''HTTP/'' @ [a, CHR ''.'', b] @ crlf @ crlf"
  shows "exec_loop st data (line_locals (at_byte j s_req_http_start p) u i None) =
    exec_loop st data (line_locals (at_byte (j + 11) s_headers_almost_done
      (p\<lparr>hp_http_major := of_int (digit_val a), hp_http_minor := of_int (digit_val b)\<rparr>)) u (i + 11) None)"
    "i + 11 < length data" "data ! (i + 11) = LF" "length data = i + 12"
proof -
  have len: "length (drop i data) = 12" unfolding assms(6) by simp
  then show l: "length data = i + 12" "i + 11 < length data" by simp_all
  have at: "data ! (i + k) = (''HTTP/'' @ [a, CHR ''.'', b] @ crlf @ crlf) ! k" for k
    unfolding assms(6) [symmetric] using l by simp
  have at': "data ! i = CHR ''H''" "data ! (Suc i) = CHR ''T''" "data ! (Suc (Suc i)) = CHR ''T''"
      "data ! (Suc (Suc (Suc i))) = CHR ''P''" "data ! (Suc (Suc (Suc (Suc i)))) = CHR ''/''" "data ! (Suc (Suc (Suc (Suc (Suc i))))) = a"
      "data ! (Suc (Suc (Suc (Suc (Suc (Suc i)))))) = CHR ''.''" "data ! (Suc (Suc (Suc (Suc (Suc (Suc (Suc i))))))) = b" "data ! (Suc (Suc (Suc (Suc (Suc (Suc (Suc (Suc i)))))))) = CR"
      "data ! (Suc (Suc (Suc (Suc (Suc (Suc (Suc (Suc (Suc i))))))))) = LF" "data ! (Suc (Suc (Suc (Suc (Suc (Suc (Suc (Suc (Suc (Suc i)))))))))) = CR"
    using at [of "0"] at [of "Suc 0"] at [of "Suc (Suc 0)"] at [of "Suc (Suc (Suc 0))"] at [of "Suc (Suc (Suc (Suc 0)))"]
      at [of "Suc (Suc (Suc (Suc (Suc 0))))"] at [of "Suc (Suc (Suc (Suc (Suc (Suc 0)))))"] at [of "Suc (Suc (Suc (Suc (Suc (Suc (Suc 0))))))"]
      at [of "Suc (Suc (Suc (Suc (Suc (Suc (Suc (Suc 0)))))))"] at [of "Suc (Suc (Suc (Suc (Suc (Suc (Suc (Suc (Suc 0))))))))"] at [of "Suc (Suc (Suc (Suc (Suc (Suc (Suc (Suc (Suc (Suc 0)))))))))"]
    by simp_all
  from at [of 11] show "data ! (i + 11) = LF" by simp
  have sucs: "j + 11 = Suc (Suc (Suc (Suc (Suc (Suc (Suc (Suc (Suc (Suc (Suc j))))))))))"
    "i + 11 = Suc (Suc (Suc (Suc (Suc (Suc (Suc (Suc (Suc (Suc (Suc i))))))))))" by simp_all
  show "exec_loop st data (line_locals (at_byte j s_req_http_start p) u i None) =
    exec_loop st data (line_locals (at_byte (j + 11) s_headers_almost_done
      (p\<lparr>hp_http_major := of_int (digit_val a), hp_http_minor := of_int (digit_val b)\<rparr>)) u (i + 11) None)"
    unfolding sucs using assms(1-5) at' l(1)
    by (simp add: line_version)
qed

lemma method_end_facts:
  "at_byte j s_req_spaces_before_url (method_end m) = (method_end m)\<lparr>hp_nread := of_nat j\<rparr>"
  "hp_errno (method_end m) = HPE_OK" "hp_method (method_end m) = m" "hp_flags (method_end m) = 0"
  "hp_content_length (method_end m) = ULLONG_MAX" "hp_type (method_end m) = HTTP_REQUEST"
  "hp_errno (method_start m) = HPE_OK" "hp_nread (method_start m) = of_nat 1"
  by (simp_all add: method_end_def method_start_def begin_message_def http_parser_init_def at_byte_def)

lemma exec_request_method:
  assumes "m \<noteq> HTTP_CONNECT" "data = http_method_str m @ SP # rest"
  shows "exec_loop client_parser_settings data (line_locals (http_parser_init HTTP_REQUEST) w 0 None) =
    exec_loop client_parser_settings data (line_locals
      (at_byte (length (http_method_str m) + 1) s_req_spaces_before_url (method_end m))
      (with_parser request_begin (method_start m) w) (length (http_method_str m) + 1) None)"
proof -
  let ?M = "http_method_str m"
  obtain c cs where M: "?M = c # cs" using method_first [of m] by (cases ?M) auto
  have "length ?M \<le> 11" using null.method_length_le [of m] by (simp add: http_method_str_def)
  then have len: "1 + length (cs @ [SP]) \<le> 80 * 1024" using M by simp
  have "exec_loop client_parser_settings data (line_locals (http_parser_init HTTP_REQUEST) w 0 None) =
    exec_loop client_parser_settings data
      (line_locals (method_start m) (with_parser request_begin (method_start m) w) 1 None)"
    using assms(2) M by (intro exec_request_start) simp_all
  also have "\<dots> = exec_loop client_parser_settings data
      (line_locals (method_end m) (with_parser request_begin (method_start m) w) (1 + length (cs @ [SP])) None)"
    using method_states_any [OF assms(1)] M assms(2) len
    by (intro exec_method [where j = 1 and rest = rest]) (simp_all add: method_end_facts)
  also have "method_end m = at_byte (length ?M + 1) s_req_spaces_before_url (method_end m)"
    by (simp add: method_end_facts(1)) (simp add: method_end_def)
  finally show ?thesis using M by simp
qed

lemma exec_request:
  assumes "m \<noteq> HTTP_CONNECT" "\<forall>c \<in> set dir \<union> set query. IS_URL_CHAR c" "length path \<le> 80000"
    "IS_NUM a" "a \<noteq> CHR ''0''" "IS_NUM b" "path = dir @ CHR ''?'' # query" "query \<noteq> []"
    "data = request_line m path a b @ crlf"
  shows "\<exists>q r s t. exec_loop client_parser_settings data (line_locals (http_parser_init HTTP_REQUEST) w 0 None) =
      Some (Break (line_locals t (with_parser request_complete t (with_parser request_headers_complete s
        (with_parser (request_url (CHR ''/'' # path)) r (with_parser request_begin q w)))) (length data) None)) \<and>
    hp_errno t = HPE_OK \<and> hp_method s = m \<and> hp_http_major s = of_int (digit_val a) \<and>
    hp_http_minor s = of_int (digit_val b)"
proof -
  let ?M = "http_method_str m" and ?P = "method_end m" and ?l = "length path"
  let ?i = "length ?M + 2" and ?u = "with_parser request_begin (method_start m) w"
  let ?v = "''HTTP/'' @ [a, CHR ''.'', b] @ crlf @ crlf"
  let ?V = "?P\<lparr>hp_http_major := of_int (digit_val a), hp_http_minor := of_int (digit_val b)\<rparr>"
  note st = method_end_facts(1) [of _ m] method_end_facts(2-6) [of m]
  have len: "length ?M \<le> 80" using null.method_length_le [of m] by (simp add: http_method_str_def)
  have data: "data = (?M @ [SP]) @ CHR ''/'' # path @ SP # ?v" using assms(9) by (simp add: request_line_def)
  have parts: "drop (length ?M + 1) data = CHR ''/'' # path @ SP # ?v" "drop ?i data = path @ SP # ?v"
    "drop (?i + ?l) data = SP # ?v" "drop (?i + ?l + 1) data = ?v"
    unfolding data by (simp_all del: append_assoc add: append_assoc [symmetric])
  have bytes: "length ?M + 1 < length data" "data ! (length ?M + 1) = CHR ''/''" "?i + ?l < length data"
    "data ! (?i + ?l) = SP"
    using nth_in_append [OF parts(1)] nth_in_append [OF parts(3)] by simp_all
  have slice: "slice data (length ?M + 1) (?i + ?l - (length ?M + 1)) = CHR ''/'' # path"
    using parts(1) by (simp add: slice_def)
  have "exec_loop client_parser_settings data (line_locals (http_parser_init HTTP_REQUEST) w 0 None) =
    exec_loop client_parser_settings data (line_locals (at_byte (length ?M + 1) s_req_spaces_before_url ?P) ?u (length ?M + 1) None)"
    using data by (intro exec_request_method [OF assms(1)]) simp
  also have "\<dots> = exec_loop client_parser_settings data (line_locals (at_byte ?i s_req_path ?P) ?u ?i (Some (length ?M + 1)))"
    using exec_slash [OF st(2) _ _ bytes(1,2), of "length ?M + 1" client_parser_settings ?u] assms(1) len st(3)
    by simp
  also have "\<dots> = exec_loop client_parser_settings data (line_locals (at_byte (?i + ?l) s_req_query_string ?P) ?u (?i + ?l) (Some (length ?M + 1)))"
    using line_query [OF st(2) _ _ assms(2,8), of ?i ?i data "SP # ?v" client_parser_settings ?u "Some (length ?M + 1)"]
      assms(3) len parts(2) unfolding assms(7) [symmetric] by (simp add: assms(7))
  finally have 1: "exec_loop client_parser_settings data (line_locals (http_parser_init HTTP_REQUEST) w 0 None) = \<dots>" .
  define r where "r = at_byte (Suc (?i + ?l)) s_req_http_start ?P"
  define u where "u = with_parser (request_url (CHR ''/'' # path)) r ?u"
  have 2: "exec_loop client_parser_settings data (line_locals (at_byte (?i + ?l) s_req_query_string ?P) ?u (?i + ?l) (Some (length ?M + 1))) =
    exec_loop client_parser_settings data (line_locals r u (?i + ?l + 1) None)"
    using exec_url_end [OF st(2) _ bytes(3,4), of "?i + ?l" s_req_query_string ?u "length ?M + 1"] assms(3) len
    by (simp only: slice r_def u_def) (simp add: read_states_def)
  note ver = exec_version [OF st(2) _ assms(4-6) parts(4), where j = "Suc (?i + ?l)"]
  let ?k = "?i + ?l + 1 + 11"
  have 3: "exec_loop client_parser_settings data (line_locals r u (?i + ?l + 1) None) =
    exec_loop client_parser_settings data (line_locals (at_byte (Suc (?i + ?l) + 11) s_headers_almost_done ?V) u ?k None)"
    unfolding r_def using assms(3) len by (intro ver(1)) simp
  have k: "?k < length data" "data ! ?k = LF" "length data = Suc ?k"
    using ver(2-4) assms(3) len by simp_all
  obtain s t where 4: "exec_loop client_parser_settings data (line_locals (at_byte (Suc (?i + ?l) + 11) s_headers_almost_done ?V) u ?k None) =
      exec_loop client_parser_settings data (line_locals t
        (with_parser request_complete t (with_parser request_headers_complete s u)) (Suc ?k) None)"
    "hp_errno t = HPE_OK" "hp_method s = m" "hp_http_major s = of_int (digit_val a)" "hp_http_minor s = of_int (digit_val b)"
    using exec_request_end [OF _ _ k(1,2), of ?V "Suc (?i + ?l) + 11" u] assms(1,3) len st by auto
  have 5: "exec_loop client_parser_settings data (line_locals t x (Suc ?k) None) = Some (Break (line_locals t x (length data) None))" for x
    by (subst exec_loop.simps) (simp add: k(3))
  show ?thesis using 1 2 3 4 5 by (metis u_def)
qed

lemma handle_request:
  assumes "m \<noteq> HTTP_CONNECT" "\<forall>c \<in> set dir \<union> set query. IS_URL_CHAR c" "length path \<le> 80000"
    "IS_NUM a" "a \<noteq> CHR ''0''" "IS_NUM b" "path = dir @ CHR ''?'' # query" "query \<noteq> []" "w_client_parser w = http_parser_init HTTP_REQUEST"
  shows "\<exists>q r s t. session_handle_data [] (request_line m path a b @ crlf) w =
      Some ((with_parser request_complete t (with_parser request_headers_complete s
        (with_parser (request_url (CHR ''/'' # path)) r (with_parser request_begin q w))))\<lparr>w_client_parser := t\<rparr>) \<and>
    hp_errno t = HPE_OK \<and> hp_method s = m \<and> hp_http_major s = of_int (digit_val a) \<and>
    hp_http_minor s = of_int (digit_val b)"
proof -
  let ?d = "request_line m path a b @ crlf" and ?p = "http_parser_init HTTP_REQUEST"
  obtain q r s t where qrst: "exec_loop client_parser_settings ?d (line_locals ?p w 0 None) =
      Some (Break (line_locals t (with_parser request_complete t (with_parser request_headers_complete s
        (with_parser (request_url (CHR ''/'' # path)) r (with_parser request_begin q w)))) (length ?d) None))"
    "hp_errno t = HPE_OK" "hp_method s = m" "hp_http_major s = of_int (digit_val a)"
    "hp_http_minor s = of_int (digit_val b)"
    using exec_request [OF assms(1-8) refl, of w] by blast
  have init: "initial_locals ?p w = line_locals ?p w 0 None" "hp_errno ?p = HPE_OK"
    by (simp_all add: initial_locals_def line_locals_def http_parser_init_def url_states_def)
  have finish: "exec_finish client_parser_settings ?d (line_locals t x n None) = Return (length ?d) (line_locals t x n None)" for x n
    using qrst(2) by (simp add: exec_finish_def assert_then_def mark_count_def line_locals_def cb_header_field_def
        cb_header_value_def cb_url_def cb_body_def callback_data_def)
  have "?d \<noteq> []" by (simp add: request_line_def)
  then show ?thesis using qrst init finish assms(9)
    by (simp add: session_handle_data_def http_parser_execute_def) blast
qed

lemma IS_URL_CHAR_not_NUL: "\<forall>c \<in> set cs. IS_URL_CHAR c \<Longrightarrow> NUL \<notin> set cs"
  by (auto simp: IS_URL_CHAR_def normal_url_char_def normal_url_tab_def uchar_def)

lemma request_begin_session:
  "s_need_report (w_session (with_parser request_begin p w))"
  "s_proplist (w_session (with_parser request_begin p w)) = s_proplist (w_session w)"
  "s_post_buf (w_session (with_parser request_begin p w)) = s_post_buf (w_session w)"
  "w_config (with_parser request_begin p w) = w_config w"
  by (simp_all add: with_parser_def request_begin_def session_time_start_def gettimeofday_def Let_def case_prod_beta)

lemma request_url_session:
  assumes "NUL \<notin> set at"
  shows "s_need_report (w_session (with_parser (request_url at) p w)) = s_need_report (w_session w)"
    "s_path (w_session (with_parser (request_url at) p w)) = Some at"
    "s_post_buf (w_session (with_parser (request_url at) p w)) = s_post_buf (w_session w)"
    "w_config (with_parser (request_url at) p w) = w_config w"
  using assms
  by (simp_all add: with_parser_def request_url_def Let_def strndup_def c_string_id add_items_of_def split: prod.split option.split)

lemma cut_at_query: "c \<notin> set dir \<Longrightarrow> cut_at c (dir @ c # q) = (dir, Some q)"
proof -
  assume "c \<notin> set dir"
  then have "takeWhile (\<lambda>d. d \<noteq> c) (dir @ c # q) = dir" by (induction dir) auto
  then show ?thesis by (simp add: cut_at_def Let_def)
qed

lemma no_names_caught: "filter (caught []) ps = []"
  by (simp add: caught_def filter_empty_conv)

text \<open>The query string of the copied path: its pairs are collected.\<close>

lemma request_url_query:
  assumes "NUL \<notin> set at" "at = dir @ CHR ''?'' # join_pairs (CHR ''&'') ps" "dir \<noteq> []" "CHR ''?'' \<notin> set dir"
    "ps \<noteq> []" "\<forall>kv \<in> set ps. name_ok (CHR ''&'') (fst kv) \<and> value_ok (CHR ''&'') (snd kv)"
  shows "s_proplist (w_session (with_parser (request_url at) p w)) =
    rev (map (pair_item T_GET) (filter (caught (cf_catch_get (w_config w))) ps)) @ s_proplist (w_session w)"
proof (cases "cf_catch_get (w_config w) = []")
  case True
  then show ?thesis
    using assms(1) by (simp add: with_parser_def request_url_def no_names_caught)
next
  case False
  have "Suc (length (join_pairs (CHR ''&'') ps)) < length at" using assms(2,3) by (cases dir) simp_all
  with assms(5,6) have "snd (parse_string (CHR ''&'') (join_pairs (CHR ''&'') ps @ [NUL]) (length at) T_GET tester True) =
      rev (map (pair_item T_GET) (filter (caught tester) ps))" for tester
    by (intro parse_string_copy) simp_all
  moreover have "cut_at (CHR ''?'') at = (dir, Some (join_pairs (CHR ''&'') ps))"
    unfolding assms(2) by (rule cut_at_query [OF assms(4)])
  ultimately show ?thesis using False assms(1)
    by (simp add: with_parser_def request_url_def strndup_def c_string_id add_items_of_def)
qed

lemma request_end_session:
  assumes "s_post_buf (w_session w) = []"
  shows "s_need_report (w_session (with_parser request_complete t (with_parser request_headers_complete s w))) =
      s_need_report (w_session w)"
    "s_path (w_session (with_parser request_complete t (with_parser request_headers_complete s w))) = s_path (w_session w)"
    "s_proplist (w_session (with_parser request_complete t (with_parser request_headers_complete s w))) =
      s_proplist (w_session w)"
    "s_method (w_session (with_parser request_complete t (with_parser request_headers_complete s w))) = hp_method s"
    "s_http_major (w_session (with_parser request_complete t (with_parser request_headers_complete s w))) = hp_http_major s"
    "s_http_minor (w_session (with_parser request_complete t (with_parser request_headers_complete s w))) = hp_http_minor s"
  using assms
  by (simp_all add: with_parser_def request_complete_def request_headers_complete_def session_time_mark_def
      gettimeofday_def advance_req_time_def Let_def case_prod_beta)

section \<open>Property\<close>

text \<open>
  C10: what the session has of a request. A request without a body, printed by its client, is
  given to the session of a stream that waits for one: the session is to be reported, it has
  the method, the path and the version that were printed, and of the pairs of the query string
  exactly those whose names are to be caught have been put in front of its list, the last one
  first.
\<close>

theorem request_recorded:
  assumes "m \<noteq> HTTP_CONNECT" "path = dir @ CHR ''?'' # join_pairs (CHR ''&'') ps"
    "\<forall>c \<in> set dir \<union> set (join_pairs (CHR ''&'') ps). IS_URL_CHAR c" "length path \<le> 80000" "IS_NUM a" "a \<noteq> CHR ''0''" "IS_NUM b"
    "ps \<noteq> []" "\<forall>kv \<in> set ps. name_ok (CHR ''&'') (fst kv) \<and> value_ok (CHR ''&'') (snd kv)"
    "w_client_parser w = http_parser_init HTTP_REQUEST" "s_post_buf (w_session w) = []"
  shows "\<exists>w'. session_handle_data [] (request_line m path a b @ crlf) w = Some w' \<and>
    hp_errno (w_client_parser w') = HPE_OK \<and> s_need_report (w_session w') \<and>
    s_path (w_session w') = Some (CHR ''/'' # path) \<and> s_method (w_session w') = m \<and>
    s_http_major (w_session w') = of_int (digit_val a) \<and> s_http_minor (w_session w') = of_int (digit_val b) \<and>
    s_proplist (w_session w') =
      rev (map (pair_item T_GET) (filter (caught (cf_catch_get (w_config w))) ps)) @ s_proplist (w_session w)"
proof -
  have ne: "join_pairs (CHR ''&'') ps \<noteq> []"
    using assms(8) by (cases "(CHR ''&'', ps)" rule: join_pairs.cases) auto
  obtain q r s t where h: "session_handle_data [] (request_line m path a b @ crlf) w =
      Some ((with_parser request_complete t (with_parser request_headers_complete s
        (with_parser (request_url (CHR ''/'' # path)) r (with_parser request_begin q w))))\<lparr>w_client_parser := t\<rparr>)"
    "hp_errno t = HPE_OK" "hp_method s = m" "hp_http_major s = of_int (digit_val a)"
    "hp_http_minor s = of_int (digit_val b)"
    using handle_request [OF assms(1,3-7,2) _ assms(10)] ne by blast
  have no_mark: "CHR ''?'' \<notin> set dir"
    using assms(3) question_mark by blast
  have at: "NUL \<notin> set (CHR ''/'' # path)" using IS_URL_CHAR_not_NUL [of "dir @ join_pairs (CHR ''&'') ps"] assms(2,3) by auto
  let ?u = "with_parser (request_url (CHR ''/'' # path)) r (with_parser request_begin q w)"
  have "s_post_buf (w_session ?u) = []"
    using assms(11) by (simp add: request_url_session [OF at] request_begin_session)
  note fin = request_end_session [OF this, of t s]
  have "s_proplist (w_session ?u) = rev (map (pair_item T_GET)
      (filter (caught (cf_catch_get (w_config w))) ps)) @ s_proplist (w_session w)"
    using request_url_query [OF at _ _ _ assms(8,9), of "CHR ''/'' # dir" r "with_parser request_begin q w"] assms(2) no_mark
    by (simp add: request_begin_session)
  then show ?thesis using h fin by (simp add: request_url_session [OF at] request_begin_session)
qed

definition query_world :: world where
  "query_world = (sample_world session_zero)
     \<lparr>w_config := (default_config empty_config)\<lparr>cf_catch_get := [''id'', ''lang'']\<rparr>,
      w_client_parser := http_parser_init HTTP_REQUEST\<rparr>"

theorem request_recorded_witness:
  "\<exists>w'. session_handle_data [] (''GET /a?id=7&x=2&lang=en HTTP/1.1'' @ crlf @ crlf) query_world = Some w' \<and>
    s_path (w_session w') = Some ''/a?id=7&x=2&lang=en'' \<and> s_method (w_session w') = HTTP_GET \<and>
    s_proplist (w_session w') =
      [\<lparr>kv_key = ''lang'', kv_value = ''en'', kv_type = T_GET\<rparr>, \<lparr>kv_key = ''id'', kv_value = ''7'', kv_type = T_GET\<rparr>]"
proof -
  let ?ps = "[(''id'', ''7''), (''x'', ''2''), (''lang'', ''en'')]"
  have line: "request_line HTTP_GET ''a?id=7&x=2&lang=en'' (CHR ''1'') (CHR ''1'') @ crlf =
      ''GET /a?id=7&x=2&lang=en HTTP/1.1'' @ crlf @ crlf"
    by code_simp
  have "filter (caught [''id'', ''lang'']) ?ps = [(''id'', ''7''), (''lang'', ''en'')]"
    "map (pair_item T_GET) [(''id'', ''7''), (''lang'', ''en'')] =
      [\<lparr>kv_key = ''id'', kv_value = ''7'', kv_type = T_GET\<rparr>, \<lparr>kv_key = ''lang'', kv_value = ''en'', kv_type = T_GET\<rparr>]"
    by code_simp+
  then have items: "rev (map (pair_item T_GET) (filter (caught (cf_catch_get (w_config query_world))) ?ps)) @
      s_proplist (w_session query_world) =
      [\<lparr>kv_key = ''lang'', kv_value = ''en'', kv_type = T_GET\<rparr>, \<lparr>kv_key = ''id'', kv_value = ''7'', kv_type = T_GET\<rparr>]"
    by (simp add: query_world_def sample_world_def session_zero_def)
  have "\<forall>c \<in> set ''a'' \<union> set (join_pairs (CHR ''&'') ?ps). IS_URL_CHAR c"
    "''a?id=7&x=2&lang=en'' = ''a'' @ CHR ''?'' # join_pairs (CHR ''&'') ?ps" "IS_NUM (CHR ''1'')"
    "\<forall>kv \<in> set ?ps. name_ok (CHR ''&'') (fst kv) \<and> value_ok (CHR ''&'') (snd kv)"
    by code_simp+
  then show ?thesis
    using request_recorded [of HTTP_GET "''a?id=7&x=2&lang=en''" "''a''" ?ps "CHR ''1''" "CHR ''1''" query_world]
    unfolding line items by (auto simp: query_world_def sample_world_def session_zero_def)
qed

end
