(* ===== verification/TupleHash.thy ===== *)
theory TupleHash
  imports TcpEngine "HOL-Library.Multiset"
begin

text \<open>
  The hash of the address of a stream (src/src/libnids-1.24/src/hash.c): what \<open>init_hash\<close> makes
  of random bytes, and what \<open>mkhash\<close> does with it.
\<close>

section \<open>The permutation\<close>

text \<open>Moving the rest of the array down takes one place out of it.\<close>

lemma shift_down:
  assumes "n + m < length p"
  shows "length (fold (\<lambda>j p. p[n + j := p ! (n + j + 1)]) [0..<m] p) = length p"
    "\<forall>k < length p. fold (\<lambda>j p. p[n + j := p ! (n + j + 1)]) [0..<m] p ! k =
      (if n \<le> k \<and> k < n + m then p ! (k + 1) else p ! k)"
  using assms
proof (induction m)
  case (Suc m)
  { case 1 then show ?case using Suc by simp }
  { case 2 then show ?case using Suc by (auto simp: nth_list_update) }
qed auto

lemma take_hash_remove:
  assumes "length p = 12" "n < r" "r \<le> 12"
  shows "take (r - 1) (hash_remove n p) = take n p @ drop (Suc n) (take r p)" "length (hash_remove n p) = 12"
proof -
  have n: "n + (11 - n) < length p" using assms by simp
  show len: "length (hash_remove n p) = 12" using shift_down(1) [OF n] assms by (simp add: hash_remove_def)
  show "take (r - 1) (hash_remove n p) = take n p @ drop (Suc n) (take r p)"
  proof (rule nth_equalityI)
    show "length (take (r - 1) (hash_remove n p)) = length (take n p @ drop (Suc n) (take r p))"
      using assms len by simp
    fix k assume k: "k < length (take (r - 1) (hash_remove n p))"
    then have k11: "k < 11" using assms by auto
    then have "hash_remove n p ! k = (if n \<le> k then p ! (k + 1) else p ! k)"
      using shift_down(2) [OF n] assms k11 by (simp add: hash_remove_def)
    then show "take (r - 1) (hash_remove n p) ! k = (take n p @ drop (Suc n) (take r p)) ! k"
      using k k11 assms len by (auto simp: nth_append min_def nth_take split: if_splits)
  qed
qed

lemma init_hash_loop_mset:
  assumes "length rs = 12 - i" "i \<le> 12" "length p = 12"
  shows "mset (init_hash_loop rs i p) = mset (take (12 - i) p)"
  using assms
proof (induction rs arbitrary: i p)
  case (Cons r rs)
  let ?n = "r mod (12 - i)" and ?t = "take (12 - i) p"
  have n: "?n < 12 - i" using Cons.prems(1) by (intro mod_less_divisor) simp
  note rem = take_hash_remove [OF Cons.prems(3) n, simplified]
  have "mset (init_hash_loop rs (i + 1) (hash_remove ?n p)) = mset (take (12 - (i + 1)) (hash_remove ?n p))"
    using Cons.prems rem(2) by (intro Cons.IH) simp_all
  moreover have in_t: "?n < length ?t" "take ?n ?t = take ?n p" "?t ! ?n = p ! ?n"
    using n Cons.prems(3) less_le_trans [OF n, of 12] by (simp_all add: min_def)
  have "?t = take ?n p @ p ! ?n # drop (Suc ?n) ?t"
    using id_take_nth_drop [OF in_t(1)] unfolding in_t(2,3) .
  then have "mset ?t = add_mset (p ! ?n) (mset (take ?n p @ drop (Suc ?n) ?t))"
    by (metis mset.simps(2) mset_append union_mset_add_mset_right)
  ultimately show ?case using rem(1) by (simp add: Let_def)
qed simp

lemma init_hash_perm:
  "length rnd = 12 \<Longrightarrow> mset (hk_perm (init_hash x rnd)) = mset [0..<12]"
  using init_hash_loop_mset [of rnd 0 "[0..<12]"] by (simp add: init_hash_def)

section \<open>The hash\<close>

lemma xor_byte: "a < 256 \<Longrightarrow> b < 256 \<Longrightarrow> a XOR b < (256 :: nat)"
  using take_bit_nat_less_exp [of 8 "a XOR b"] take_bit_nat_eq_self [of a 8] take_bit_nat_eq_self [of b 8]
  by (simp add: take_bit_xor)

definition keys_ok :: "hash_keys \<Rightarrow> bool" where
  "keys_ok keys \<longleftrightarrow> mset (hk_perm keys) = mset [0..<12] \<and> length (hk_xor keys) = 12 \<and> (\<forall>x \<in> set (hk_xor keys). x < 256)"

text \<open>The hash as a number: no step wraps around.\<close>

definition hash_value :: "hash_keys \<Rightarrow> nat list \<Rightarrow> nat \<Rightarrow> nat" where
  "hash_value keys d n = fold (\<lambda>i res. (256 * res + (d ! (hk_perm keys ! i) XOR hk_xor keys ! i)) mod 0xff100f) [0..<n] 0"

lemma tuple_bytes_facts:
  "length (tuple_bytes s sp d dp) = 12" "\<forall>b \<in> set (tuple_bytes s sp d dp). b < 256"
  by (auto simp: tuple_bytes_def Let_def)

lemma perm_facts:
  assumes "keys_ok keys"
  shows "length (hk_perm keys) = 12" "\<And>i. i < 12 \<Longrightarrow> hk_perm keys ! i < 12"
    "map ((!) xs) (hk_perm keys) = map (\<lambda>i. xs ! (hk_perm keys ! i)) [0..<12]"
proof -
  have m: "mset (hk_perm keys) = mset [0..<12]" using assms by (simp add: keys_ok_def)
  show len: "length (hk_perm keys) = 12" using arg_cong [OF m, of size] by simp
  show "hk_perm keys ! i < 12" if "i < 12" for i
    using mset_eq_setD [OF m] nth_mem [of i "hk_perm keys"] that len by auto
  show "map ((!) xs) (hk_perm keys) = map (\<lambda>i. xs ! (hk_perm keys ! i)) [0..<12]"
    using len by (intro nth_equalityI) simp_all
qed

lemma hash_value_less: "hash_value keys d n < 0xff100f"
  by (cases n) (simp_all add: hash_value_def)

lemma mkhash_prefix:
  assumes "keys_ok keys" "n \<le> 12"
  shows "unat (fold (\<lambda>i res. (push_bit 8 res +
      of_nat (tuple_bytes s sp d dp ! (hk_perm keys ! i) XOR hk_xor keys ! i)) mod 0xff100f) [0..<n] (0 :: u32)) =
    hash_value keys (tuple_bytes s sp d dp) n"
  using assms(2)
proof (induction n)
  case 0
  then show ?case by (simp add: hash_value_def)
next
  case (Suc n)
  let ?r = "fold (\<lambda>i res. (push_bit 8 res +
      of_nat (tuple_bytes s sp d dp ! (hk_perm keys ! i) XOR hk_xor keys ! i)) mod 0xff100f) [0..<n] (0 :: u32)"
  let ?b = "tuple_bytes s sp d dp ! (hk_perm keys ! n) XOR hk_xor keys ! n"
  have r: "unat ?r = hash_value keys (tuple_bytes s sp d dp) n" using Suc by simp
  have lt: "unat ?r < 0xff100f" unfolding r by (rule hash_value_less)
  have "tuple_bytes s sp d dp ! (hk_perm keys ! n) < 256"
    using tuple_bytes_facts [of s sp d dp] perm_facts(2) [OF assms(1), of n] Suc.prems by (simp add: nth_mem)
  moreover have "hk_xor keys ! n < 256" using assms(1) Suc.prems by (simp add: keys_ok_def)
  ultimately have b: "?b < 256" by (rule xor_byte)
  have "unat (push_bit 8 ?r + of_nat ?b) = 256 * unat ?r + ?b"
    using lt b by (simp add: push_bit_eq_mult unat_word_ariths unat_of_nat mult.commute)
  then show ?case using r by (simp add: hash_value_def unat_mod)
qed

section \<open>Property\<close>

text \<open>
  C40: the keys of the hash are what they are to be. From any twelve and twelve random bytes
  \<open>init_hash\<close> makes a permutation of the twelve places and twelve bytes; with them \<open>mkhash\<close>
  reads every byte of an address exactly once, no step of it wraps around in 32 bits, and its
  result is below the modulus.
\<close>

theorem hash_keys_ok:
  assumes "length rnd_xor = 12" "length rnd_perm = 12" "\<forall>x \<in> set rnd_xor. x < 256"
  shows "keys_ok (init_hash rnd_xor rnd_perm) \<and>
    mset (map (\<lambda>i. tuple_bytes s sp d dp ! (hk_perm (init_hash rnd_xor rnd_perm) ! i)) [0..<12]) = mset (tuple_bytes s sp d dp) \<and>
    unat (mkhash (init_hash rnd_xor rnd_perm) s sp d dp) = hash_value (init_hash rnd_xor rnd_perm) (tuple_bytes s sp d dp) 12 \<and>
    unat (mkhash (init_hash rnd_xor rnd_perm) s sp d dp) < 0xff100f"
proof -
  let ?k = "init_hash rnd_xor rnd_perm" and ?t = "tuple_bytes s sp d dp"
  have ok: "keys_ok ?k" using assms init_hash_perm [OF assms(2), of rnd_xor] by (simp add: keys_ok_def init_hash_def)
  have "mset (map ((!) ?t) (hk_perm ?k)) = mset (map ((!) ?t) [0..<12])"
    using ok by (simp only: keys_ok_def mset_map)
  also have "map ((!) ?t) [0..<12] = ?t" using map_nth [of ?t] tuple_bytes_facts(1) by simp
  finally have "mset (map ((!) ?t) (hk_perm ?k)) = mset ?t" .
  moreover have "unat (mkhash ?k s sp d dp) = hash_value ?k ?t 12"
    unfolding mkhash_def by (rule mkhash_prefix [OF ok order_refl])
  ultimately show ?thesis using ok hash_value_less perm_facts(3) [OF ok, of ?t] by simp
qed

theorem hash_keys_ok_witness:
  "keys_ok (init_hash [9, 200, 3, 4, 5, 6, 7, 255, 0, 1, 2, 77] [12, 24, 200, 7, 7, 255, 0, 0, 31, 90, 2, 1]) \<and>
   unat (mkhash (init_hash [9, 200, 3, 4, 5, 6, 7, 255, 0, 1, 2, 77] [12, 24, 200, 7, 7, 255, 0, 0, 31, 90, 2, 1]) 1 80 2 81) < 0xff100f"
proof -
  have "length [9, 200, 3, 4, 5, 6, 7, 255, 0, 1, 2, 77 :: nat] = 12" "length [12, 24, 200, 7, 7, 255, 0, 0, 31, 90, 2, 1 :: nat] = 12"
    "\<forall>x \<in> set [9, 200, 3, 4, 5, 6, 7, 255, 0, 1, 2, 77 :: nat]. x < 256" by simp_all
  from hash_keys_ok [OF this, of 1 80 2 81] show ?thesis by blast
qed

end
