(* ===== verification/Warnings.thy ===== *)
theory Warnings
  imports Scan Session
begin

text \<open>
  The default of \<open>nids_params.syslog\<close>: the line that \<open>nids_syslog\<close> (src/src/libnids-1.24/src/
  libnids.c) writes for a warning. bscope puts its own empty function in its place.
\<close>

section \<open>The texts\<close>

definition NIDS_WARN_IP :: nat where "NIDS_WARN_IP = 1"
definition NIDS_WARN_TCP :: nat where "NIDS_WARN_TCP = 2"
definition NIDS_WARN_SCAN :: nat where "NIDS_WARN_SCAN = 4"
definition NIDS_WARN_IP_HDR :: nat where "NIDS_WARN_IP_HDR = 4"
definition NIDS_WARN_TCP_HDR :: nat where "NIDS_WARN_TCP_HDR = 7"

definition nids_warnings :: "string list" where
  "nids_warnings =
     [''Murphy - you never should see this message !'', ''Oversized IP packet'',
      ''Invalid IP fragment list: fragment over size'', ''Overlapping IP fragments'', ''Invalid IP header'',
      ''Source routed IP frame'', ''Max number of TCP streams reached'', ''Invalid TCP header'',
      ''Too much data in TCP receive queue'', ''Invalid TCP flags'']"

fun hex_digit :: "nat \<Rightarrow> char" where
  "hex_digit n = (if n < 10 then char_of (48 + n) else char_of (87 + n))"

text \<open>\<open>%x\<close>\<close>

function show_hex :: "nat \<Rightarrow> string" where
  "show_hex n = (if n < 16 then [hex_digit n] else show_hex (n div 16) @ [hex_digit (n mod 16)])"
  by pat_completeness auto
termination by (relation "measure id") auto

declare show_hex.simps [simp del]

section \<open>The line of a scan\<close>

text \<open>
  The loop over the ports: the text, and the flags that all packets have and those that one
  has. \<open>this_host\<close> is the host of the table of \<open>Scan\<close>.
\<close>

fun scan_ports :: "scan_entry list \<Rightarrow> string \<Rightarrow> u8 \<Rightarrow> u8 \<Rightarrow> string \<times> u8 \<times> u8" where
  "scan_ports [] buf flagsand flagsor = (buf, flagsand, flagsor)"
| "scan_ports (e # es) buf flagsand flagsor =
     scan_ports es (buf @ int_ntoa (sc_addr e) @ '':'' @ show_nat (unat (sc_port e)) @ '','')
       (flagsand AND sc_flags e) (flagsor OR sc_flags e)"

definition scan_message :: "host \<Rightarrow> string" where
  "scan_message h =
     (case scan_ports (ho_packets h) (''Scan from '' @ int_ntoa (ho_addr h) @ ''. Scanned ports: '') 255 0 of
        (buf, flagsand, flagsor) \<Rightarrow>
          if flagsand = flagsor then
            (if flagsand = 2 then buf @ ''scan type: SYN''
             else if flagsand = 0 then buf @ ''scan type: NULL''
             else if flagsand = 1 then buf @ ''scan type: FIN''
             else buf @ ''flags=0x'' @ show_hex (unat flagsand))
          else buf @ ''various flags'')"

section \<open>The function\<close>

text \<open>
  \<open>data\<close> is a pointer to a TCP header, to a host, or NULL. What goes wrong is a result: a text
  that is not in the table, a buffer that is too small, a pointer to something else.
\<close>

datatype warn_data = NoData | TcpData string | HostData host

datatype logged = Logged string | BadWarning | BufferOverrun | BadPointer

definition ADDR_BUF :: nat where "ADDR_BUF = 20"
definition SCAN_BUF :: nat where "SCAN_BUF = 1024"

definition copies_fit :: "string \<Rightarrow> bool" where
  "copies_fit pkt \<longleftrightarrow> length (int_ntoa (ip_src pkt)) < ADDR_BUF \<and> length (int_ntoa (ip_dst pkt)) < ADDR_BUF"

definition nids_syslog :: "nat \<Rightarrow> nat \<Rightarrow> string \<Rightarrow> warn_data \<Rightarrow> logged" where
  "nids_syslog ty errnum pkt data =
     (let saddr = int_ntoa (ip_src pkt); daddr = int_ntoa (ip_dst pkt) in
      if ty = NIDS_WARN_IP then
        (if errnum \<ge> length nids_warnings then BadWarning
         else if errnum = NIDS_WARN_IP_HDR then Logged (nids_warnings ! errnum @ [LF])
         else if \<not> copies_fit pkt then BufferOverrun
         else Logged (nids_warnings ! errnum @ '', packet (apparently) from '' @ saddr @ '' to '' @ daddr @ [LF]))
      else if ty = NIDS_WARN_TCP then
        (if \<not> copies_fit pkt then BufferOverrun
         else if errnum \<ge> length nids_warnings then BadWarning
         else if errnum = NIDS_WARN_TCP_HDR
         then Logged (nids_warnings ! errnum @ '',from '' @ saddr @ '' to '' @ daddr @ [LF])
         else case data of
           TcpData th \<Rightarrow> Logged (nids_warnings ! errnum @ '',from '' @ saddr @ '':'' @ show_nat (unat (th_sport th)) @
             '' to  '' @ daddr @ '':'' @ show_nat (unat (th_dport th)) @ [LF])
         | _ \<Rightarrow> BadPointer)
      else if ty = NIDS_WARN_SCAN then
        (case data of
           HostData h \<Rightarrow> (if length (scan_message h) < SCAN_BUF then Logged (scan_message h) else BufferOverrun)
         | _ \<Rightarrow> BadPointer)
      else Logged (''Unknown warning number ?'' @ [LF]))"

section \<open>The lengths of the texts\<close>

lemma length_show_nat: "n < 10 ^ Suc k \<Longrightarrow> length (show_nat n) \<le> Suc k"
proof (induction k arbitrary: n)
  case (Suc k)
  then have "length (show_nat (n div 10)) \<le> Suc k" by (intro Suc.IH) simp
  then show ?case by (subst show_nat.simps) simp
qed (subst show_nat.simps, simp)

lemma length_int_ntoa: "length (int_ntoa a) \<le> 15"
proof -
  have byte: "length (show_nat n) \<le> 3" if "n < 256" for n
    using length_show_nat [of n 2] that by simp
  have mask: "unat (w AND 0xff) < 256" for w :: u32
    using unat_mono [of "w AND 0xff" 256] le_less_trans [OF word_and_le1, of "0xff" 256 w] by simp
  have top: "unat (drop_bit 24 a) < 256"
    using unsigned_less [of a, where ?'a = nat] less_mult_imp_div_less [of "unat a" 256 16777216]
    by (simp add: drop_bit_eq_div unat_div)
  show ?thesis
    using byte [OF mask [of a]] byte [OF mask [of "drop_bit 8 a"]] byte [OF mask [of "drop_bit 16 a"]] byte [OF top]
    by (simp add: int_ntoa_def)
qed

lemma length_show_port: "length (show_nat (unat (p :: u16))) \<le> 5"
  using length_show_nat [of "unat p" 4] unsigned_less [of p, where ?'a = nat] by simp

lemma length_show_byte: "length (show_hex (unat (b :: u8))) \<le> 2"
proof -
  have "unat b div 16 < 16" using unsigned_less [of b, where ?'a = nat] by (intro less_mult_imp_div_less) simp
  then have "length (show_hex (unat b div 16)) = 1" by (subst show_hex.simps) simp
  then show ?thesis by (subst show_hex.simps) simp
qed

lemma copies_fit: "copies_fit pkt"
  using length_int_ntoa [of "ip_src pkt"] length_int_ntoa [of "ip_dst pkt"] by (simp add: copies_fit_def ADDR_BUF_def)

lemma length_scan_ports:
  "length (fst (scan_ports es buf a b)) \<le> length buf + 22 * length es"
proof (induction es arbitrary: buf a b)
  case (Cons e es)
  let ?buf = "buf @ int_ntoa (sc_addr e) @ '':'' @ show_nat (unat (sc_port e)) @ '',''"
  have "length ?buf \<le> length buf + 22"
    using length_int_ntoa [of "sc_addr e"] length_show_port [of "sc_port e"] by simp
  moreover have "length (fst (scan_ports (e # es) buf a b)) \<le> length ?buf + 22 * length es"
    unfolding scan_ports.simps by (rule Cons.IH)
  ultimately show ?case by (simp del: length_append scan_ports.simps)
qed simp

lemma length_scan_message: "length (scan_message h) \<le> 57 + 22 * length (ho_packets h)"
proof -
  obtain buf a b where p: "scan_ports (ho_packets h) (''Scan from '' @ int_ntoa (ho_addr h) @ ''. Scanned ports: '') 255 0 = (buf, a, b)"
    by (cases "scan_ports (ho_packets h) (''Scan from '' @ int_ntoa (ho_addr h) @ ''. Scanned ports: '') 255 0") auto
  then have "length buf \<le> 42 + 22 * length (ho_packets h)"
    using length_scan_ports [of "ho_packets h" "''Scan from '' @ int_ntoa (ho_addr h) @ ''. Scanned ports: ''" 255 0]
      length_int_ntoa [of "ho_addr h"] by simp
  then show ?thesis using length_show_byte [of a] unfolding scan_message_def p by auto
qed

section \<open>Property\<close>

text \<open>
  The host that \<open>detect_scan\<close> hands to \<open>syslog\<close>: the entry of the new packet is behind those
  of the table.
\<close>

definition warned_host :: "host \<Rightarrow> scan_entry \<Rightarrow> host" where
  "warned_host h e = h\<lparr>ho_packets := ho_packets h @ [e]\<rparr>"

text \<open>
   a warning never leaves its buffers. Whatever the type of the warning, its number, the
  packet and the header: an address fits where it is copied to. The line of a scan fits into
  its buffer as long as the ports that make a scan are at most 42 (the default is 10).
\<close>

theorem syslog_fits:
  assumes "scan_ok prm s" "h \<in> set (sd_hashhost s k)" "sp_num_ports prm \<le> 42"
  shows "nids_syslog NIDS_WARN_SCAN 0 [] (HostData (warned_host h e)) = Logged (scan_message (warned_host h e)) \<and>
    nids_syslog ty errnum pkt (TcpData th) \<noteq> BufferOverrun \<and>
    (errnum < 10 \<and> ty \<noteq> NIDS_WARN_SCAN \<longrightarrow> (\<exists>line. nids_syslog ty errnum pkt (TcpData th) = Logged line))"
proof -
  have "length (ho_packets (warned_host h e)) \<le> 43"
    using assms by (fastforce simp: scan_ok_def warned_host_def)
  then have "length (scan_message (warned_host h e)) < SCAN_BUF"
    using length_scan_message [of "warned_host h e"] by (simp add: SCAN_BUF_def)
  then show ?thesis
    by (auto simp: nids_syslog_def copies_fit nids_warnings_def Let_def NIDS_WARN_IP_def NIDS_WARN_TCP_def NIDS_WARN_SCAN_def)
qed

definition scanned_table :: scan_table where
  "scanned_table = \<lparr>sd_hashhost = (\<lambda>_. [\<lparr>ho_addr = 0x0100000a, ho_modtime = 5,
       ho_packets = [\<lparr>sc_addr = 0x0200000a, sc_port = 22, sc_flags = 2\<rparr>]\<rparr>]), sd_warnings = 0, sd_bad_index = None\<rparr>"

theorem syslog_fits_witness:
  "nids_syslog NIDS_WARN_SCAN 0 [] (HostData (warned_host (hd (sd_hashhost scanned_table 0))
      \<lparr>sc_addr = 0x0200000a, sc_port = 80, sc_flags = 2\<rparr>)) =
    Logged ''Scan from 10.0.0.1. Scanned ports: 10.0.0.2:22,10.0.0.2:80,scan type: SYN''"
proof -
  let ?h = "warned_host (hd (sd_hashhost scanned_table 0)) \<lparr>sc_addr = 0x0200000a, sc_port = 80, sc_flags = 2\<rparr>"
  have "nids_syslog NIDS_WARN_SCAN 0 [] (HostData ?h) = Logged (scan_message ?h)"
    using syslog_fits [of "\<lparr>sp_num_hosts = 256, sp_delay = 3000, sp_num_ports = 10\<rparr>" scanned_table
        "hd (sd_hashhost scanned_table 0)" 0]
    by (simp add: scan_ok_def scanned_table_def)
  also have "scan_message ?h = ''Scan from 10.0.0.1. Scanned ports: 10.0.0.2:22,10.0.0.2:80,scan type: SYN''"
    by code_simp
  finally show ?thesis .
qed

end
