(* ===== verification/Resets.thy ===== *)
theory Resets
  imports TcpStream
begin

text \<open>
  Killing a connection (src/src/libnids-1.24/src/killtcp.c): the resets that \<open>nids_killtcp\<close>
  sends to both ends of a stream. libnet writes them; a call of its builders is the value
  \<open>reset\<close> of the arguments that matter. The file has a part for each version of libnet, the
  last of which is for none.
\<close>

datatype libnet_ver = LIBNET_0 | LIBNET_1 | NO_LIBNET

record reset =
  rs_source :: u16
  rs_dest :: u16
  rs_saddr :: u32
  rs_daddr :: u32
  rs_seq :: u32
  rs_ack :: u32
  rs_control :: u8
  rs_window :: u16
  rs_length :: nat
  rs_id :: u16
  rs_ttl :: u8

definition reset_seq :: "half_stream \<Rightarrow> half_stream \<Rightarrow> bool \<Rightarrow> u32" where
  "reset_seq sender receiver seqoff =
     hs_first_data_seq sender + hs_count receiver + hs_urg_count receiver +
     (if seqoff then ucast (hs_window receiver div 2) else 0)"

definition build_reset :: "u16 \<Rightarrow> u16 \<Rightarrow> u32 \<Rightarrow> u32 \<Rightarrow> u32 \<Rightarrow> reset" where
  "build_reset source dest saddr daddr n =
     \<lparr>rs_source = source, rs_dest = dest, rs_saddr = saddr, rs_daddr = daddr, rs_seq = n, rs_ack = 0,
      rs_control = 0x4, rs_window = 32000, rs_length = 40, rs_id = 12345, rs_ttl = 64\<rparr>"

text \<open>\<open>initialised\<close>: the socket or handle of libnet is there (\<open>raw_init\<close>).\<close>

definition nids_killtcp_seq :: "bool \<Rightarrow> tcp_stream \<Rightarrow> bool \<Rightarrow> reset list" where
  "nids_killtcp_seq initialised s seqoff =
     (if \<not> initialised then []
      else let a = ts_addr s in
        [build_reset (t4_source a) (t4_dest a) (t4_saddr a) (t4_daddr a) (reset_seq (ts_client s) (ts_server s) seqoff),
         build_reset (t4_dest a) (t4_source a) (t4_daddr a) (t4_saddr a) (reset_seq (ts_server s) (ts_client s) seqoff)])"

text \<open>Without libnet the program is aborted (\<open>None\<close>).\<close>

definition nids_killtcp :: "libnet_ver \<Rightarrow> bool \<Rightarrow> tcp_stream \<Rightarrow> reset list option" where
  "nids_killtcp ver initialised s =
     (case ver of
        NO_LIBNET \<Rightarrow> if initialised then None else Some []
      | _ \<Rightarrow> Some (nids_killtcp_seq initialised s False @ nids_killtcp_seq initialised s True))"

text \<open>
  Each end gets a reset with the number it waits for and one half a window further: the
  first is what the reassembly of the stream expects next.
\<close>

lemma killtcp_in_window:
  assumes "nids_killtcp ver True s = Some rs"
  shows "map rs_seq rs = [EXP_SEQ Server s, EXP_SEQ Client s,
      EXP_SEQ Server s + ucast (hs_window (ts_server s) div 2), EXP_SEQ Client s + ucast (hs_window (ts_client s) div 2)]"
    "r \<in> set rs \<Longrightarrow> rs_control r = 4"
  using assms
  by (auto simp: nids_killtcp_def nids_killtcp_seq_def build_reset_def reset_seq_def EXP_SEQ_def Let_def
      split: libnet_ver.splits)

end
