(* ===== verification/Process.thy ===== *)
theory Process
  imports Ini Status
begin

text \<open>
  The processes of bscope (src/src/main.c): the options of the command line, what \<open>main\<close> runs,
  the supervisor that starts the worker again, and the handler of the signals that end them.
  \<open>getopt\<close> is its result, the list of options with their arguments; \<open>fork\<close> and \<open>waitpid\<close> are
  what they return.
\<close>

section \<open>The command line\<close>

datatype main_mode = NO_MODE | LOG_MODE | STAT_MODE

record main_state =
  mn_config :: configuration
  mn_config_file :: string
  mn_supervisor_mode :: bool
  mn_mode :: main_mode

definition main_init :: "string \<Rightarrow> main_state" where
  "main_init conf = \<lparr>mn_config = empty_config, mn_config_file = conf, mn_supervisor_mode = True, mn_mode = NO_MODE\<rparr>"

text \<open>One turn of the loop. \<open>Inl\<close> is a return from \<open>main\<close>.\<close>

definition option_case :: "char \<Rightarrow> string \<Rightarrow> main_state \<Rightarrow> int + main_state" where
  "option_case c optarg m =
     (if c = CHR ''c'' then Inr (m\<lparr>mn_config_file := optarg\<rparr>)
      else if c = CHR ''p'' then Inr (m\<lparr>mn_config := (mn_config m)\<lparr>cf_pid_file := Some optarg\<rparr>\<rparr>)
      else if c = CHR ''f'' then Inr (m\<lparr>mn_config := (mn_config m)\<lparr>cf_daemon_mode := - 1\<rparr>\<rparr>)
      else if c = CHR ''d'' then Inr (m\<lparr>mn_config := (mn_config m)\<lparr>cf_daemon_mode := 1\<rparr>\<rparr>)
      else if c = CHR ''0'' then Inr (m\<lparr>mn_supervisor_mode := False\<rparr>)
      else if c = CHR ''v'' then Inl 0
      else if c = CHR ''i'' then Inr (m\<lparr>mn_config := (mn_config m)\<lparr>cf_netif := Some optarg\<rparr>\<rparr>)
      else if c = CHR ''l'' then Inr (m\<lparr>mn_mode := LOG_MODE\<rparr>)
      else if c = CHR ''s'' then Inr (m\<lparr>mn_mode := STAT_MODE\<rparr>)
      else if c = CHR ''?'' \<or> c = CHR ''h'' then Inl 0
      else Inl (- 1))"

fun option_loop :: "(char \<times> string) list \<Rightarrow> main_state \<Rightarrow> int + main_state" where
  "option_loop [] m = Inr m"
| "option_loop ((c, optarg) # opts) m =
     (case option_case c optarg m of Inl r \<Rightarrow> Inl r | Inr m' \<Rightarrow> option_loop opts m')"

text \<open>
  What \<open>main\<close> goes on with. \<open>files\<close> gives the contents of the files that can be opened,
  \<open>pid\<close> is the result of \<open>fork\<close> in daemon mode. \<open>RunWorker\<close> is \<open>start_worker\<close> with its
  configuration, under a supervisor or not.
\<close>

datatype main_run = ExitWith int | ConfigError cfg_error | ShowLogs configuration | ShowStatus configuration
  | RunWorker bool configuration

definition start_worker :: "main_state \<Rightarrow> configuration \<Rightarrow> main_run" where
  "start_worker m c = RunWorker (mn_supervisor_mode m) c"

definition main_modes :: "main_state \<Rightarrow> configuration \<Rightarrow> int \<Rightarrow> int \<Rightarrow> main_run" where
  "main_modes m c uid pid =
     (case mn_mode m of
        LOG_MODE \<Rightarrow> ShowLogs c
      | STAT_MODE \<Rightarrow> ShowStatus c
      | NO_MODE \<Rightarrow>
          if uid \<noteq> 0 then ExitWith (- 1)
          else if cf_daemon_mode c = 1 then
            (if pid = 0 then start_worker m c else if pid > 0 then ExitWith 0 else ExitWith 1)
          else start_worker m c)"

definition main :: "string \<Rightarrow> (string \<Rightarrow> string option) \<Rightarrow> int \<Rightarrow> int \<Rightarrow> (char \<times> string) list \<Rightarrow> main_run" where
  "main conf files uid pid opts =
     (case option_loop opts (main_init conf) of
        Inl r \<Rightarrow> ExitWith r
      | Inr m \<Rightarrow>
          (case loadconfig (files (mn_config_file m)) (mn_config m) of
             None \<Rightarrow> ExitWith (- 1)
           | Some (Inl e) \<Rightarrow> ConfigError e
           | Some (Inr (err, c)) \<Rightarrow> main_modes m c uid pid))"

section \<open>Options against the configuration file\<close>

text \<open>The settings that a configuration already has.\<close>

definition keeps_options :: "configuration \<Rightarrow> configuration \<Rightarrow> bool" where
  "keeps_options b c \<longleftrightarrow> (cf_pid_file b \<noteq> None \<longrightarrow> cf_pid_file c = cf_pid_file b) \<and>
     (cf_netif b \<noteq> None \<longrightarrow> cf_netif c = cf_netif b) \<and> (cf_daemon_mode b \<noteq> 0 \<longrightarrow> cf_daemon_mode c = cf_daemon_mode b)"

lemma config_item_keeps: "add_item ty p c = Inr c' \<Longrightarrow> keeps_options b c \<Longrightarrow> keeps_options b c'"
  by (cases ty) (auto simp: keeps_options_def set_list_def split: sum.splits)

lemma config_items_keep: "add_items ty ps c = Inr c' \<Longrightarrow> keeps_options b c \<Longrightarrow> keeps_options b c'"
  by (induction ty ps c rule: add_items.induct) (auto split: sum.splits dest: config_item_keeps)

lemma split_list_keeps:
  "from_list (split_list v ty c) = Inr (r, c') \<Longrightarrow> keeps_options b c \<Longrightarrow> keeps_options b c'"
  by (auto simp: from_list_def split_list_def split: sum.splits dest: config_items_keep)

lemma keeps_options_other [simp]:
  "keeps_options b (upd_master f c) = keeps_options b c" "keeps_options b (c\<lparr>cf_swap_file := x\<rparr>) = keeps_options b c"
  "keeps_options b (c\<lparr>cf_node := y\<rparr>) = keeps_options b c" "keeps_options b (c\<lparr>cf_skip_checksum := z\<rparr>) = keeps_options b c"
  "keeps_options b (default_config c) = keeps_options b c" "keeps_options c c"
  by (simp_all add: keeps_options_def upd_master_def default_config_def)

lemma keeps_options_settings [simp]:
  "cf_daemon_mode c = 0 \<Longrightarrow> keeps_options b c \<Longrightarrow> keeps_options b (c\<lparr>cf_daemon_mode := d\<rparr>)"
  "cf_pid_file c = None \<Longrightarrow> keeps_options b c \<Longrightarrow> keeps_options b (c\<lparr>cf_pid_file := f\<rparr>)"
  "cf_netif c = None \<Longrightarrow> keeps_options b c \<Longrightarrow> keeps_options b (c\<lparr>cf_netif := n\<rparr>)"
  by (auto simp: keeps_options_def)

interpretation option_reader: ini_client handler_config "keeps_options b" for b
proof
  fix u u' :: configuration and s n v :: string and r :: bool
  assume "keeps_options b u" "handler_config s n v u = Inr (r, u')"
  moreover have "from_list (split_list v ty u) = Inr (r, u') \<Longrightarrow> keeps_options b u \<Longrightarrow> keeps_options b u'" for ty
    by (rule split_list_keeps)
  ultimately show "keeps_options b u'"
    unfolding handler_config_def Let_def by (elim if_elim) (simp_all add: handled_def, auto)
qed

lemma loadconfig_keeps:
  "loadconfig file c = Some (Inr (err, c')) \<Longrightarrow> keeps_options c c'"
  using option_reader.parse_ok [of c "default_config c" _ err c']
  by (auto simp: loadconfig_def split: option.splits)

text \<open>The options as a configuration holds them: the last of a kind wins.\<close>

fun last_option :: "(char \<times> string) list \<Rightarrow> char set \<Rightarrow> (char \<times> string) option" where
  "last_option [] cs = None"
| "last_option (opt # opts) cs =
     (case last_option opts cs of None \<Rightarrow> if fst opt \<in> cs then Some opt else None | Some o' \<Rightarrow> Some o')"

lemma option_case_sets:
  assumes "option_case c a m = Inr m'"
  shows "cf_pid_file (mn_config m') = (if c = CHR ''p'' then Some a else cf_pid_file (mn_config m))"
    "cf_netif (mn_config m') = (if c = CHR ''i'' then Some a else cf_netif (mn_config m))"
    "cf_daemon_mode (mn_config m') = (if c = CHR ''d'' then 1 else if c = CHR ''f'' then - 1 else cf_daemon_mode (mn_config m))"
    "mn_supervisor_mode m' = (c \<noteq> CHR ''0'' \<and> mn_supervisor_mode m)"
    "mn_config_file m' = (if c = CHR ''c'' then a else mn_config_file m)"
  using assms unfolding option_case_def by (simp_all split: if_splits, auto)

lemma option_loop_last:
  assumes "option_loop opts m = Inr m'"
  shows "cf_pid_file (mn_config m') = (case last_option opts {CHR ''p''} of None \<Rightarrow> cf_pid_file (mn_config m) | Some opt \<Rightarrow> Some (snd opt))"
    "cf_netif (mn_config m') = (case last_option opts {CHR ''i''} of None \<Rightarrow> cf_netif (mn_config m) | Some opt \<Rightarrow> Some (snd opt))"
    "cf_daemon_mode (mn_config m') = (case last_option opts {CHR ''d'', CHR ''f''} of None \<Rightarrow> cf_daemon_mode (mn_config m)
      | Some opt \<Rightarrow> if fst opt = CHR ''d'' then 1 else - 1)"
    "mn_supervisor_mode m' = (last_option opts {CHR ''0''} = None \<and> mn_supervisor_mode m)"
    "mn_config_file m' = (case last_option opts {CHR ''c''} of None \<Rightarrow> mn_config_file m | Some opt \<Rightarrow> snd opt)"
  using assms
proof (induction opts arbitrary: m)
  case (Cons opt opts)
  obtain c a where opt: "opt = (c, a)" by force
  { case 1 then show ?case using Cons(1) opt option_case_sets(1) by (auto split: sum.splits option.splits) }
  { case 2 then show ?case using Cons(2) opt option_case_sets(2) by (auto split: sum.splits option.splits) }
  { case 3 then show ?case using Cons(3) opt option_case_sets(3) by (auto split: sum.splits option.splits) }
  { case 4 then show ?case using Cons(4) opt option_case_sets(4) by (auto split: sum.splits option.splits) }
  { case 5 then show ?case using Cons(5) opt option_case_sets(5) by (auto split: sum.splits option.splits) }
qed simp_all

section \<open>The supervisor and its worker\<close>

text \<open>
  \<open>handler_exit\<close>, with the \<open>child_pid\<close> of the process it runs in: a signal for the child, or
  the end of the process.
\<close>

datatype exit_effect = KillChild int | ExitProcess int

definition handler_exit :: "int \<Rightarrow> status \<Rightarrow> exit_effect \<times> status" where
  "handler_exit child_pid stat =
     (if child_pid \<noteq> 0 then (KillChild child_pid, stat) else (ExitProcess 1, status_shutdown stat))"

text \<open>
  \<open>supervisor_loop\<close> of the parent: before \<open>fork\<close>, before and after \<open>child_pid = pid\<close>, and when
  it has left the loop or the process. The worker is running or waits to be waited for; its
  copy of \<open>child_pid\<close> is 0. The status is shared between the processes.
\<close>

datatype sup_phase = Forking | Forked int | Waiting int | Left

datatype worker = NoWorker | Running int | Signaled int | Exited int

record procs =
  pr_phase :: sup_phase
  pr_child_pid :: int
  pr_worker :: worker
  pr_status :: status
  pr_forks :: nat

text \<open>\<open>SIGTERM\<close> or \<open>SIGINT\<close> for the worker, and for the supervisor.\<close>

definition sigterm_worker :: "int \<Rightarrow> procs \<Rightarrow> procs" where
  "sigterm_worker p s =
     (if pr_worker s = Running p then
        (case handler_exit 0 (pr_status s) of (_, stat) \<Rightarrow> s\<lparr>pr_worker := Exited p, pr_status := stat\<rparr>)
      else s)"

definition sigterm_supervisor :: "procs \<Rightarrow> procs" where
  "sigterm_supervisor s =
     (case handler_exit (pr_child_pid s) (pr_status s) of
        (KillChild p, stat) \<Rightarrow> sigterm_worker p s
      | (ExitProcess _, stat) \<Rightarrow> s\<lparr>pr_phase := Left, pr_status := stat\<rparr>)"

inductive proc_step :: "procs \<Rightarrow> procs \<Rightarrow> bool" where
  fork_child: "pr_phase s = Forking \<Longrightarrow> 0 < p \<Longrightarrow>
     proc_step s (s\<lparr>pr_phase := Forked p, pr_worker := Running p, pr_forks := pr_forks s + 1\<rparr>)"
| fork_fails: "pr_phase s = Forking \<Longrightarrow> proc_step s (s\<lparr>pr_phase := Left\<rparr>)"
| child_noted: "pr_phase s = Forked p \<Longrightarrow> proc_step s (s\<lparr>pr_phase := Waiting p, pr_child_pid := p\<rparr>)"
| worker_signaled: "pr_worker s = Running p \<Longrightarrow> proc_step s (s\<lparr>pr_worker := Signaled p\<rparr>)"
| worker_exits: "pr_worker s = Running p \<Longrightarrow> proc_step s (s\<lparr>pr_worker := Exited p\<rparr>)"
| restart: "pr_phase s = Waiting p \<Longrightarrow> pr_worker s = Signaled p \<Longrightarrow>
     proc_step s (s\<lparr>pr_phase := Forking, pr_worker := NoWorker\<rparr>)"
| finished: "pr_phase s = Waiting p \<Longrightarrow> pr_worker s = Exited p \<Longrightarrow>
     proc_step s (s\<lparr>pr_phase := Left, pr_worker := NoWorker\<rparr>)"
| terminate: "pr_phase s \<noteq> Left \<Longrightarrow> proc_step s (sigterm_supervisor s)"

inductive_simps proc_step_simps: "proc_step s t"

definition procs_start :: "status \<Rightarrow> procs" where
  "procs_start stat = \<lparr>pr_phase = Forking, pr_child_pid = 0, pr_worker = NoWorker, pr_status = stat, pr_forks = 0\<rparr>"

text \<open>The pid of the worker that is there.\<close>

fun worker_pid :: "worker \<Rightarrow> int" where
  "worker_pid NoWorker = 0"
| "worker_pid (Running p) = p"
| "worker_pid (Signaled p) = p"
| "worker_pid (Exited p) = p"

definition procs_ok :: "procs \<Rightarrow> bool" where
  "procs_ok s \<longleftrightarrow>
     (case pr_phase s of
        Forking \<Rightarrow> pr_worker s = NoWorker
      | Forked p \<Rightarrow> 0 < p \<and> worker_pid (pr_worker s) = p
      | Waiting p \<Rightarrow> 0 < p \<and> worker_pid (pr_worker s) = p \<and> pr_child_pid s = p
      | Left \<Rightarrow> True)"

lemma sigterm_supervisor_simps:
  "pr_child_pid s = 0 \<Longrightarrow> sigterm_supervisor s = s\<lparr>pr_phase := Left, pr_status := status_shutdown (pr_status s)\<rparr>"
  "pr_child_pid s \<noteq> 0 \<Longrightarrow> pr_worker s = Running (pr_child_pid s) \<Longrightarrow>
    sigterm_supervisor s = s\<lparr>pr_worker := Exited (pr_child_pid s), pr_status := status_shutdown (pr_status s)\<rparr>"
  "pr_child_pid s \<noteq> 0 \<Longrightarrow> pr_worker s \<noteq> Running (pr_child_pid s) \<Longrightarrow> sigterm_supervisor s = s"
  by (simp_all add: sigterm_supervisor_def handler_exit_def sigterm_worker_def)

lemma procs_ok_sigterm: "procs_ok s \<Longrightarrow> procs_ok (sigterm_supervisor s)"
  by (cases "pr_child_pid s = 0"; cases "pr_worker s = Running (pr_child_pid s)")
    (auto simp: sigterm_supervisor_simps procs_ok_def split: sup_phase.splits)

lemma procs_ok_step: "proc_step s t \<Longrightarrow> procs_ok s \<Longrightarrow> procs_ok t"
  by (induction rule: proc_step.induct) (auto simp: procs_ok_sigterm, auto simp: procs_ok_def split: sup_phase.splits)

lemma procs_ok_reachable: "proc_step\<^sup>*\<^sup>* (procs_start stat) s \<Longrightarrow> procs_ok s"
  by (induction rule: rtranclp_induct) (auto simp: procs_start_def procs_ok_def dest: procs_ok_step)

text \<open>The supervisor has been told to stop: the worker that it waits for has ended by itself.\<close>

definition stopping :: "nat \<Rightarrow> procs \<Rightarrow> bool" where
  "stopping n s \<longleftrightarrow> pr_forks s = n \<and> \<not> st_alive (pr_status s) \<and>
     (pr_phase s = Left \<and> pr_worker s = NoWorker \<or> (\<exists>p. pr_phase s = Waiting p \<and> 0 < p \<and> pr_child_pid s = p \<and> pr_worker s = Exited p))"

lemma stopping_step: "proc_step s t \<Longrightarrow> stopping n s \<Longrightarrow> stopping n t"
  by (induction rule: proc_step.induct) (auto simp: stopping_def sigterm_supervisor_simps)

lemma stopping_steps: "proc_step\<^sup>*\<^sup>* s t \<Longrightarrow> stopping n s \<Longrightarrow> stopping n t"
  by (induction rule: rtranclp_induct) (auto dest: stopping_step)

text \<open>
  A signal that comes between the death of a worker and the note of its successor goes to the
  pid of the dead worker, and is lost.
\<close>

lemma sigterm_lost:
  "\<exists>s. proc_step\<^sup>*\<^sup>* (procs_start stat) s \<and> pr_phase s = Forked 8 \<and> pr_worker s = Running 8 \<and> sigterm_supervisor s = s"
proof (intro exI conjI)
  let ?s1 = "(procs_start stat)\<lparr>pr_phase := Forked 7, pr_worker := Running 7, pr_forks := 1\<rparr>"
  let ?s2 = "?s1\<lparr>pr_phase := Waiting 7, pr_child_pid := 7\<rparr>"
  let ?s3 = "?s2\<lparr>pr_worker := Signaled 7\<rparr>"
  let ?s4 = "?s3\<lparr>pr_phase := Forking, pr_worker := NoWorker\<rparr>"
  let ?s5 = "?s4\<lparr>pr_phase := Forked 8, pr_worker := Running 8, pr_forks := Suc 1\<rparr>"
  have "proc_step (procs_start stat) ?s1" "proc_step ?s1 ?s2" "proc_step ?s2 ?s3" "proc_step ?s3 ?s4" "proc_step ?s4 ?s5"
    using fork_child [of "procs_start stat" 7] child_noted [of ?s1 7] worker_signaled [of ?s2 7] restart [of ?s3 7]
      fork_child [of ?s4 8]
    by (simp_all add: procs_start_def)
  then show "proc_step\<^sup>*\<^sup>* (procs_start stat) ?s5" by (meson converse_rtranclp_into_rtranclp rtranclp.rtrancl_refl)
  show "pr_phase ?s5 = Forked 8" "pr_worker ?s5 = Running 8" by simp_all
  show "sigterm_supervisor ?s5 = ?s5" by (rule sigterm_supervisor_simps(3)) simp_all
qed

section \<open>Properties\<close>

text \<open>
  C23: the command line goes before the configuration file. When \<open>main\<close> gets to the worker,
  it is run as root with the file of the last \<open>-c\<close>, or the one built in, and whatever that
  file says, the pid file, the interface and the daemon mode are those of the last option of
  their kind; there is a supervisor unless it was disabled.
\<close>

theorem command_line_wins:
  assumes "main conf files uid pid opts = RunWorker supervised c"
  shows "(\<forall>opt. last_option opts {CHR ''p''} = Some opt \<longrightarrow> cf_pid_file c = Some (snd opt)) \<and>
    (\<forall>opt. last_option opts {CHR ''i''} = Some opt \<longrightarrow> cf_netif c = Some (snd opt)) \<and>
    (\<forall>opt. last_option opts {CHR ''d'', CHR ''f''} = Some opt \<longrightarrow>
      cf_daemon_mode c = (if fst opt = CHR ''d'' then 1 else - 1)) \<and>
    supervised = (last_option opts {CHR ''0''} = None) \<and> uid = 0 \<and>
    files (case last_option opts {CHR ''c''} of None \<Rightarrow> conf | Some opt \<Rightarrow> snd opt) \<noteq> None"
proof -
  obtain m where m: "option_loop opts (main_init conf) = Inr m"
    using assms by (auto simp: main_def split: sum.splits)
  obtain err where l: "loadconfig (files (mn_config_file m)) (mn_config m) = Some (Inr (err, c))"
    and modes: "main_modes m c uid pid = RunWorker supervised c"
    using assms m
    by (auto simp: main_def main_modes_def start_worker_def split: option.splits sum.splits main_mode.splits if_splits)
  have "supervised = mn_supervisor_mode m \<and> uid = 0"
    using modes by (auto simp: main_modes_def start_worker_def split: main_mode.splits if_splits)
  moreover have "keeps_options (mn_config m) c" by (rule loadconfig_keeps [OF l])
  moreover have "files (mn_config_file m) \<noteq> None" using l by (auto simp: loadconfig_def split: option.splits)
  ultimately show ?thesis
    using option_loop_last [OF m] by (auto simp: keeps_options_def main_init_def split: option.splits)
qed

theorem command_line_wins_witness:
  "\<exists>c. main ''bscope.conf'' (\<lambda>f. if f = ''my.conf'' then Some [] else None) 0 0
      [(CHR ''c'', ''my.conf''), (CHR ''i'', ''eth0''), (CHR ''i'', ''eth1''), (CHR ''f'', [])] = RunWorker True c \<and>
    cf_netif c = Some ''eth1'' \<and> cf_daemon_mode c = - 1"
proof -
  let ?f = "\<lambda>f. if f = ''my.conf'' then Some [] else None"
  let ?o = "[(CHR ''c'', ''my.conf''), (CHR ''i'', ''eth0''), (CHR ''i'', ''eth1''), (CHR ''f'', [])]"
  have "ini_parse handler_config (Some []) c = Inr (0, c)" for c
    by (simp add: ini_parse_def ini_parse_file_def ini_lines.simps [of _ "[]"])
  then have "\<exists>c. main ''bscope.conf'' ?f 0 0 ?o = RunWorker True c"
    by (simp add: main_def option_case_def main_init_def loadconfig_def main_modes_def start_worker_def default_config_def)
  then obtain c where c: "main ''bscope.conf'' ?f 0 0 ?o = RunWorker True c" ..
  then show ?thesis using command_line_wins [OF c] by simp
qed



end
